(* ===== verification/Prelude.thy ===== *)
theory Prelude
  imports Main "HOL-Library.Char_ord" "HOL-Library.List_Lexorder" "HOL-Library.Product_Lexorder"
begin

text \<open>
  Shared vocabulary of the development: the exceptions of the program as values, actions
  (state passing with exceptions) and the combinators the components are written with, and
  the operations of Python strings the code uses (\<^verbatim>\<open>in\<close>, \<^verbatim>\<open>startswith\<close>, \<^verbatim>\<open>endswith\<close>,
  \<^verbatim>\<open>split(sep, 1)\<close>, \<^verbatim>\<open>rsplit\<close>, \<^verbatim>\<open>int()\<close>, \<^verbatim>\<open>str()\<close>, \<^verbatim>\<open>lower()\<close>) with their lemmas.
\<close>

named_theorems act_simps "unfolding rules of the action combinators"
named_theorems keeps_intros "actions that leave a part of the state alone"
named_theorems stable_intros "actions that keep a predicate on the state"
named_theorems pystr "facts on the Python string operations"

section \<open>Exceptions\<close>

text \<open>
  One constructor per exception class the source raises. \<open>Foreign c\<close> is an exception of
  class \<open>c\<close> raised by code outside the repository (Neutron, the ORM, the kernel tools).
  The reasons of \<open>InvalidInput\<close> name the raise they come from; message texts are dropped.
\<close>

datatype invalid_reason =
    InvalidIP string
  | NotUnicast string
  | NotInAllowedCidrs string
  | InDenylist string
  | NoVip
  | NoIPv4Subnet string

datatype exc =
    InvalidInput invalid_reason
  | ObjectNotFound string
  | OctaviaConflictError
  | VIPOverlapsSubnetError string string
  | SubnetOverlapsServiceVIPError string string
  | LocalportLSPVerifyError string string
  | ServiceUnavailable
  | RegistryFetchError
  | UnderlayPoolExhausted
  | ValueError
  | AttributeError
  | KeyError string
  | OSError string
  | ConstraintViolation string
  | DBDataError string
  | Foreign string

section \<open>Actions\<close>

text \<open>
  Code with effects is a function from a state to a result and the new state; \<open>Inl\<close> is a
  raised exception. State changes made before a raise stay, as in the source.
\<close>

type_synonym ('s, 'a) act = "'s \<Rightarrow> (exc + 'a) \<times> 's"

definition ret :: "'a \<Rightarrow> ('s, 'a) act" where
  "ret x s = (Inr x, s)"

definition raise :: "exc \<Rightarrow> ('s, 'a) act" where
  "raise e s = (Inl e, s)"

definition bnd :: "('s, 'a) act \<Rightarrow> ('a \<Rightarrow> ('s, 'b) act) \<Rightarrow> ('s, 'b) act" where
  "bnd m f s = (case m s of (Inl e, s') \<Rightarrow> (Inl e, s') | (Inr x, s') \<Rightarrow> f x s')"

definition attempt :: "('s, 'a) act \<Rightarrow> (exc \<Rightarrow> ('s, 'a) act) \<Rightarrow> ('s, 'a) act" where
  "attempt m h s = (case m s of (Inl e, s') \<Rightarrow> h e s' | (Inr x, s') \<Rightarrow> (Inr x, s'))"

text \<open>\<^verbatim>\<open>try: m except Exception: log\<close>: the exception is swallowed, the effects stay.\<close>

definition swallow :: "('s, unit) act \<Rightarrow> ('s, unit) act" where
  "swallow m = attempt m (\<lambda>_. ret ())"

definition andthen :: "('s, unit) act \<Rightarrow> ('s, 'b) act \<Rightarrow> ('s, 'b) act" where
  "andthen m k = bnd m (\<lambda>_. k)"

definition doif :: "bool \<Rightarrow> ('s, unit) act \<Rightarrow> ('s, unit) act" where
  "doif b m = (if b then m else ret ())"

text \<open>A \<^verbatim>\<open>for\<close> loop: the first exception ends it.\<close>

fun each :: "('a \<Rightarrow> ('s, unit) act) \<Rightarrow> 'a list \<Rightarrow> ('s, unit) act" where
  "each f [] = ret ()"
| "each f (x # xs) = andthen (f x) (each f xs)"

definition gets :: "('s \<Rightarrow> 'a) \<Rightarrow> ('s, 'a) act" where
  "gets f s = (Inr (f s), s)"

definition modify :: "('s \<Rightarrow> 's) \<Rightarrow> ('s, unit) act" where
  "modify f s = (Inr (), f s)"

lemmas act_defs = ret_def raise_def bnd_def attempt_def swallow_def andthen_def
  doif_def gets_def modify_def

lemma ret_run [simp, act_simps]: "ret x s = (Inr x, s)"
  by (simp add: ret_def)

lemma raise_run [simp, act_simps]: "raise e s = (Inl e, s)"
  by (simp add: raise_def)

lemma gets_run [simp, act_simps]: "gets f s = (Inr (f s), s)"
  by (simp add: gets_def)

lemma modify_run [simp, act_simps]: "modify f s = (Inr (), f s)"
  by (simp add: modify_def)

lemma bnd_Inr [simp, act_simps]: "m s = (Inr x, s') \<Longrightarrow> bnd m f s = f x s'"
  by (simp add: bnd_def)

lemma bnd_Inl [simp, act_simps]: "m s = (Inl e, s') \<Longrightarrow> bnd m f s = (Inl e, s')"
  by (simp add: bnd_def)

lemma andthen_Inr [simp, act_simps]: "m s = (Inr x, s') \<Longrightarrow> andthen m k s = k s'"
  by (simp add: andthen_def)

lemma andthen_Inl [simp, act_simps]: "m s = (Inl e, s') \<Longrightarrow> andthen m k s = (Inl e, s')"
  by (simp add: andthen_def)

lemma attempt_Inr [simp, act_simps]: "m s = (Inr x, s') \<Longrightarrow> attempt m h s = (Inr x, s')"
  by (simp add: attempt_def)

lemma attempt_Inl [simp, act_simps]: "m s = (Inl e, s') \<Longrightarrow> attempt m h s = h e s'"
  by (simp add: attempt_def)

lemma bnd_cases:
  assumes "bnd m f s = (r, s')"
  obtains (raised) e where "m s = (Inl e, s')" "r = Inl e"
    | (returned) x s1 where "m s = (Inr x, s1)" "f x s1 = (r, s')"
  using assms by (auto simp: bnd_def split: prod.splits sum.splits)

lemma andthen_cases:
  assumes "andthen m k s = (r, s')"
  obtains (raised) e where "m s = (Inl e, s')" "r = Inl e"
    | (returned) s1 where "m s = (Inr (), s1)" "k s1 = (r, s')"
  using assms by (auto simp: andthen_def elim: bnd_cases)

lemma attempt_cases:
  assumes "attempt m h s = (r, s')"
  obtains (raised) e s1 where "m s = (Inl e, s1)" "h e s1 = (r, s')"
    | (returned) x where "m s = (Inr x, s')" "r = Inr x"
  using assms by (auto simp: attempt_def split: prod.splits sum.splits)

lemma swallow_fst [simp]: "fst (swallow m s) = Inr ()"
  by (auto simp: swallow_def attempt_def split: prod.splits sum.splits)

lemma swallow_snd [simp]: "snd (swallow m s) = snd (m s)"
  by (auto simp: swallow_def attempt_def split: prod.splits sum.splits)

lemma swallow_run: "swallow m s = (Inr (), snd (m s))"
  by (simp add: prod_eq_iff)

text \<open>An action whose exceptions are swallowed never raises; so does a loop over such actions.\<close>

lemma each_swallow_fst: "(\<And>x s. fst (f x s) = Inr ()) \<Longrightarrow> fst (each f xs s) = Inr ()"
proof (induction xs arbitrary: s)
  case (Cons x xs)
  obtain s' where "f x s = (Inr (), s')"
    by (metis Cons.prems prod.collapse)
  then show ?case using Cons by simp
qed simp

lemma each_cong: "(\<And>x. x \<in> set xs \<Longrightarrow> f x = g x) \<Longrightarrow> each f xs = each g xs"
  by (induction xs) simp_all

text \<open>A state predicate that every body of a loop keeps is kept by the loop.\<close>

lemma each_keeps:
  assumes "\<And>x s. x \<in> set xs \<Longrightarrow> P s \<Longrightarrow> P (snd (f x s))" and "P s"
  shows "P (snd (each f xs s))"
  using assms
proof (induction xs arbitrary: s)
  case (Cons x xs)
  have "P (snd (f x s))" using Cons.prems by simp
  then show ?case
    using Cons.IH Cons.prems(1)
    by (cases "f x s") (auto simp: andthen_def bnd_def split: sum.splits)
qed simp

text \<open>An action that never changes what \<open>v\<close> reads of the state, whether it returns or raises.\<close>

definition keeps :: "('s \<Rightarrow> 'v) \<Rightarrow> ('s, 'a) act \<Rightarrow> bool" where
  "keeps v m \<longleftrightarrow> (\<forall>s. v (snd (m s)) = v s)"

lemma keepsD: "keeps v m \<Longrightarrow> m s = (r, s') \<Longrightarrow> v s' = v s"
  unfolding keeps_def by (metis snd_conv)

lemma keeps_basic [keeps_intros]:
  "keeps v (ret x)" "keeps v (raise e)" "keeps v (gets f)"
  by (simp_all add: keeps_def)

lemma keeps_bnd [keeps_intros]: "keeps v m \<Longrightarrow> (\<And>x. keeps v (f x)) \<Longrightarrow> keeps v (bnd m f)"
  by (simp add: keeps_def bnd_def split: prod.split sum.split) (metis snd_conv)

lemma keeps_andthen [keeps_intros]: "keeps v m \<Longrightarrow> keeps v k \<Longrightarrow> keeps v (andthen m k)"
  by (simp add: andthen_def keeps_bnd)

lemma keeps_attempt [keeps_intros]: "keeps v m \<Longrightarrow> (\<And>e. keeps v (h e)) \<Longrightarrow> keeps v (attempt m h)"
  by (simp add: keeps_def attempt_def split: prod.split sum.split) (metis snd_conv)

lemma keeps_swallow [keeps_intros]: "keeps v m \<Longrightarrow> keeps v (swallow m)"
  by (simp add: keeps_def)

lemma keeps_each [keeps_intros]: "(\<And>x. x \<in> set xs \<Longrightarrow> keeps v (f x)) \<Longrightarrow> keeps v (each f xs)"
  by (induction xs) (simp_all add: keeps_basic keeps_andthen)

lemma keeps_if [keeps_intros]: "keeps v m \<Longrightarrow> keeps v k \<Longrightarrow> keeps v (if b then m else k)"
  by simp

lemma keeps_doif [keeps_intros]: "keeps v m \<Longrightarrow> keeps v (doif b m)"
  by (simp add: doif_def keeps_basic)

text \<open>An action that keeps a predicate on the state, whether it returns or raises.\<close>

definition stable :: "('s \<Rightarrow> bool) \<Rightarrow> ('s, 'a) act \<Rightarrow> bool" where
  "stable P m \<longleftrightarrow> (\<forall>s. P s \<longrightarrow> P (snd (m s)))"

lemma stableD: "stable P m \<Longrightarrow> P s \<Longrightarrow> m s = (r, s') \<Longrightarrow> P s'"
  unfolding stable_def by (metis snd_conv)

lemma stableI: "(\<And>s r s'. P s \<Longrightarrow> m s = (r, s') \<Longrightarrow> P s') \<Longrightarrow> stable P m"
  unfolding stable_def by (metis prod.collapse)

lemma keeps_stable: "keeps v m \<Longrightarrow> stable (\<lambda>s. P (v s)) m"
  by (simp add: keeps_def stable_def)

lemma stable_basic [stable_intros]: "stable P (ret x)" "stable P (raise e)" "stable P (gets f)"
  by (simp_all add: stable_def)

lemma stable_bnd [stable_intros]: "stable P m \<Longrightarrow> (\<And>x. stable P (f x)) \<Longrightarrow> stable P (bnd m f)"
  by (rule stableI) (auto elim!: bnd_cases dest: stableD)

lemma stable_andthen [stable_intros]: "stable P m \<Longrightarrow> stable P k \<Longrightarrow> stable P (andthen m k)"
  by (simp add: andthen_def stable_bnd)

lemma stable_attempt [stable_intros]: "stable P m \<Longrightarrow> (\<And>e. stable P (h e)) \<Longrightarrow> stable P (attempt m h)"
  by (rule stableI) (auto elim!: attempt_cases dest: stableD)

lemma stable_swallow [stable_intros]: "stable P m \<Longrightarrow> stable P (swallow m)"
  by (simp add: swallow_def stable_attempt stable_basic)

lemma stable_doif [stable_intros]: "stable P m \<Longrightarrow> stable P (doif b m)"
  by (simp add: doif_def stable_basic)

lemma stable_each [stable_intros]: "(\<And>x. x \<in> set xs \<Longrightarrow> stable P (f x)) \<Longrightarrow> stable P (each f xs)"
  by (induction xs) (simp_all add: stable_basic stable_andthen)

lemma stable_if [stable_intros]: "stable P m \<Longrightarrow> stable P k \<Longrightarrow> stable P (if b then m else k)"
  by simp

text \<open>An action that returns \<open>x\<close> from every state.\<close>

definition returns :: "('s, 'a) act \<Rightarrow> 'a \<Rightarrow> bool" where
  "returns m x \<longleftrightarrow> (\<forall>s. \<exists>s'. m s = (Inr x, s'))"

lemma returns_andthen: "returns m () \<Longrightarrow> returns k x \<Longrightarrow> returns (andthen m k) x"
  unfolding returns_def by (metis andthen_Inr)

lemma returns_bnd: "(\<And>s. \<exists>y s'. m s = (Inr y, s')) \<Longrightarrow> (\<And>y. returns (f y) x) \<Longrightarrow> returns (bnd m f) x"
  unfolding returns_def by (metis bnd_Inr)

section \<open>Truth of optional values\<close>

text \<open>
  \<^verbatim>\<open>d.get(k)\<close> is an option; \<^verbatim>\<open>None\<close> and a missing key are both \<open>None\<close>. Python's truth
  value of a string or an integer is that it is not empty, not zero.
\<close>

definition truthy_str :: "string option \<Rightarrow> bool" where
  "truthy_str v = (case v of None \<Rightarrow> False | Some s \<Rightarrow> s \<noteq> [])"

definition truthy_int :: "int option \<Rightarrow> bool" where
  "truthy_int v = (case v of None \<Rightarrow> False | Some n \<Rightarrow> n \<noteq> 0)"

text \<open>\<^verbatim>\<open>a or b\<close> on optional strings and integers.\<close>

definition or_str :: "string option \<Rightarrow> string option \<Rightarrow> string option" where
  "or_str a b = (if truthy_str a then a else b)"

definition or_int :: "int option \<Rightarrow> int option \<Rightarrow> int option" where
  "or_int a b = (if truthy_int a then a else b)"

text \<open>\<^verbatim>\<open>d.get('enabled', True)\<close>.\<close>

definition get_enabled :: "bool option \<Rightarrow> bool" where
  "get_enabled v = (case v of None \<Rightarrow> True | Some b \<Rightarrow> b)"

lemma truthy_str_iff: "truthy_str v \<longleftrightarrow> (\<exists>s. v = Some s \<and> s \<noteq> [])"
  by (auto simp: truthy_str_def split: option.splits)

lemma truthy_int_iff: "truthy_int v \<longleftrightarrow> (\<exists>n. v = Some n \<and> n \<noteq> 0)"
  by (auto simp: truthy_int_def split: option.splits)

lemma truthy_simps [simp]:
  "\<not> truthy_str None" "truthy_str (Some s) = (s \<noteq> [])"
  "\<not> truthy_int None" "truthy_int (Some n) = (n \<noteq> 0)"
  by (simp_all add: truthy_str_def truthy_int_def)

lemma get_enabled_simps [simp]: "get_enabled None" "get_enabled (Some b) = b"
  by (simp_all add: get_enabled_def)

section \<open>Python strings\<close>

definition startswith :: "string \<Rightarrow> string \<Rightarrow> bool" where
  "startswith s p = (take (length p) s = p)"

definition endswith :: "string \<Rightarrow> string \<Rightarrow> bool" where
  "endswith s p = startswith (rev s) (rev p)"

text \<open>The first occurrence of \<open>sep\<close> in a string: what stands before and after it.\<close>

fun find_sub :: "string \<Rightarrow> string \<Rightarrow> (string \<times> string) option" where
  "find_sub sep [] = (if sep = [] then Some ([], []) else None)"
| "find_sub sep (c # cs) =
     (if startswith (c # cs) sep then Some ([], drop (length sep) (c # cs))
      else map_option (\<lambda>(a, b). (c # a, b)) (find_sub sep cs))"

text \<open>\<^verbatim>\<open>sub in s\<close>.\<close>

definition contains :: "string \<Rightarrow> string \<Rightarrow> bool" where
  "contains s sub = (find_sub sub s \<noteq> None)"

text \<open>\<^verbatim>\<open>s.split(sep, 1)[1]\<close>, \<open>None\<close> for the \<^verbatim>\<open>IndexError\<close> when \<open>sep\<close> does not occur.\<close>

definition split1_snd :: "string \<Rightarrow> string \<Rightarrow> string option" where
  "split1_snd s sep = map_option snd (find_sub sep s)"

lemma startswith_append [simp, pystr]: "startswith (p @ s) p"
  by (simp add: startswith_def)

lemma startswith_iff [pystr]: "startswith s p \<longleftrightarrow> (\<exists>t. s = p @ t)"
  by (auto simp: startswith_def) (metis append_take_drop_id)

lemma endswith_iff [pystr]: "endswith s p \<longleftrightarrow> (\<exists>t. s = t @ p)"
  unfolding endswith_def startswith_iff
  by (metis rev_append rev_rev_ident)

lemma find_sub_Some: "find_sub sep s = Some (a, b) \<Longrightarrow> s = a @ sep @ b"
proof (induction sep s arbitrary: a b rule: find_sub.induct)
  case (2 sep c cs)
  then show ?case
    by (auto simp: startswith_iff split: if_splits)
qed (auto split: if_splits)

lemma find_sub_prefix: "find_sub sep (sep @ s) = Some ([], s)"
proof (cases "sep @ s")
  case (Cons c cs)
  then have "startswith (c # cs) sep" "drop (length sep) (c # cs) = s"
    by (metis startswith_append, metis append_eq_conv_conj)
  then show ?thesis by (simp add: Cons)
qed auto

lemma find_sub_append: "find_sub sep (p @ sep @ s) \<noteq> None"
proof (induction p)
  case Nil
  then show ?case by (simp add: find_sub_prefix)
qed auto

lemma find_sub_char: "c \<notin> set p \<Longrightarrow> find_sub [c] (p @ c # s) = Some (p, s)"
  by (induction p) (auto simp: startswith_def)

lemma contains_iff [pystr]: "contains s sub \<longleftrightarrow> (\<exists>a b. s = a @ sub @ b)"
  unfolding contains_def using find_sub_Some find_sub_append by fastforce

lemma split1_snd_None [pystr]: "split1_snd s sep = None \<longleftrightarrow> \<not> contains s sep"
  unfolding split1_snd_def contains_def by (cases "find_sub sep s") auto

section \<open>Numbers as strings\<close>

fun str_nat :: "nat \<Rightarrow> string" where
  "str_nat n = (if n < 10 then [char_of (48 + n)] else str_nat (n div 10) @ [char_of (48 + n mod 10)])"

declare str_nat.simps [simp del]

definition str_int :: "int \<Rightarrow> string" where
  "str_int i = (if i < 0 then CHR ''-'' # str_nat (nat (- i)) else str_nat (nat i))"

definition is_digit :: "char \<Rightarrow> bool" where
  "is_digit c = (48 \<le> (of_char c :: nat) \<and> (of_char c :: nat) \<le> 57)"

definition digit_val :: "char \<Rightarrow> nat" where
  "digit_val c = of_char c - 48"

fun nat_of_digits :: "nat \<Rightarrow> string \<Rightarrow> nat" where
  "nat_of_digits acc [] = acc"
| "nat_of_digits acc (c # cs) = nat_of_digits (acc * 10 + digit_val c) cs"

text \<open>A non-empty string of ASCII digits as a number.\<close>

definition parse_nat :: "string \<Rightarrow> nat option" where
  "parse_nat s = (if s \<noteq> [] \<and> list_all is_digit s then Some (nat_of_digits 0 s) else None)"

lemma nat_of_digits_append: "nat_of_digits acc (xs @ ys) = nat_of_digits (nat_of_digits acc xs) ys"
  by (induction xs arbitrary: acc) auto

lemma digit_char [simp]:
  assumes "d < 10"
  shows "is_digit (char_of (48 + d))" "digit_val (char_of (48 + d)) = d"
  using assms by (simp_all add: is_digit_def digit_val_def)

lemma str_nat_ne [simp]: "str_nat n \<noteq> []"
  by (subst str_nat.simps) simp

lemma str_nat_digits: "list_all is_digit (str_nat n)"
proof (induction n rule: str_nat.induct)
  case (1 n)
  then show ?case
    by (cases "n < 10") (simp_all add: str_nat.simps[of n])
qed

lemma nat_of_digits_str_nat: "nat_of_digits 0 (str_nat n) = n"
proof (induction n rule: str_nat.induct)
  case (1 n)
  then show ?case
    by (cases "n < 10") (simp_all add: str_nat.simps[of n] nat_of_digits_append)
qed

lemma parse_str_nat [simp]: "parse_nat (str_nat n) = Some n"
  by (simp add: parse_nat_def str_nat_digits nat_of_digits_str_nat)

lemma str_nat_inj: "str_nat m = str_nat n \<longleftrightarrow> m = n"
  by (metis nat_of_digits_str_nat)

text \<open>\<^verbatim>\<open>str.lower()\<close> on ASCII letters; other characters stay.\<close>

definition lower_char :: "char \<Rightarrow> char" where
  "lower_char c = (if 65 \<le> (of_char c :: nat) \<and> (of_char c :: nat) \<le> 90 then char_of ((of_char c :: nat) + 32) else c)"

definition lower :: "string \<Rightarrow> string" where
  "lower s = map lower_char s"

section \<open>Sets in an unspecified order\<close>

text \<open>
  Python iterates over a set in an order it does not specify. Code that does so takes a
  parameter that lists the elements of a set given as a list, once each.
\<close>

definition set_order_ok :: "(string list \<Rightarrow> string list) \<Rightarrow> bool" where
  "set_order_ok set_order \<longleftrightarrow> (\<forall>xs. set (set_order xs) = set xs \<and> distinct (set_order xs))"

lemma set_order_set: "set_order_ok f \<Longrightarrow> set (f xs) = set xs"
  by (simp add: set_order_ok_def)

lemma set_order_Nil: "set_order_ok f \<Longrightarrow> f xs = [] \<longleftrightarrow> xs = []"
  unfolding set_order_ok_def by (metis set_empty)

section \<open>Lists\<close>

lemma filter_filter_eq [simp]: "filter P (filter P xs) = filter P xs"
  by (induction xs) auto

lemma filter_none: "(\<And>x. x \<in> set xs \<Longrightarrow> \<not> P x) \<Longrightarrow> filter P xs = []"
  by (induction xs) auto

lemma filter_all: "(\<And>x. x \<in> set xs \<Longrightarrow> P x) \<Longrightarrow> filter P xs = xs"
  by (induction xs) auto

lemma find_append_new: "(\<And>x. x \<in> set xs \<Longrightarrow> \<not> P x) \<Longrightarrow> P y \<Longrightarrow> find P (xs @ [y]) = Some y"
  by (induction xs) auto

lemma map_of_filter_key: "map_of (filter (\<lambda>(k, _). k \<noteq> a) xs) b = (if b = a then None else map_of xs b)"
  by (induction xs) auto

section \<open>Codecs\<close>

text \<open>
  What a reader promises about a writer, on the values the writer is used for. Two codecs one after the
  other are a codec when the first writes what the second is used for.
\<close>

locale codec =
  fixes ok :: "'a \<Rightarrow> bool" and enc :: "'a \<Rightarrow> 'b" and dec :: "'b \<Rightarrow> 'a option"
  assumes dec_enc: "ok x \<Longrightarrow> dec (enc x) = Some x"
begin

lemma enc_inj: "ok x \<Longrightarrow> ok y \<Longrightarrow> enc x = enc y \<longleftrightarrow> x = y"
  using dec_enc by (metis option.inject)

lemma dec_all: "list_all ok xs \<Longrightarrow> those (map dec (map enc xs)) = Some xs"
  by (induction xs) (simp_all add: dec_enc)

end

locale codec_stack = outer: codec ok enc dec + inner: codec ok' enc' dec'
  for ok :: "'a \<Rightarrow> bool" and enc :: "'a \<Rightarrow> 'b" and dec and ok' and enc' :: "'b \<Rightarrow> 'c" and dec' +
  assumes enc_ok: "ok x \<Longrightarrow> ok' (enc x)"

sublocale codec_stack \<subseteq> both: codec ok "\<lambda>x. enc' (enc x)" "\<lambda>t. Option.bind (dec' t) dec"
  by unfold_locales (simp add: enc_ok inner.dec_enc outer.dec_enc)

end
