(* ===== verification/Constants.thy ===== *)
theory Constants
  imports Prelude
begin

text \<open>
  The constants of \<^verbatim>\<open>neutron_local_services/constants.py\<close> that the program's logic depends on,
  under the source's names. The OVN constants of Neutron are not part of the repository:
  \<open>ovn_const\<close> is the record of those the code reads, and every definition that reads one
  takes it as a parameter.
\<close>

named_theorems const_defs "values of the constants"

definition DEVICE_ID_MARKER :: string where
  "DEVICE_ID_MARKER = ''localsvc-''"

definition DEVICE_ID_PREFIX :: string where
  "DEVICE_ID_PREFIX = ''ovn-lb-hm-'' @ DEVICE_ID_MARKER"

definition NETNS_PREFIX :: string where
  "NETNS_PREFIX = ''localsvc-''"

definition ATTACH_OPT_IN :: string where "ATTACH_OPT_IN = ''opt-in''"

definition ATTACH_OPT_OUT :: string where "ATTACH_OPT_OUT = ''opt-out''"

definition ATTACH_POLICIES :: "string list" where
  "ATTACH_POLICIES = [ATTACH_OPT_IN, ATTACH_OPT_OUT]"

definition DIST_ACTIVE_BACKUP :: string where "DIST_ACTIVE_BACKUP = ''active-backup''"

definition DIST_ROUND_ROBIN :: string where "DIST_ROUND_ROBIN = ''round-robin''"

definition DIST_LEAST_CONNECTION :: string where "DIST_LEAST_CONNECTION = ''least-connection''"

definition DISTRIBUTION_POLICIES :: "string list" where
  "DISTRIBUTION_POLICIES = [DIST_ACTIVE_BACKUP, DIST_ROUND_ROBIN, DIST_LEAST_CONNECTION]"

definition HC_NONE :: string where "HC_NONE = ''none''"

definition HC_HTTP :: string where "HC_HTTP = ''http''"

definition HC_HTTPS :: string where "HC_HTTPS = ''https''"

definition HC_TCP :: string where "HC_TCP = ''tcp''"

definition HC_DNS :: string where "HC_DNS = ''dns''"

definition HC_NTP :: string where "HC_NTP = ''ntp''"

definition HC_TYPES :: "string list" where
  "HC_TYPES = [HC_NONE, HC_HTTP, HC_HTTPS, HC_TCP, HC_DNS, HC_NTP]"

definition EXPOSURE_NAT :: string where "EXPOSURE_NAT = ''nat''"

definition EXPOSURE_PROXY :: string where "EXPOSURE_PROXY = ''proxy''"

definition EXPOSURE_PLUGINS :: "string list" where
  "EXPOSURE_PLUGINS = [EXPOSURE_NAT, EXPOSURE_PROXY]"

definition PROTO_TCP :: string where "PROTO_TCP = ''tcp''"

definition PROTO_UDP :: string where "PROTO_UDP = ''udp''"

definition PROTO_TCP_UDP :: string where "PROTO_TCP_UDP = ''tcp-udp''"

definition PROTOCOLS :: "string list" where
  "PROTOCOLS = [PROTO_TCP, PROTO_UDP, PROTO_TCP_UDP]"

definition DEFAULT_VIP_DENYLIST :: "string list" where
  "DEFAULT_VIP_DENYLIST = [''169.254.169.254'', ''fe80::a9fe:a9fe'']"

definition DEFAULT_ALLOWED_VIP_CIDRS :: "string list" where
  "DEFAULT_ALLOWED_VIP_CIDRS = [''169.254.0.0/16'', ''fe80::/10'']"

definition UNDERLAY_VETH_PREFIX :: string where "UNDERLAY_VETH_PREFIX = ''nls''"

definition UNDERLAY_VETH_NET_LEN :: nat where "UNDERLAY_VETH_NET_LEN = 10"

definition DEFAULT_UNDERLAY_EGRESS_CIDR :: string where
  "DEFAULT_UNDERLAY_EGRESS_CIDR = ''100.64.0.0/22''"

definition UNDERLAY_HOST_CHAIN :: string where
  "UNDERLAY_HOST_CHAIN = ''NEUTRON_LOCAL_SVC_UNDERLAY''"

definition UNDERLAY_PER_NET_CHAIN_PREFIX :: string where
  "UNDERLAY_PER_NET_CHAIN_PREFIX = ''NLS_UND_''"

lemmas all_consts [const_defs] =
  DEVICE_ID_MARKER_def DEVICE_ID_PREFIX_def NETNS_PREFIX_def
  ATTACH_OPT_IN_def ATTACH_OPT_OUT_def ATTACH_POLICIES_def
  DIST_ACTIVE_BACKUP_def DIST_ROUND_ROBIN_def DIST_LEAST_CONNECTION_def DISTRIBUTION_POLICIES_def
  HC_NONE_def HC_HTTP_def HC_HTTPS_def HC_TCP_def HC_DNS_def HC_NTP_def HC_TYPES_def
  EXPOSURE_NAT_def EXPOSURE_PROXY_def EXPOSURE_PLUGINS_def
  PROTO_TCP_def PROTO_UDP_def PROTO_TCP_UDP_def PROTOCOLS_def
  DEFAULT_VIP_DENYLIST_def DEFAULT_ALLOWED_VIP_CIDRS_def
  UNDERLAY_VETH_PREFIX_def UNDERLAY_VETH_NET_LEN_def DEFAULT_UNDERLAY_EGRESS_CIDR_def
  UNDERLAY_HOST_CHAIN_def UNDERLAY_PER_NET_CHAIN_PREFIX_def

section \<open>Constants of Neutron the code reads\<close>

record ovn_const =
  OVN_DEVID_EXT_ID_KEY :: string
  OVN_CIDRS_EXT_ID_KEY :: string
  OVN_NETWORK_MTU_EXT_ID_KEY :: string
  OVN_LB_HM_PORT_DISTRIBUTED :: string
  LSP_TYPE_LOCALPORT :: string

end
