(* ===== verification/Ipaddress.thy ===== *)
theory Ipaddress
  imports Prelude
begin

text \<open>
  What the code uses of Python's \<^verbatim>\<open>ipaddress\<close> module, for IPv4: the text of an address, the
  parser of an address, and \<^verbatim>\<open>ip_network(text, strict=True)\<close> with a prefix length, a netmask or
  a host mask after the slash. A text that is not an IPv4 network either is an IPv6 one or
  makes \<^verbatim>\<open>ip_network\<close> raise \<^verbatim>\<open>ValueError\<close>; the only caller raises \<^verbatim>\<open>ValueError\<close> in both cases, so
  both are \<open>None\<close> here.
\<close>

fun split_on :: "char \<Rightarrow> string \<Rightarrow> string list" where
  "split_on c [] = [[]]"
| "split_on c (x # xs) =
     (if x = c then [] # split_on c xs
      else case split_on c xs of [] \<Rightarrow> [[x]] | w # ws \<Rightarrow> (x # w) # ws)"

definition parse_octet :: "string \<Rightarrow> nat option" where
  "parse_octet s =
     (case parse_nat s of
        None \<Rightarrow> None
      | Some n \<Rightarrow> if length s \<le> 3 \<and> (s = ''0'' \<or> hd s \<noteq> CHR ''0'') \<and> n \<le> 255 then Some n else None)"

definition parse_ipv4 :: "string \<Rightarrow> nat option" where
  "parse_ipv4 s =
     (case map parse_octet (split_on (CHR ''.'') s) of
        [Some a, Some b, Some c, Some d] \<Rightarrow> Some (((a * 256 + b) * 256 + c) * 256 + d)
      | _ \<Rightarrow> None)"

definition str_ipv4 :: "nat \<Rightarrow> string" where
  "str_ipv4 n =
     str_nat (n div 16777216) @ ''.'' @ str_nat (n div 65536 mod 256) @ ''.'' @
     str_nat (n div 256 mod 256) @ ''.'' @ str_nat (n mod 256)"

text \<open>A netmask or host mask as a prefix length: the \<open>p\<close> with \<open>2 ^ 32 - 2 ^ (32 - p)\<close>.\<close>

definition prefix_of_mask :: "nat \<Rightarrow> nat option" where
  "prefix_of_mask m = find (\<lambda>p. m = 2 ^ 32 - 2 ^ (32 - p)) [0..<33]"

definition make_netmask :: "string \<Rightarrow> nat option" where
  "make_netmask arg =
     (case parse_nat arg of
        Some p \<Rightarrow> if p \<le> 32 then Some p else None
      | None \<Rightarrow>
          (case parse_ipv4 arg of
             None \<Rightarrow> None
           | Some m \<Rightarrow>
               (case prefix_of_mask m of
                  Some p \<Rightarrow> Some p
                | None \<Rightarrow> prefix_of_mask (2 ^ 32 - 1 - m))))"

text \<open>Network address and prefix length; \<open>None\<close> for anything else, host bits included.\<close>

definition ip_network4 :: "string \<Rightarrow> (nat \<times> nat) option" where
  "ip_network4 s =
     (case split_on (CHR ''/'') s of
        [a] \<Rightarrow> map_option (\<lambda>n. (n, 32)) (parse_ipv4 a)
      | [a, m] \<Rightarrow>
          (case (parse_ipv4 a, make_netmask m) of
             (Some n, Some p) \<Rightarrow> if n mod 2 ^ (32 - p) = 0 then Some (n, p) else None
           | _ \<Rightarrow> None)
      | _ \<Rightarrow> None)"

section \<open>Text and parser agree\<close>

lemma split_on_ne [simp]: "split_on c s \<noteq> []"
  by (induction s) (auto split: list.splits)

lemma split_on_clean: "c \<notin> set w \<Longrightarrow> split_on c w = [w]"
  by (induction w) auto

lemma split_on_append: "c \<notin> set w \<Longrightarrow> split_on c (w @ c # s) = w # split_on c s"
  by (induction w) auto

lemma digits_no_dot: "list_all is_digit w \<Longrightarrow> CHR ''.'' \<notin> set w"
  by (auto simp: list_all_iff is_digit_def)

lemma str_nat_no_dot: "CHR ''.'' \<notin> set (str_nat n)"
  by (rule digits_no_dot) (rule str_nat_digits)

lemma str_nat_small: "n < 10 \<Longrightarrow> str_nat n = [char_of (48 + n)]"
  by (simp add: str_nat.simps)

lemma str_nat_step: "10 \<le> n \<Longrightarrow> str_nat n = str_nat (n div 10) @ [char_of (48 + n mod 10)]"
  by (simp add: str_nat.simps[of n])

lemma hd_str_nat: "0 < n \<Longrightarrow> hd (str_nat n) \<noteq> CHR ''0''"
proof (induction n rule: str_nat.induct)
  case (1 n)
  show ?case
  proof (cases "n < 10")
    case True
    have "digit_val (char_of (48 + n)) = n" using True by (rule digit_char)
    moreover have "digit_val (CHR ''0'') = 0" by (simp add: digit_val_def)
    ultimately have "digit_val (char_of (48 + n)) \<noteq> digit_val (CHR ''0'')" using "1.prems" by simp
    then have "char_of (48 + n) \<noteq> CHR ''0''" by (rule contrapos_nn) (rule arg_cong)
    then show ?thesis using True by (simp add: str_nat_small)
  next
    case False
    then have "0 < n div 10" by simp
    then show ?thesis using "1.IH" False by (simp add: str_nat_step)
  qed
qed

lemma length_str_nat: "n < 1000 \<Longrightarrow> length (str_nat n) \<le> 3"
proof -
  assume n: "n < 1000"
  consider "n < 10" | "10 \<le> n" "n div 10 < 10" | "10 \<le> n" "10 \<le> n div 10" by linarith
  then show ?thesis
  proof cases
    case 3
    then have "n div 10 div 10 < 10" using n by simp
    then show ?thesis using 3 by (simp add: str_nat_step str_nat_small)
  qed (simp_all add: str_nat_step str_nat_small)
qed

lemma str_nat_0: "str_nat 0 = ''0''"
  by code_simp

lemma parse_octet_str_nat: "n \<le> 255 \<Longrightarrow> parse_octet (str_nat n) = Some n"
proof (cases "n = 0")
  case True
  have "parse_octet ''0'' = Some 0" by code_simp
  then show ?thesis by (simp add: True str_nat_0)
next
  case False
  moreover assume "n \<le> 255"
  ultimately show ?thesis
    using length_str_nat[of n] hd_str_nat[of n] by (simp add: parse_octet_def)
qed

lemma octets_recompose:
  "((n div 16777216 * 256 + n div 65536 mod 256) * 256 + n div 256 mod 256) * 256 + n mod 256 = (n::nat)"
proof -
  have "n div 65536 = n div 256 div 256" "n div 16777216 = n div 256 div 256 div 256"
    by (simp_all flip: div_mult2_eq)
  then show ?thesis by simp
qed

lemma parse_str_ipv4: "n < 2 ^ 32 \<Longrightarrow> parse_ipv4 (str_ipv4 n) = Some n"
proof -
  assume "n < 2 ^ 32"
  then have "n div 16777216 \<le> 255" by simp
  moreover have "k mod 256 \<le> 255" for k :: nat
    using mod_less_divisor[of 256 k] by linarith
  ultimately have "parse_ipv4 (str_ipv4 n) = Some (((n div 16777216 * 256 + n div 65536 mod 256) * 256
      + n div 256 mod 256) * 256 + n mod 256)"
    by (simp add: parse_ipv4_def str_ipv4_def split_on_append split_on_clean str_nat_no_dot
        parse_octet_str_nat)
  then show ?thesis by (simp only: octets_recompose)
qed

lemma str_ipv4_inj: "m < 2 ^ 32 \<Longrightarrow> n < 2 ^ 32 \<Longrightarrow> str_ipv4 m = str_ipv4 n \<longleftrightarrow> m = n"
  by (metis option.inject parse_str_ipv4)

lemma parse_octet_bound: "parse_octet s = Some n \<Longrightarrow> n \<le> 255"
  by (auto simp: parse_octet_def split: option.splits if_splits)

lemma parse_ipv4_bound: "parse_ipv4 s = Some n \<Longrightarrow> n < 2 ^ 32"
  by (auto simp: parse_ipv4_def map_eq_Cons_conv split: list.splits option.splits
      dest!: parse_octet_bound)

lemma prefix_of_mask_bound: "prefix_of_mask m = Some p \<Longrightarrow> p \<le> 32"
  by (auto simp: prefix_of_mask_def find_Some_iff simp del: upt_Suc)

lemma make_netmask_bound: "make_netmask a = Some p \<Longrightarrow> p \<le> 32"
  by (auto simp: make_netmask_def split: option.splits if_splits dest: prefix_of_mask_bound)

text \<open>A parsed network is aligned and lies in the address space.\<close>

lemma ip_network4_wf:
  assumes "ip_network4 s = Some (n, p)"
  shows "p \<le> 32" "n < 2 ^ 32" "n mod 2 ^ (32 - p) = 0"
  using assms
  by (auto simp: ip_network4_def split: list.splits option.splits if_splits
      dest: make_netmask_bound parse_ipv4_bound)

lemma aligned_top:
  assumes "n mod (2::nat) ^ k = 0" "n < 2 ^ 32" "k \<le> 32"
  shows "n + 2 ^ k \<le> 2 ^ 32"
proof -
  obtain q where q: "n = q * 2 ^ k" using assms(1) by (metis mod_0_imp_dvd dvd_div_mult_self)
  have "(2::nat) ^ 32 = 2 ^ (32 - k) * 2 ^ k" using assms(3) by (simp flip: power_add)
  then have "q * 2 ^ k < 2 ^ (32 - k) * 2 ^ k" using assms(2) q by simp
  then have "q < 2 ^ (32 - k)" by (rule mult_right_less_imp_less) simp
  then have "Suc q * 2 ^ k \<le> 2 ^ (32 - k) * 2 ^ k" by (simp only: Suc_leI mult_le_mono1)
  then show ?thesis using q \<open>(2::nat) ^ 32 = 2 ^ (32 - k) * 2 ^ k\<close> by simp
qed

end
