(* ===== verification/Netaddr.thy ===== *)
theory Netaddr
  imports Ipaddress
begin

text \<open>
  The package \<^verbatim>\<open>netaddr\<close> is not part of the repository: \<open>netaddr\<close> is the record of what the code
  calls of it, a parameter of every definition that parses an address. \<open>None\<close> is the
  \<^verbatim>\<open>AddrFormatError\<close> or \<^verbatim>\<open>ValueError\<close> of its constructors. \<open>netaddr_v4\<close> is an instance with IPv4
  only, for evaluation at concrete inputs.
\<close>

record ('ip, 'net) netaddr =
  IPAddress :: "string \<Rightarrow> 'ip option"
  IPNetwork :: "string \<Rightarrow> 'net option"
  ip_version :: "'ip \<Rightarrow> nat"
  net_version :: "'net \<Rightarrow> nat"
  ip_in_net :: "'ip \<Rightarrow> 'net \<Rightarrow> bool"
  ip_int :: "'ip \<Rightarrow> nat"
  ip_str :: "'ip \<Rightarrow> string"
  is_loopback :: "'ip \<Rightarrow> bool"
  is_multicast :: "'ip \<Rightarrow> bool"
  is_reserved :: "'ip \<Rightarrow> bool"
  is_netmask :: "'ip \<Rightarrow> bool"
  is_hostmask :: "'ip \<Rightarrow> bool"

text \<open>\<^verbatim>\<open>vip.version == net.version and vip in net\<close>, a test that occurs at four places.\<close>

definition same_family_in :: "('ip, 'net) netaddr \<Rightarrow> 'ip \<Rightarrow> 'net \<Rightarrow> bool" where
  "same_family_in na ip net = (ip_version na ip = net_version na net \<and> ip_in_net na ip net)"

definition v4_net :: "string \<Rightarrow> (nat \<times> nat) option" where
  "v4_net s =
     (case split_on (CHR ''/'') s of
        [a, m] \<Rightarrow>
          (case (parse_ipv4 a, parse_nat m) of
             (Some n, Some p) \<Rightarrow> if p \<le> 32 then Some (n div 2 ^ (32 - p) * 2 ^ (32 - p), p) else None
           | _ \<Rightarrow> None)
      | _ \<Rightarrow> None)"

definition netaddr_v4 :: "(nat, nat \<times> nat) netaddr" where
  "netaddr_v4 =
     \<lparr>IPAddress = parse_ipv4, IPNetwork = v4_net, ip_version = (\<lambda>_. 4), net_version = (\<lambda>_. 4),
      ip_in_net = (\<lambda>ip (n, p). n \<le> ip \<and> ip < n + 2 ^ (32 - p)), ip_int = id, ip_str = str_ipv4,
      is_loopback = (\<lambda>ip. ip div 16777216 = 127),
      is_multicast = (\<lambda>ip. 224 \<le> ip div 16777216 \<and> ip div 16777216 \<le> 239),
      is_reserved = (\<lambda>ip. 240 \<le> ip div 16777216),
      is_netmask = (\<lambda>ip. prefix_of_mask ip \<noteq> None),
      is_hostmask = (\<lambda>ip. prefix_of_mask (2 ^ 32 - 1 - ip) \<noteq> None)\<rparr>"

lemmas v4_eval = netaddr_v4_def v4_net_def parse_ipv4_def parse_octet_def parse_nat_def
  is_digit_def digit_val_def same_family_in_def

end
