(* ===== verification/CatalogDB.thy ===== *)
theory CatalogDB
  imports Constants Netaddr
begin

text \<open>
  The service catalog: the three tables of \<^verbatim>\<open>db/models.py\<close> with their constraints, and the CRUD
  operations of \<^verbatim>\<open>LocalServicesDbMixin\<close> in \<^verbatim>\<open>db/local_services_db.py\<close>. A table is the list of its
  rows. A writer transaction that raises is rolled back, so an operation that returns \<open>Inl\<close>
  leaves the database as it was. Flushing a session checks the declared constraints
  (primary key, UNIQUE with SQL's treatment of NULL, CHECK, ENUM, foreign keys); the row id
  (\<^verbatim>\<open>uuidutils.generate_uuid()\<close>) is a parameter. Column widths are not modelled.
\<close>

section \<open>Rows and dictionaries\<close>

record service =
  svc_id :: string
  svc_project_id :: "string option"
  svc_name :: string
  svc_description :: "string option"
  svc_local_ipv4 :: "string option"
  svc_local_ipv6 :: "string option"
  svc_protocol :: string
  svc_port :: int
  svc_attachment_policy :: string
  svc_distribution_policy :: string
  svc_exposure_plugin :: string
  svc_health_check_type :: string
  svc_health_check_config :: "string option"
  svc_enabled :: bool

record backend =
  be_id :: string
  be_service_id :: string
  be_name :: string
  be_availability_zone :: "string option"
  be_weight :: "int option"
  be_address :: string
  be_port :: int
  be_health_check_address :: "string option"
  be_health_check_port :: "int option"
  be_enabled :: bool

record binding =
  bi_id :: string
  bi_project_id :: "string option"
  bi_service_id :: string
  bi_network_id :: string
  bi_enabled :: bool

text \<open>
  Services, backends and bindings also travel as dictionaries (API answers, plugin inputs).
  A field is \<open>None\<close> when the key is missing or its value is \<^verbatim>\<open>None\<close>; for \<open>enabled\<close>, \<open>None\<close> is a
  missing key, whose default is \<^verbatim>\<open>True\<close> wherever it is read.
\<close>

record backend_dict =
  bd_id :: "string option"
  bd_service_id :: "string option"
  bd_name :: "string option"
  bd_availability_zone :: "string option"
  bd_weight :: "int option"
  bd_address :: "string option"
  bd_port :: "int option"
  bd_health_check_address :: "string option"
  bd_health_check_port :: "int option"
  bd_enabled :: "bool option"

record service_dict =
  sd_id :: "string option"
  sd_project_id :: "string option"
  sd_name :: "string option"
  sd_description :: "string option"
  sd_local_ipv4 :: "string option"
  sd_local_ipv6 :: "string option"
  sd_protocol :: "string option"
  sd_port :: "int option"
  sd_attachment_policy :: "string option"
  sd_distribution_policy :: "string option"
  sd_exposure_plugin :: "string option"
  sd_health_check_type :: "string option"
  sd_health_check_config :: "string option"
  sd_enabled :: "bool option"
  sd_backends :: "backend_dict list option"

record binding_dict =
  nd_id :: "string option"
  nd_project_id :: "string option"
  nd_service_id :: "string option"
  nd_network_id :: "string option"
  nd_enabled :: "bool option"

definition make_service_dict :: "service \<Rightarrow> service_dict" where
  "make_service_dict svc =
     \<lparr>sd_id = Some (svc_id svc), sd_project_id = svc_project_id svc, sd_name = Some (svc_name svc),
      sd_description = svc_description svc, sd_local_ipv4 = svc_local_ipv4 svc,
      sd_local_ipv6 = svc_local_ipv6 svc, sd_protocol = Some (svc_protocol svc),
      sd_port = Some (svc_port svc), sd_attachment_policy = Some (svc_attachment_policy svc),
      sd_distribution_policy = Some (svc_distribution_policy svc),
      sd_exposure_plugin = Some (svc_exposure_plugin svc),
      sd_health_check_type = Some (svc_health_check_type svc),
      sd_health_check_config = svc_health_check_config svc,
      sd_enabled = Some (svc_enabled svc), sd_backends = None\<rparr>"

definition make_backend_dict :: "backend \<Rightarrow> backend_dict" where
  "make_backend_dict b =
     \<lparr>bd_id = Some (be_id b), bd_service_id = Some (be_service_id b), bd_name = Some (be_name b),
      bd_availability_zone = be_availability_zone b, bd_weight = be_weight b,
      bd_address = Some (be_address b), bd_port = Some (be_port b),
      bd_health_check_address = be_health_check_address b,
      bd_health_check_port = be_health_check_port b, bd_enabled = Some (be_enabled b)\<rparr>"

definition make_binding_dict :: "binding \<Rightarrow> binding_dict" where
  "make_binding_dict s =
     \<lparr>nd_id = Some (bi_id s), nd_project_id = bi_project_id s,
      nd_service_id = Some (bi_service_id s), nd_network_id = Some (bi_network_id s),
      nd_enabled = Some (bi_enabled s)\<rparr>"

text \<open>\<open>db_networks\<close> holds the ids of Neutron's own \<^verbatim>\<open>networks\<close> table, which bindings refer to.\<close>

record db =
  db_services :: "service list"
  db_backends :: "backend list"
  db_bindings :: "binding list"
  db_networks :: "string list"

section \<open>VIP validation\<close>

record vip_conf =
  allowed_vip_cidrs :: "string list"
  vip_denylist :: "string list"

definition default_vip_conf :: vip_conf where
  "default_vip_conf = \<lparr>allowed_vip_cidrs = DEFAULT_ALLOWED_VIP_CIDRS, vip_denylist = DEFAULT_VIP_DENYLIST\<rparr>"

fun ip_in_any_cidr :: "('ip, 'net) netaddr \<Rightarrow> 'ip \<Rightarrow> string list \<Rightarrow> bool" where
  "ip_in_any_cidr na ip [] = False"
| "ip_in_any_cidr na ip (c # cidrs) =
     (case IPNetwork na c of
        None \<Rightarrow> ip_in_any_cidr na ip cidrs
      | Some net \<Rightarrow>
          if ip_version na ip \<noteq> net_version na net then ip_in_any_cidr na ip cidrs
          else if ip_in_net na ip net then True
          else ip_in_any_cidr na ip cidrs)"

definition validate_vip :: "('ip, 'net) netaddr \<Rightarrow> vip_conf \<Rightarrow> string option \<Rightarrow> exc + unit" where
  "validate_vip na conf addr =
     (case addr of
        None \<Rightarrow> Inr ()
      | Some a \<Rightarrow>
          (case IPAddress na a of
             None \<Rightarrow> Inl (InvalidInput (InvalidIP a))
           | Some ip \<Rightarrow>
               if ip_int na ip = 0 \<or> is_loopback na ip \<or> is_multicast na ip \<or> is_reserved na ip
                  \<or> is_netmask na ip \<or> is_hostmask na ip
               then Inl (InvalidInput (NotUnicast a))
               else if \<not> ip_in_any_cidr na ip (allowed_vip_cidrs conf)
               then Inl (InvalidInput (NotInAllowedCidrs a))
               else if ip_str na ip \<in> set (vip_denylist conf)
               then Inl (InvalidInput (InDenylist a))
               else Inr ()))"

definition validate_service_payload ::
    "('ip, 'net) netaddr \<Rightarrow> vip_conf \<Rightarrow> string option \<Rightarrow> string option \<Rightarrow> exc + unit" where
  "validate_service_payload na conf v4 v6 =
     (if \<not> truthy_str v4 \<and> \<not> truthy_str v6 then Inl (InvalidInput NoVip)
      else case validate_vip na conf v4 of
             Inl e \<Rightarrow> Inl e
           | Inr _ \<Rightarrow> validate_vip na conf v6)"

section \<open>Constraints checked at a flush\<close>

definition port_range :: "int \<Rightarrow> bool" where
  "port_range p = (p > 0 \<and> p \<le> 65535)"

text \<open>
  The widths of the string columns (the database is one that enforces them, as MySQL in strict mode and PostgreSQL do): the
  first column whose value is longer than the column is the one the error names. The columns of the mixins (\<^verbatim>\<open>id\<close>,
  \<^verbatim>\<open>project_id\<close>) are neutron_lib's, and \<^verbatim>\<open>sa.Text\<close> declares no width.
\<close>

definition too_long :: "(string \<times> nat \<times> string option) list \<Rightarrow> string option" where
  "too_long cols = map_option fst (find (\<lambda>(c, m, v). case v of None \<Rightarrow> False | Some s \<Rightarrow> m < length s) cols)"

definition service_columns :: "service \<Rightarrow> (string \<times> nat \<times> string option) list" where
  "service_columns svc =
     [(''name'', 64, Some (svc_name svc)), (''description'', 255, svc_description svc),
      (''local_ipv4'', 64, svc_local_ipv4 svc), (''local_ipv6'', 64, svc_local_ipv6 svc)]"

definition backend_columns :: "backend \<Rightarrow> (string \<times> nat \<times> string option) list" where
  "backend_columns b =
     [(''service_id'', 36, Some (be_service_id b)), (''name'', 64, Some (be_name b)),
      (''availability_zone'', 255, be_availability_zone b), (''address'', 64, Some (be_address b)),
      (''health_check_address'', 64, be_health_check_address b)]"

definition binding_columns :: "binding \<Rightarrow> (string \<times> nat \<times> string option) list" where
  "binding_columns s = [(''service_id'', 36, Some (bi_service_id s)), (''network_id'', 36, Some (bi_network_id s))]"

text \<open>
  The constraints of one row: the widths, and those against the other rows of its table (and the tables it refers
  to). The row may already be in the table under its own id.
\<close>

definition service_flush :: "db \<Rightarrow> service \<Rightarrow> exc + unit" where
  "service_flush d svc =
     (if too_long (service_columns svc) \<noteq> None
      then Inl (DBDataError (the (too_long (service_columns svc))))
      else if \<exists>r \<in> set (db_services d). svc_id r \<noteq> svc_id svc \<and> svc_project_id svc \<noteq> None
           \<and> svc_project_id r = svc_project_id svc \<and> svc_name r = svc_name svc
      then Inl (ConstraintViolation ''uniq_local_services_project_name'')
      else if \<not> port_range (svc_port svc)
      then Inl (ConstraintViolation ''ck_local_services_port_range'')
      else if svc_protocol svc \<notin> set PROTOCOLS
      then Inl (ConstraintViolation ''local_service_protocol'')
      else if svc_attachment_policy svc \<notin> set ATTACH_POLICIES
      then Inl (ConstraintViolation ''local_service_attachment_policy'')
      else if svc_distribution_policy svc \<notin> set DISTRIBUTION_POLICIES
      then Inl (ConstraintViolation ''local_service_distribution_policy'')
      else if svc_exposure_plugin svc \<notin> set EXPOSURE_PLUGINS
      then Inl (ConstraintViolation ''local_service_exposure_plugin'')
      else if svc_health_check_type svc \<notin> set HC_TYPES
      then Inl (ConstraintViolation ''local_service_hc_type'')
      else Inr ())"

definition backend_flush :: "db \<Rightarrow> backend \<Rightarrow> exc + unit" where
  "backend_flush d b =
     (if too_long (backend_columns b) \<noteq> None
      then Inl (DBDataError (the (too_long (backend_columns b))))
      else if \<exists>r \<in> set (db_backends d). be_id r \<noteq> be_id b \<and> be_service_id r = be_service_id b
           \<and> be_name r = be_name b
      then Inl (ConstraintViolation ''uniq_local_service_backends_svc_name'')
      else if \<not> port_range (be_port b)
      then Inl (ConstraintViolation ''ck_local_service_backends_port_range'')
      else Inr ())"

definition binding_flush :: "db \<Rightarrow> binding \<Rightarrow> exc + unit" where
  "binding_flush d s =
     (if too_long (binding_columns s) \<noteq> None
      then Inl (DBDataError (the (too_long (binding_columns s))))
      else if \<exists>r \<in> set (db_bindings d). bi_id r \<noteq> bi_id s \<and> bi_service_id r = bi_service_id s
           \<and> bi_network_id r = bi_network_id s
      then Inl (ConstraintViolation ''uniq_local_service_bindings_svc_net'')
      else if bi_network_id s \<notin> set (db_networks d)
      then Inl (ConstraintViolation ''networks.id'')
      else Inr ())"

section \<open>Lookups\<close>

definition find_row :: "('r \<Rightarrow> string) \<Rightarrow> 'r list \<Rightarrow> string \<Rightarrow> exc + 'r" where
  "find_row key rows i =
     (case find (\<lambda>r. key r = i) rows of None \<Rightarrow> Inl (ObjectNotFound i) | Some r \<Rightarrow> Inr r)"

definition get_service_or_raise :: "db \<Rightarrow> string \<Rightarrow> exc + service" where
  "get_service_or_raise d i = find_row svc_id (db_services d) i"

definition get_backend_or_raise :: "db \<Rightarrow> string \<Rightarrow> exc + backend" where
  "get_backend_or_raise d i = find_row be_id (db_backends d) i"

definition get_binding_or_raise :: "db \<Rightarrow> string \<Rightarrow> exc + binding" where
  "get_binding_or_raise d i = find_row bi_id (db_bindings d) i"

definition put_row :: "('r \<Rightarrow> string) \<Rightarrow> 'r \<Rightarrow> 'r list \<Rightarrow> 'r list" where
  "put_row key r rows = map (\<lambda>x. if key x = key r then r else x) rows"

text \<open>
  \<^verbatim>\<open>_collection_query\<close>: Neutron's \<^verbatim>\<open>query_with_hooks\<close> restricts a query to the projects the request's
  context may see. A context is modelled by that restriction, a predicate on the project id
  column; a model without that column (backends) is not restricted. Sorting, limit, marker
  and page direction are accepted and not used, as in the source.
\<close>

type_synonym ctx_scope = "string option \<Rightarrow> bool"

definition collection_query :: "ctx_scope \<Rightarrow> ('r \<Rightarrow> string option) option \<Rightarrow> ('r \<Rightarrow> bool) \<Rightarrow>
    (string \<times> bool) list \<Rightarrow> nat option \<Rightarrow> string option \<Rightarrow> bool \<Rightarrow> 'r list \<Rightarrow> 'r list" where
  "collection_query ctx project filters sorts limit marker_obj page_reverse rows =
     (let q = (case project of None \<Rightarrow> rows | Some p \<Rightarrow> filter (\<lambda>r. ctx (p r)) rows)
      in filter filters q)"

text \<open>A filter names the admitted values of a column; no entry admits every value.\<close>

definition among :: "'v list option \<Rightarrow> 'v \<Rightarrow> bool" where
  "among vs v = (case vs of None \<Rightarrow> True | Some xs \<Rightarrow> v \<in> set xs)"

record service_filter =
  sf_attachment_policy :: "string list option"
  sf_enabled :: "bool list option"

record backend_filter =
  bf_service_id :: "string list option"
  bf_enabled :: "bool list option"

record binding_filter =
  nf_service_id :: "string list option"
  nf_network_id :: "string list option"
  nf_enabled :: "bool list option"

definition get_local_service :: "db \<Rightarrow> string \<Rightarrow> exc + service_dict" where
  "get_local_service d i = map_sum id make_service_dict (get_service_or_raise d i)"

definition get_local_services :: "ctx_scope \<Rightarrow> service_filter \<Rightarrow> db \<Rightarrow> service_dict list" where
  "get_local_services ctx f d =
     map make_service_dict
       (collection_query ctx (Some svc_project_id)
          (\<lambda>s. among (sf_attachment_policy f) (svc_attachment_policy s)
               \<and> among (sf_enabled f) (svc_enabled s))
          [] None None False (db_services d))"

definition get_local_service_backend :: "db \<Rightarrow> string \<Rightarrow> exc + backend_dict" where
  "get_local_service_backend d i = map_sum id make_backend_dict (get_backend_or_raise d i)"

definition get_local_service_backends :: "ctx_scope \<Rightarrow> backend_filter \<Rightarrow> db \<Rightarrow> backend_dict list" where
  "get_local_service_backends ctx f d =
     map make_backend_dict
       (collection_query ctx None
          (\<lambda>b. among (bf_service_id f) (be_service_id b) \<and> among (bf_enabled f) (be_enabled b))
          [] None None False (db_backends d))"

definition get_local_service_binding :: "db \<Rightarrow> string \<Rightarrow> exc + binding_dict" where
  "get_local_service_binding d i = map_sum id make_binding_dict (get_binding_or_raise d i)"

definition get_local_service_bindings :: "ctx_scope \<Rightarrow> binding_filter \<Rightarrow> db \<Rightarrow> binding_dict list" where
  "get_local_service_bindings ctx f d =
     map make_binding_dict
       (collection_query ctx (Some bi_project_id)
          (\<lambda>s. among (nf_service_id f) (bi_service_id s) \<and> among (nf_network_id f) (bi_network_id s)
               \<and> among (nf_enabled f) (bi_enabled s))
          [] None None False (db_bindings d))"

section \<open>Writers\<close>

text \<open>
  Request bodies. In a create body a field is \<open>None\<close> when the key is missing. In an update body
  the outer option is the presence of the key; columns that may be NULL carry an option.
\<close>

record service_body =
  sb_project_id :: "string option"
  sb_name :: "string option"
  sb_description :: "string option"
  sb_local_ipv4 :: "string option"
  sb_local_ipv6 :: "string option"
  sb_protocol :: "string option"
  sb_port :: "int option"
  sb_attachment_policy :: "string option"
  sb_distribution_policy :: "string option"
  sb_exposure_plugin :: "string option"
  sb_health_check_type :: "string option"
  sb_health_check_config :: "string option"
  sb_enabled :: "bool option"

record service_patch =
  sp_name :: "string option"
  sp_description :: "string option option"
  sp_local_ipv4 :: "string option option"
  sp_local_ipv6 :: "string option option"
  sp_attachment_policy :: "string option"
  sp_distribution_policy :: "string option"
  sp_health_check_type :: "string option"
  sp_health_check_config :: "string option option"
  sp_enabled :: "bool option"

text \<open>The \<open>weight\<close> of a create body may be the sentinel \<^verbatim>\<open>ATTR_NOT_SPECIFIED\<close>.\<close>

datatype weight_attr = NotSpecified | Weight "int option"

record backend_body =
  bb_service_id :: "string option"
  bb_name :: "string option"
  bb_availability_zone :: "string option"
  bb_weight :: weight_attr
  bb_address :: "string option"
  bb_port :: "int option"
  bb_health_check_address :: "string option"
  bb_health_check_port :: "int option"
  bb_enabled :: "bool option"

record backend_patch =
  bp_name :: "string option"
  bp_availability_zone :: "string option option"
  bp_weight :: "int option option"
  bp_address :: "string option"
  bp_port :: "int option"
  bp_health_check_address :: "string option option"
  bp_health_check_port :: "int option option"
  bp_enabled :: "bool option"

record binding_body =
  nb_project_id :: "string option"
  nb_service_id :: "string option"
  nb_network_id :: "string option"
  nb_enabled :: "bool option"

text \<open>\<^verbatim>\<open>body[k]\<close> and \<^verbatim>\<open>body.get(k, default)\<close>, \<^verbatim>\<open>if key in body: setattr(...)\<close>.\<close>

definition item :: "string \<Rightarrow> 'v option \<Rightarrow> exc + 'v" where
  "item k v = (case v of None \<Rightarrow> Inl (KeyError k) | Some x \<Rightarrow> Inr x)"

definition get_default :: "'v option \<Rightarrow> 'v \<Rightarrow> 'v" where
  "get_default v d = (case v of None \<Rightarrow> d | Some x \<Rightarrow> x)"

definition set_if :: "'v option \<Rightarrow> 'v \<Rightarrow> 'v" where
  "set_if v old = (case v of None \<Rightarrow> old | Some x \<Rightarrow> x)"

definition new_service :: "string \<Rightarrow> service_body \<Rightarrow> string \<Rightarrow> string \<Rightarrow> int \<Rightarrow> service" where
  "new_service new_id body name protocol port =
     \<lparr>svc_id = new_id, svc_project_id = sb_project_id body, svc_name = name,
      svc_description = sb_description body, svc_local_ipv4 = sb_local_ipv4 body,
      svc_local_ipv6 = sb_local_ipv6 body, svc_protocol = protocol, svc_port = port,
      svc_attachment_policy = get_default (sb_attachment_policy body) ATTACH_OPT_IN,
      svc_distribution_policy = get_default (sb_distribution_policy body) DIST_ROUND_ROBIN,
      svc_exposure_plugin = get_default (sb_exposure_plugin body) EXPOSURE_NAT,
      svc_health_check_type = get_default (sb_health_check_type body) HC_NONE,
      svc_health_check_config = sb_health_check_config body,
      svc_enabled = get_default (sb_enabled body) True\<rparr>"

definition create_local_service ::
    "('ip, 'net) netaddr \<Rightarrow> vip_conf \<Rightarrow> string \<Rightarrow> service_body \<Rightarrow> (db, service_dict) act" where
  "create_local_service na conf new_id body d =
     (case validate_service_payload na conf (sb_local_ipv4 body) (sb_local_ipv6 body) of
        Inl e \<Rightarrow> (Inl e, d)
      | Inr _ \<Rightarrow>
          (case (item ''name'' (sb_name body), item ''protocol'' (sb_protocol body),
                 item ''port'' (sb_port body)) of
             (Inr name, Inr protocol, Inr port) \<Rightarrow>
               (let svc = new_service new_id body name protocol port
                in if new_id \<in> svc_id ` set (db_services d) then (Inl (ConstraintViolation ''PRIMARY''), d)
                   else case service_flush d svc of
                     Inl e \<Rightarrow> (Inl e, d)
                   | Inr _ \<Rightarrow> (Inr (make_service_dict svc), d\<lparr>db_services := db_services d @ [svc]\<rparr>))
           | (Inl e, _, _) \<Rightarrow> (Inl e, d)
           | (_, Inl e, _) \<Rightarrow> (Inl e, d)
           | (_, _, Inl e) \<Rightarrow> (Inl e, d)))"

definition patch_service :: "service_patch \<Rightarrow> service \<Rightarrow> service" where
  "patch_service body svc = svc
     \<lparr>svc_name := set_if (sp_name body) (svc_name svc),
      svc_description := set_if (sp_description body) (svc_description svc),
      svc_local_ipv4 := set_if (sp_local_ipv4 body) (svc_local_ipv4 svc),
      svc_local_ipv6 := set_if (sp_local_ipv6 body) (svc_local_ipv6 svc),
      svc_attachment_policy := set_if (sp_attachment_policy body) (svc_attachment_policy svc),
      svc_distribution_policy := set_if (sp_distribution_policy body) (svc_distribution_policy svc),
      svc_health_check_type := set_if (sp_health_check_type body) (svc_health_check_type svc),
      svc_health_check_config := set_if (sp_health_check_config body) (svc_health_check_config svc),
      svc_enabled := set_if (sp_enabled body) (svc_enabled svc)\<rparr>"

definition update_local_service ::
    "('ip, 'net) netaddr \<Rightarrow> vip_conf \<Rightarrow> string \<Rightarrow> service_patch \<Rightarrow> (db, service_dict) act" where
  "update_local_service na conf i body d =
     (case get_service_or_raise d i of
        Inl e \<Rightarrow> (Inl e, d)
      | Inr old \<Rightarrow>
          (let svc = patch_service body old;
               checked = (if sp_local_ipv4 body \<noteq> None \<or> sp_local_ipv6 body \<noteq> None
                          then validate_service_payload na conf (svc_local_ipv4 svc) (svc_local_ipv6 svc)
                          else Inr ())
           in case checked of
                Inl e \<Rightarrow> (Inl e, d)
              | Inr _ \<Rightarrow>
                  (case service_flush d svc of
                     Inl e \<Rightarrow> (Inl e, d)
                   | Inr _ \<Rightarrow> (Inr (make_service_dict svc),
                              d\<lparr>db_services := put_row svc_id svc (db_services d)\<rparr>))))"

text \<open>The ORM relationships delete a service's backends and bindings with it.\<close>

definition delete_local_service :: "string \<Rightarrow> (db, unit) act" where
  "delete_local_service i d =
     (case get_service_or_raise d i of
        Inl e \<Rightarrow> (Inl e, d)
      | Inr svc \<Rightarrow>
          (Inr (), d\<lparr>db_services := filter (\<lambda>r. svc_id r \<noteq> i) (db_services d),
                     db_backends := filter (\<lambda>r. be_service_id r \<noteq> i) (db_backends d),
                     db_bindings := filter (\<lambda>r. bi_service_id r \<noteq> i) (db_bindings d)\<rparr>))"

definition new_backend :: "string \<Rightarrow> backend_body \<Rightarrow> string \<Rightarrow> string \<Rightarrow> int option \<Rightarrow> string \<Rightarrow> int \<Rightarrow> backend" where
  "new_backend new_id body service_id name weight address port =
     \<lparr>be_id = new_id, be_service_id = service_id, be_name = name,
      be_availability_zone = bb_availability_zone body, be_weight = weight,
      be_address = address, be_port = port,
      be_health_check_address = bb_health_check_address body,
      be_health_check_port = bb_health_check_port body,
      be_enabled = get_default (bb_enabled body) True\<rparr>"

definition create_local_service_backend :: "string \<Rightarrow> backend_body \<Rightarrow> (db, backend_dict) act" where
  "create_local_service_backend new_id body d =
     (case item ''service_id'' (bb_service_id body) of
        Inl e \<Rightarrow> (Inl e, d)
      | Inr service_id \<Rightarrow>
     (case get_service_or_raise d service_id of
        Inl e \<Rightarrow> (Inl e, d)
      | Inr _ \<Rightarrow>
          (let weight = (case bb_weight body of NotSpecified \<Rightarrow> None | Weight w \<Rightarrow> w)
           in case (item ''name'' (bb_name body), item ''address'' (bb_address body),
                    item ''port'' (bb_port body)) of
             (Inr name, Inr address, Inr port) \<Rightarrow>
               (let b = new_backend new_id body service_id name weight address port
                in if new_id \<in> be_id ` set (db_backends d) then (Inl (ConstraintViolation ''PRIMARY''), d)
                   else case backend_flush d b of
                     Inl e \<Rightarrow> (Inl e, d)
                   | Inr _ \<Rightarrow> (Inr (make_backend_dict b), d\<lparr>db_backends := db_backends d @ [b]\<rparr>))
           | (Inl e, _, _) \<Rightarrow> (Inl e, d)
           | (_, Inl e, _) \<Rightarrow> (Inl e, d)
           | (_, _, Inl e) \<Rightarrow> (Inl e, d))))"

definition patch_backend :: "backend_patch \<Rightarrow> backend \<Rightarrow> backend" where
  "patch_backend body b = b
     \<lparr>be_name := set_if (bp_name body) (be_name b),
      be_availability_zone := set_if (bp_availability_zone body) (be_availability_zone b),
      be_weight := set_if (bp_weight body) (be_weight b),
      be_address := set_if (bp_address body) (be_address b),
      be_port := set_if (bp_port body) (be_port b),
      be_health_check_address := set_if (bp_health_check_address body) (be_health_check_address b),
      be_health_check_port := set_if (bp_health_check_port body) (be_health_check_port b),
      be_enabled := set_if (bp_enabled body) (be_enabled b)\<rparr>"

definition update_local_service_backend :: "string \<Rightarrow> backend_patch \<Rightarrow> (db, backend_dict) act" where
  "update_local_service_backend i body d =
     (case get_backend_or_raise d i of
        Inl e \<Rightarrow> (Inl e, d)
      | Inr old \<Rightarrow>
          (let b = patch_backend body old
           in case backend_flush d b of
                Inl e \<Rightarrow> (Inl e, d)
              | Inr _ \<Rightarrow> (Inr (make_backend_dict b), d\<lparr>db_backends := put_row be_id b (db_backends d)\<rparr>)))"

definition delete_local_service_backend :: "string \<Rightarrow> (db, unit) act" where
  "delete_local_service_backend i d =
     (case get_backend_or_raise d i of
        Inl e \<Rightarrow> (Inl e, d)
      | Inr b \<Rightarrow> (Inr (), d\<lparr>db_backends := filter (\<lambda>r. be_id r \<noteq> i) (db_backends d)\<rparr>))"

definition new_binding :: "string \<Rightarrow> binding_body \<Rightarrow> string \<Rightarrow> string \<Rightarrow> binding" where
  "new_binding new_id body service_id network_id =
     \<lparr>bi_id = new_id, bi_project_id = nb_project_id body, bi_service_id = service_id,
      bi_network_id = network_id, bi_enabled = get_default (nb_enabled body) True\<rparr>"

definition create_binding_row :: "string \<Rightarrow> binding_body \<Rightarrow> (db, binding_dict) act" where
  "create_binding_row new_id body d =
     (case item ''service_id'' (nb_service_id body) of
        Inl e \<Rightarrow> (Inl e, d)
      | Inr service_id \<Rightarrow>
     (case get_service_or_raise d service_id of
        Inl e \<Rightarrow> (Inl e, d)
      | Inr _ \<Rightarrow>
     (case item ''network_id'' (nb_network_id body) of
        Inl e \<Rightarrow> (Inl e, d)
      | Inr network_id \<Rightarrow>
          (let s = new_binding new_id body service_id network_id
           in if new_id \<in> bi_id ` set (db_bindings d) then (Inl (ConstraintViolation ''PRIMARY''), d)
              else case binding_flush d s of
                Inl e \<Rightarrow> (Inl e, d)
              | Inr _ \<Rightarrow> (Inr (make_binding_dict s), d\<lparr>db_bindings := db_bindings d @ [s]\<rparr>)))))"

text \<open>The body of a binding update: only \<open>enabled\<close>, when its key is present.\<close>

definition update_binding_row :: "string \<Rightarrow> bool option \<Rightarrow> (db, binding_dict) act" where
  "update_binding_row i enabled d =
     (case get_binding_or_raise d i of
        Inl e \<Rightarrow> (Inl e, d)
      | Inr old \<Rightarrow>
          (let s = old\<lparr>bi_enabled := set_if enabled (bi_enabled old)\<rparr>
           in (Inr (make_binding_dict s), d\<lparr>db_bindings := put_row bi_id s (db_bindings d)\<rparr>)))"

definition delete_binding_row :: "string \<Rightarrow> (db, unit) act" where
  "delete_binding_row i d =
     (case get_binding_or_raise d i of
        Inl e \<Rightarrow> (Inl e, d)
      | Inr s \<Rightarrow> (Inr (), d\<lparr>db_bindings := filter (\<lambda>r. bi_id r \<noteq> i) (db_bindings d)\<rparr>))"

text \<open>Neutron deletes a network: the foreign key of the bindings table cascades.\<close>

definition network_deleted :: "string \<Rightarrow> db \<Rightarrow> db" where
  "network_deleted n d =
     d\<lparr>db_networks := filter (\<lambda>m. m \<noteq> n) (db_networks d),
       db_bindings := filter (\<lambda>r. bi_network_id r \<noteq> n) (db_bindings d)\<rparr>"

end
