(* ===== verification/CatalogInv.thy ===== *)
theory CatalogInv
  imports CatalogDB
begin

text \<open>
  The invariants of the catalog database and that every operation keeps them: distinct ids,
  the UNIQUE constraints, row checks, referential integrity, and that every stored VIP passed
  the validation. \<open>row_access\<close> is the contract of the three \<^verbatim>\<open>_get_..._or_raise\<close> lookups,
  interpreted on each table.
\<close>

section \<open>Tables with a key and a UNIQUE constraint\<close>

definition uniq :: "('r \<Rightarrow> string) \<Rightarrow> ('r \<Rightarrow> 'k option) \<Rightarrow> 'r set \<Rightarrow> bool" where
  "uniq key alt S \<longleftrightarrow> (\<forall>r \<in> S. \<forall>s \<in> S. alt r \<noteq> None \<and> alt r = alt s \<longrightarrow> key r = key s)"

definition table_wf :: "('r \<Rightarrow> string) \<Rightarrow> ('r \<Rightarrow> 'k option) \<Rightarrow> ('r \<Rightarrow> bool) \<Rightarrow> 'r list \<Rightarrow> bool" where
  "table_wf key alt ok rows \<longleftrightarrow>
     distinct (map key rows) \<and> uniq key alt (set rows) \<and> (\<forall>r \<in> set rows. ok r)"

lemma put_row_keys [simp]: "map key (put_row key r rows) = map key rows"
  by (simp add: put_row_def)

lemma set_put_row: "set (put_row key r rows) \<subseteq> insert r {x \<in> set rows. key x \<noteq> key r}"
  by (auto simp: put_row_def split: if_splits)

lemma uniq_mono: "uniq key alt S \<Longrightarrow> T \<subseteq> S \<Longrightarrow> uniq key alt T"
  by (auto simp: uniq_def)

lemma uniq_insert:
  assumes "uniq key alt S" and "\<And>r. r \<in> S \<Longrightarrow> key r \<noteq> key x \<Longrightarrow> alt x \<noteq> None \<Longrightarrow> alt r \<noteq> alt x"
  shows "uniq key alt (insert x {r \<in> S. key r \<noteq> key x})"
  using assms unfolding uniq_def by (metis (mono_tags, lifting) insert_iff mem_Collect_eq)

lemma table_wf_filter: "table_wf key alt ok rows \<Longrightarrow> table_wf key alt ok (filter P rows)"
  unfolding table_wf_def using uniq_mono[of key alt "set rows" "set (filter P rows)"]
  by (auto simp: distinct_map_filter)

lemma table_wf_put:
  assumes "table_wf key alt ok rows" and "ok x"
    and "\<And>r. r \<in> set rows \<Longrightarrow> key r \<noteq> key x \<Longrightarrow> alt x \<noteq> None \<Longrightarrow> alt r \<noteq> alt x"
  shows "table_wf key alt ok (put_row key x rows)"
  using assms set_put_row[of key x rows] uniq_mono[OF uniq_insert, of key alt "set rows" x]
  unfolding table_wf_def by auto

lemma table_wf_append:
  assumes "table_wf key alt ok rows" and "ok x" and "key x \<notin> key ` set rows"
    and "\<And>r. r \<in> set rows \<Longrightarrow> key r \<noteq> key x \<Longrightarrow> alt x \<noteq> None \<Longrightarrow> alt r \<noteq> alt x"
  shows "table_wf key alt ok (rows @ [x])"
proof -
  have "set (rows @ [x]) = insert x {r \<in> set rows. key r \<noteq> key x}"
    using assms(3) by (auto simp: image_iff)
  moreover have "uniq key alt (insert x {r \<in> set rows. key r \<noteq> key x})"
    using assms(1,4) by (intro uniq_insert) (auto simp: table_wf_def)
  ultimately have "uniq key alt (set (rows @ [x]))" by simp
  then show ?thesis using assms unfolding table_wf_def by auto
qed

section \<open>Lookup by id\<close>

locale row_access =
  fixes rows :: "'d \<Rightarrow> 'r list"
    and key :: "'r \<Rightarrow> string"
    and fetch :: "'d \<Rightarrow> string \<Rightarrow> exc + 'r"
    and wf :: "'d \<Rightarrow> bool"
  assumes fetch_eq: "fetch d i = find_row key (rows d) i"
    and wf_keys: "wf d \<Longrightarrow> distinct (map key (rows d))"
begin

lemma fetch_found: "fetch d i = Inr r \<Longrightarrow> r \<in> set (rows d) \<and> key r = i"
  by (auto simp: fetch_eq find_row_def find_Some_iff split: option.splits)

lemma fetch_missing: "fetch d i = Inl e \<longleftrightarrow> e = ObjectNotFound i \<and> i \<notin> key ` set (rows d)"
  by (auto simp: fetch_eq find_row_def find_None_iff find_Some_iff split: option.splits)

lemma fetch_iff:
  assumes "wf d"
  shows "fetch d i = Inr r \<longleftrightarrow> r \<in> set (rows d) \<and> key r = i"
proof
  assume r: "r \<in> set (rows d) \<and> key r = i"
  obtain r' where r': "fetch d i = Inr r'"
    using r fetch_missing[of d i] by (cases "fetch d i") auto
  have "inj_on key (set (rows d))" using wf_keys[OF assms] by (simp add: distinct_map)
  then have "r' = r" using r fetch_found[OF r'] by (auto simp: inj_on_def)
  then show "fetch d i = Inr r" using r' by simp
qed (simp add: fetch_found)

end

section \<open>The invariant\<close>

definition service_alt :: "service \<Rightarrow> (string \<times> string) option" where
  "service_alt s = map_option (\<lambda>p. (p, svc_name s)) (svc_project_id s)"

definition backend_alt :: "backend \<Rightarrow> (string \<times> string) option" where
  "backend_alt b = Some (be_service_id b, be_name b)"

definition binding_alt :: "binding \<Rightarrow> (string \<times> string) option" where
  "binding_alt s = Some (bi_service_id s, bi_network_id s)"

definition service_row_ok :: "service \<Rightarrow> bool" where
  "service_row_ok s \<longleftrightarrow> port_range (svc_port s) \<and> svc_protocol s \<in> set PROTOCOLS
     \<and> svc_attachment_policy s \<in> set ATTACH_POLICIES
     \<and> svc_distribution_policy s \<in> set DISTRIBUTION_POLICIES
     \<and> svc_exposure_plugin s \<in> set EXPOSURE_PLUGINS \<and> svc_health_check_type s \<in> set HC_TYPES"

definition db_wf :: "db \<Rightarrow> bool" where
  "db_wf d \<longleftrightarrow>
     table_wf svc_id service_alt service_row_ok (db_services d)
     \<and> table_wf be_id backend_alt
         (\<lambda>b. port_range (be_port b) \<and> be_service_id b \<in> svc_id ` set (db_services d)) (db_backends d)
     \<and> table_wf bi_id binding_alt
         (\<lambda>s. bi_service_id s \<in> svc_id ` set (db_services d) \<and> bi_network_id s \<in> set (db_networks d))
         (db_bindings d)"

text \<open>Every stored VIP passed the validation, and every service has one.\<close>

definition vips_ok :: "('ip, 'net) netaddr \<Rightarrow> vip_conf \<Rightarrow> db \<Rightarrow> bool" where
  "vips_ok na conf d \<longleftrightarrow> (\<forall>s \<in> set (db_services d).
     validate_service_payload na conf (svc_local_ipv4 s) (svc_local_ipv6 s) = Inr ())"

interpretation svcs: row_access db_services svc_id get_service_or_raise db_wf
  by unfold_locales (simp_all add: get_service_or_raise_def db_wf_def table_wf_def)

interpretation bends: row_access db_backends be_id get_backend_or_raise db_wf
  by unfold_locales (simp_all add: get_backend_or_raise_def db_wf_def table_wf_def)

interpretation binds: row_access db_bindings bi_id get_binding_or_raise db_wf
  by unfold_locales (simp_all add: get_binding_or_raise_def db_wf_def table_wf_def)

section \<open>Operations keep it\<close>

lemma service_flush_ok:
  assumes "service_flush d svc = Inr ()"
  shows "service_row_ok svc"
    and "\<And>r. r \<in> set (db_services d) \<Longrightarrow> svc_id r \<noteq> svc_id svc \<Longrightarrow> service_alt svc \<noteq> None \<Longrightarrow>
           service_alt r \<noteq> service_alt svc"
  using assms by (auto simp: service_flush_def service_row_ok_def service_alt_def split: if_splits)

lemma backend_flush_ok:
  assumes "backend_flush d b = Inr ()"
  shows "port_range (be_port b)"
    and "\<And>r. r \<in> set (db_backends d) \<Longrightarrow> be_id r \<noteq> be_id b \<Longrightarrow> backend_alt r \<noteq> backend_alt b"
  using assms by (auto simp: backend_flush_def backend_alt_def split: if_splits)

lemma binding_flush_ok:
  assumes "binding_flush d s = Inr ()"
  shows "bi_network_id s \<in> set (db_networks d)"
    and "\<And>r. r \<in> set (db_bindings d) \<Longrightarrow> bi_id r \<noteq> bi_id s \<Longrightarrow> binding_alt r \<noteq> binding_alt s"
  using assms by (auto simp: binding_flush_def binding_alt_def split: if_splits)

lemma new_row_sel [simp]:
  "svc_id (new_service i b n p q) = i" "svc_local_ipv4 (new_service i b n p q) = sb_local_ipv4 b"
  "svc_local_ipv6 (new_service i b n p q) = sb_local_ipv6 b"
  "be_id (new_backend i bb s nm w a q) = i" "be_service_id (new_backend i bb s nm w a q) = s"
  "bi_id (new_binding i nb s n') = i" "bi_service_id (new_binding i nb s n') = s"
  "bi_network_id (new_binding i nb s n') = n'"
  "bi_enabled (new_binding i nb s n') = get_default (nb_enabled nb) True"
  by (simp_all add: new_service_def new_backend_def new_binding_def)

lemma patch_service_frame [simp]:
  "svc_id (patch_service b s) = svc_id s" "svc_project_id (patch_service b s) = svc_project_id s"
  "svc_protocol (patch_service b s) = svc_protocol s" "svc_port (patch_service b s) = svc_port s"
  "svc_exposure_plugin (patch_service b s) = svc_exposure_plugin s"
  by (simp_all add: patch_service_def)

lemma patch_backend_frame [simp]:
  "be_id (patch_backend p b) = be_id b" "be_service_id (patch_backend p b) = be_service_id b"
  by (simp_all add: patch_backend_def)

text \<open>What a returning writer did to the tables.\<close>

lemma create_service_run:
  assumes "create_local_service na conf i body d = (Inr r, d')"
  obtains svc where "svc_id svc = i" "i \<notin> svc_id ` set (db_services d)" "service_flush d svc = Inr ()"
    "validate_service_payload na conf (svc_local_ipv4 svc) (svc_local_ipv6 svc) = Inr ()"
    "r = make_service_dict svc" "d' = d\<lparr>db_services := db_services d @ [svc]\<rparr>"
  by (rule that[of "new_service i body (the (sb_name body)) (the (sb_protocol body)) (the (sb_port body))"])
    (use assms in \<open>auto simp: create_local_service_def item_def Let_def split: sum.splits if_splits
      option.splits\<close>)

lemma update_service_run:
  assumes "update_local_service na conf i body d = (Inr r, d')"
  obtains old where "old \<in> set (db_services d)" "svc_id old = i"
    "service_flush d (patch_service body old) = Inr ()"
    "sp_local_ipv4 body \<noteq> None \<or> sp_local_ipv6 body \<noteq> None \<Longrightarrow>
       validate_service_payload na conf (svc_local_ipv4 (patch_service body old))
         (svc_local_ipv6 (patch_service body old)) = Inr ()"
    "r = make_service_dict (patch_service body old)"
    "d' = d\<lparr>db_services := put_row svc_id (patch_service body old) (db_services d)\<rparr>"
  using assms
  by (fastforce simp: update_local_service_def Let_def split: sum.splits if_splits
      dest: svcs.fetch_found)

lemma create_backend_run:
  assumes "create_local_service_backend i body d = (Inr r, d')"
  obtains b where "be_id b = i" "i \<notin> be_id ` set (db_backends d)" "backend_flush d b = Inr ()"
    "be_service_id b \<in> svc_id ` set (db_services d)" "r = make_backend_dict b"
    "d' = d\<lparr>db_backends := db_backends d @ [b]\<rparr>"
  by (rule that[of "new_backend i body (the (bb_service_id body)) (the (bb_name body))
        (case bb_weight body of NotSpecified \<Rightarrow> None | Weight w \<Rightarrow> w) (the (bb_address body)) (the (bb_port body))"])
    (use assms in \<open>auto simp: create_local_service_backend_def item_def Let_def
      split: sum.splits if_splits option.splits dest!: svcs.fetch_found\<close>)

lemma update_backend_run:
  assumes "update_local_service_backend i body d = (Inr r, d')"
  obtains old where "old \<in> set (db_backends d)" "be_id old = i"
    "backend_flush d (patch_backend body old) = Inr ()" "r = make_backend_dict (patch_backend body old)"
    "d' = d\<lparr>db_backends := put_row be_id (patch_backend body old) (db_backends d)\<rparr>"
  using assms
  by (fastforce simp: update_local_service_backend_def Let_def split: sum.splits dest: bends.fetch_found)

lemma create_binding_run:
  assumes "create_binding_row i body d = (Inr r, d')"
  obtains s where "bi_id s = i" "i \<notin> bi_id ` set (db_bindings d)" "binding_flush d s = Inr ()"
    "bi_service_id s \<in> svc_id ` set (db_services d)"
    "nb_service_id body = Some (bi_service_id s)" "nb_network_id body = Some (bi_network_id s)"
    "bi_enabled s = get_default (nb_enabled body) True" "r = make_binding_dict s"
    "d' = d\<lparr>db_bindings := db_bindings d @ [s]\<rparr>"
  by (rule that[of "new_binding i body (the (nb_service_id body)) (the (nb_network_id body))"])
    (use assms in \<open>auto simp: create_binding_row_def item_def Let_def split: sum.splits if_splits
      option.splits dest!: svcs.fetch_found\<close>)

lemma update_binding_run:
  assumes "update_binding_row i enabled d = (Inr r, d')"
  obtains old where "old \<in> set (db_bindings d)" "bi_id old = i"
    "r = make_binding_dict (old\<lparr>bi_enabled := set_if enabled (bi_enabled old)\<rparr>)"
    "d' = d\<lparr>db_bindings := put_row bi_id (old\<lparr>bi_enabled := set_if enabled (bi_enabled old)\<rparr>) (db_bindings d)\<rparr>"
  using assms
  by (fastforce simp: update_binding_row_def Let_def split: sum.splits dest: binds.fetch_found)

section \<open>Any sequence of operations\<close>

datatype db_op =
    CreateService string service_body
  | UpdateService string service_patch
  | DeleteService string
  | CreateBackend string backend_body
  | UpdateBackend string backend_patch
  | DeleteBackend string
  | CreateBinding string binding_body
  | UpdateBinding string "bool option"
  | DeleteBinding string
  | NetworkCreated string
  | NetworkDeleted string

fun db_step :: "('ip, 'net) netaddr \<Rightarrow> vip_conf \<Rightarrow> db_op \<Rightarrow> db \<Rightarrow> db" where
  "db_step na conf (CreateService i b) d = snd (create_local_service na conf i b d)"
| "db_step na conf (UpdateService i p) d = snd (update_local_service na conf i p d)"
| "db_step na conf (DeleteService i) d = snd (delete_local_service i d)"
| "db_step na conf (CreateBackend i b) d = snd (create_local_service_backend i b d)"
| "db_step na conf (UpdateBackend i p) d = snd (update_local_service_backend i p d)"
| "db_step na conf (DeleteBackend i) d = snd (delete_local_service_backend i d)"
| "db_step na conf (CreateBinding i b) d = snd (create_binding_row i b d)"
| "db_step na conf (UpdateBinding i e) d = snd (update_binding_row i e d)"
| "db_step na conf (DeleteBinding i) d = snd (delete_binding_row i d)"
| "db_step na conf (NetworkCreated n) d = d\<lparr>db_networks := db_networks d @ [n]\<rparr>"
| "db_step na conf (NetworkDeleted n) d = network_deleted n d"

definition empty_db :: db where
  "empty_db = \<lparr>db_services = [], db_backends = [], db_bindings = [], db_networks = []\<rparr>"

text \<open>A writer that raises leaves the database as it was.\<close>

lemma raised_no_trace:
  "create_local_service na conf i sb d = (Inl e, d') \<Longrightarrow> d' = d"
  "update_local_service na conf i sp d = (Inl e, d') \<Longrightarrow> d' = d"
  "delete_local_service i d = (Inl e, d') \<Longrightarrow> d' = d"
  "create_local_service_backend i bb d = (Inl e, d') \<Longrightarrow> d' = d"
  "update_local_service_backend i bp d = (Inl e, d') \<Longrightarrow> d' = d"
  "delete_local_service_backend i d = (Inl e, d') \<Longrightarrow> d' = d"
  "create_binding_row i nb d = (Inl e, d') \<Longrightarrow> d' = d"
  "update_binding_row i en d = (Inl e, d') \<Longrightarrow> d' = d"
  "delete_binding_row i d = (Inl e, d') \<Longrightarrow> d' = d"
  by (auto simp: create_local_service_def update_local_service_def delete_local_service_def
      create_local_service_backend_def update_local_service_backend_def
      delete_local_service_backend_def create_binding_row_def update_binding_row_def
      delete_binding_row_def Let_def split: sum.splits if_splits)

lemma snd_cases:
  assumes "\<And>r d'. f d = (Inr r, d') \<Longrightarrow> P d'" and "\<And>e d'. f d = (Inl e, d') \<Longrightarrow> d' = d" and "P d"
  shows "P (snd (f d))"
  using assms by (cases "f d"; cases "fst (f d)") auto

lemma keep_create_service: "db_wf d \<Longrightarrow> db_wf (snd (create_local_service na conf i b d))"
proof (rule snd_cases)
  fix r d' assume wf: "db_wf d" and run: "create_local_service na conf i b d = (Inr r, d')"
  obtain svc where svc: "svc_id svc = i" "i \<notin> svc_id ` set (db_services d)"
      "service_flush d svc = Inr ()" "d' = d\<lparr>db_services := db_services d @ [svc]\<rparr>"
    by (rule create_service_run[OF run]) (rule that)
  have "table_wf svc_id service_alt service_row_ok (db_services d @ [svc])"
    using wf svc(1,2) service_flush_ok[OF svc(3)] by (intro table_wf_append) (auto simp: db_wf_def)
  then show "db_wf d'" using wf svc(4) by (auto simp: db_wf_def table_wf_def)
qed (auto dest: raised_no_trace)

lemma keep_update_service: "db_wf d \<Longrightarrow> db_wf (snd (update_local_service na conf i p d))"
proof (rule snd_cases)
  fix r d' assume wf: "db_wf d" and run: "update_local_service na conf i p d = (Inr r, d')"
  obtain old where old: "service_flush d (patch_service p old) = Inr ()"
      "d' = d\<lparr>db_services := put_row svc_id (patch_service p old) (db_services d)\<rparr>"
    by (rule update_service_run[OF run]) (rule that)
  have "table_wf svc_id service_alt service_row_ok (put_row svc_id (patch_service p old) (db_services d))"
    using wf service_flush_ok[OF old(1)] by (intro table_wf_put) (auto simp: db_wf_def)
  moreover have "svc_id ` set (put_row svc_id (patch_service p old) (db_services d)) = svc_id ` set (db_services d)"
    by (metis list.set_map put_row_keys)
  ultimately show "db_wf d'" using wf old(2) by (simp add: db_wf_def)
qed (auto dest: raised_no_trace)

lemma keep_delete_service: "db_wf d \<Longrightarrow> db_wf (snd (delete_local_service i d))"
  by (auto simp: delete_local_service_def db_wf_def table_wf_def image_iff distinct_map_filter
      intro: uniq_mono split: sum.splits)

lemma keep_create_backend: "db_wf d \<Longrightarrow> db_wf (snd (create_local_service_backend i b d))"
proof (rule snd_cases)
  fix r d' assume wf: "db_wf d" and run: "create_local_service_backend i b d = (Inr r, d')"
  obtain x where x: "be_id x = i" "i \<notin> be_id ` set (db_backends d)" "backend_flush d x = Inr ()"
      "be_service_id x \<in> svc_id ` set (db_services d)" "d' = d\<lparr>db_backends := db_backends d @ [x]\<rparr>"
    by (rule create_backend_run[OF run]) (rule that)
  have "table_wf be_id backend_alt (\<lambda>b. port_range (be_port b) \<and> be_service_id b \<in> svc_id ` set (db_services d))
      (db_backends d @ [x])"
    using wf x(1,2,4) backend_flush_ok[OF x(3)] by (intro table_wf_append) (auto simp: db_wf_def)
  then show "db_wf d'" using wf x(5) by (simp add: db_wf_def)
qed (auto dest: raised_no_trace)

lemma keep_update_backend: "db_wf d \<Longrightarrow> db_wf (snd (update_local_service_backend i p d))"
proof (rule snd_cases)
  fix r d' assume wf: "db_wf d" and run: "update_local_service_backend i p d = (Inr r, d')"
  obtain old where old: "old \<in> set (db_backends d)" "backend_flush d (patch_backend p old) = Inr ()"
      "d' = d\<lparr>db_backends := put_row be_id (patch_backend p old) (db_backends d)\<rparr>"
    by (rule update_backend_run[OF run]) (rule that)
  have "be_service_id old \<in> svc_id ` set (db_services d)"
    using wf old(1) by (auto simp: db_wf_def table_wf_def)
  then have "table_wf be_id backend_alt
      (\<lambda>b. port_range (be_port b) \<and> be_service_id b \<in> svc_id ` set (db_services d))
      (put_row be_id (patch_backend p old) (db_backends d))"
    using wf backend_flush_ok[OF old(2)] by (intro table_wf_put) (auto simp: db_wf_def)
  then show "db_wf d'" using wf old(3) by (simp add: db_wf_def)
qed (auto dest: raised_no_trace)

lemma keep_delete_backend: "db_wf d \<Longrightarrow> db_wf (snd (delete_local_service_backend i d))"
  by (auto simp: delete_local_service_backend_def db_wf_def table_wf_filter split: sum.splits)

lemma keep_create_binding: "db_wf d \<Longrightarrow> db_wf (snd (create_binding_row i b d))"
proof (rule snd_cases)
  fix r d' assume wf: "db_wf d" and run: "create_binding_row i b d = (Inr r, d')"
  obtain s where s: "bi_id s = i" "i \<notin> bi_id ` set (db_bindings d)" "binding_flush d s = Inr ()"
      "bi_service_id s \<in> svc_id ` set (db_services d)" "d' = d\<lparr>db_bindings := db_bindings d @ [s]\<rparr>"
    by (rule create_binding_run[OF run]) (rule that)
  have "table_wf bi_id binding_alt
      (\<lambda>s. bi_service_id s \<in> svc_id ` set (db_services d) \<and> bi_network_id s \<in> set (db_networks d))
      (db_bindings d @ [s])"
    using wf s(1,2,4) binding_flush_ok[OF s(3)] by (intro table_wf_append) (auto simp: db_wf_def)
  then show "db_wf d'" using wf s(5) by (simp add: db_wf_def)
qed (auto dest: raised_no_trace)

lemma keep_update_binding: "db_wf d \<Longrightarrow> db_wf (snd (update_binding_row i e d))"
proof (rule snd_cases)
  fix r d' assume wf: "db_wf d" and run: "update_binding_row i e d = (Inr r, d')"
  obtain old where old: "old \<in> set (db_bindings d)"
      "d' = d\<lparr>db_bindings := put_row bi_id (old\<lparr>bi_enabled := set_if e (bi_enabled old)\<rparr>) (db_bindings d)\<rparr>"
    by (rule update_binding_run[OF run]) (rule that)
  let ?s = "old\<lparr>bi_enabled := set_if e (bi_enabled old)\<rparr>"
  have tab: "table_wf bi_id binding_alt
      (\<lambda>s. bi_service_id s \<in> svc_id ` set (db_services d) \<and> bi_network_id s \<in> set (db_networks d))
      (db_bindings d)" using wf by (simp add: db_wf_def)
  have "binding_alt r \<noteq> binding_alt ?s" if "r \<in> set (db_bindings d)" "bi_id r \<noteq> bi_id ?s" for r
  proof
    assume eq: "binding_alt r = binding_alt ?s"
    have u: "uniq bi_id binding_alt (set (db_bindings d))" using tab by (simp add: table_wf_def)
    have "binding_alt r = binding_alt old" "binding_alt r \<noteq> None"
      using eq by (simp_all add: binding_alt_def)
    then have "bi_id r = bi_id old" using u that(1) old(1) unfolding uniq_def by blast
    then show False using that(2) by simp
  qed
  then have "table_wf bi_id binding_alt
      (\<lambda>s. bi_service_id s \<in> svc_id ` set (db_services d) \<and> bi_network_id s \<in> set (db_networks d))
      (put_row bi_id ?s (db_bindings d))"
    using tab old(1) by (intro table_wf_put) (auto simp: table_wf_def)
  then show "db_wf d'" using wf old(2) by (simp add: db_wf_def)
qed (auto dest: raised_no_trace)

lemma keep_delete_binding: "db_wf d \<Longrightarrow> db_wf (snd (delete_binding_row i d))"
  by (auto simp: delete_binding_row_def db_wf_def table_wf_filter split: sum.splits)

lemma keep_network_deleted: "db_wf d \<Longrightarrow> db_wf (network_deleted n d)"
  by (auto simp: network_deleted_def db_wf_def table_wf_def distinct_map_filter intro: uniq_mono)

lemmas db_wf_keep = keep_create_service keep_update_service keep_delete_service
  keep_create_backend keep_update_backend keep_delete_backend keep_create_binding
  keep_update_binding keep_delete_binding keep_network_deleted

lemma db_step_wf: "db_wf d \<Longrightarrow> db_wf (db_step na conf op d)"
proof (cases op)
  case (NetworkCreated n)
  assume "db_wf d"
  then show ?thesis by (auto simp: NetworkCreated db_wf_def table_wf_def)
qed (simp_all add: db_wf_keep)

lemma vips_ok_create: "vips_ok na conf d \<Longrightarrow> vips_ok na conf (snd (create_local_service na conf i b d))"
  by (rule snd_cases) (auto simp: vips_ok_def elim!: create_service_run dest: raised_no_trace)

lemma vips_ok_update: "vips_ok na conf d \<Longrightarrow> vips_ok na conf (snd (update_local_service na conf i p d))"
proof (rule snd_cases)
  fix r d' assume ok: "vips_ok na conf d" and run: "update_local_service na conf i p d = (Inr r, d')"
  obtain old where old: "old \<in> set (db_services d)"
      "sp_local_ipv4 p \<noteq> None \<or> sp_local_ipv6 p \<noteq> None \<Longrightarrow>
       validate_service_payload na conf (svc_local_ipv4 (patch_service p old))
         (svc_local_ipv6 (patch_service p old)) = Inr ()"
      "d' = d\<lparr>db_services := put_row svc_id (patch_service p old) (db_services d)\<rparr>"
    by (rule update_service_run[OF run]) (rule that)
  have "validate_service_payload na conf (svc_local_ipv4 (patch_service p old))
      (svc_local_ipv6 (patch_service p old)) = Inr ()"
    using old(1,2) ok
    by (cases "sp_local_ipv4 p \<noteq> None \<or> sp_local_ipv6 p \<noteq> None")
      (auto simp: vips_ok_def patch_service_def set_if_def)
  then show "vips_ok na conf d'"
    using ok set_put_row[of svc_id "patch_service p old" "db_services d"] by (auto simp: vips_ok_def old(3))
qed (auto dest: raised_no_trace)

lemma services_frame:
  "db_services (snd (create_local_service_backend i bb d)) = db_services d"
  "db_services (snd (update_local_service_backend i bp d)) = db_services d"
  "db_services (snd (delete_local_service_backend i d)) = db_services d"
  "db_services (snd (create_binding_row i nb d)) = db_services d"
  "db_services (snd (update_binding_row i en d)) = db_services d"
  "db_services (snd (delete_binding_row i d)) = db_services d"
  "db_services (network_deleted n d) = db_services d"
  by (auto simp: create_local_service_backend_def update_local_service_backend_def
      delete_local_service_backend_def create_binding_row_def update_binding_row_def
      delete_binding_row_def network_deleted_def Let_def split: sum.splits if_splits)

lemma db_step_vips: "vips_ok na conf d \<Longrightarrow> vips_ok na conf (db_step na conf op d)"
proof (cases op)
  case (DeleteService i)
  assume "vips_ok na conf d"
  then show ?thesis
    by (auto simp: DeleteService delete_local_service_def vips_ok_def split: sum.splits)
qed (simp_all add: vips_ok_create vips_ok_update, simp_all add: vips_ok_def services_frame)

lemma db_run_inv:
  assumes "db_wf d" "vips_ok na conf d"
  shows "db_wf (fold (db_step na conf) ops d) \<and> vips_ok na conf (fold (db_step na conf) ops d)"
  using assms by (induction ops arbitrary: d) (simp_all add: db_step_wf db_step_vips)

lemma empty_db_ok: "db_wf empty_db" "vips_ok na conf empty_db"
  by (simp_all add: empty_db_def db_wf_def table_wf_def uniq_def vips_ok_def)

section \<open>Properties\<close>

lemma ip_in_any_cidr_iff:
  "ip_in_any_cidr na ip cidrs \<longleftrightarrow>
     (\<exists>c \<in> set cidrs. \<exists>net. IPNetwork na c = Some net \<and> same_family_in na ip net)"
  by (induction na ip cidrs rule: ip_in_any_cidr.induct)
    (auto simp: same_family_in_def split: option.splits)

definition vip_safe :: "('ip, 'net) netaddr \<Rightarrow> vip_conf \<Rightarrow> string \<Rightarrow> bool" where
  "vip_safe na conf v \<longleftrightarrow> (\<exists>ip. IPAddress na v = Some ip \<and> ip_int na ip \<noteq> 0
     \<and> \<not> is_loopback na ip \<and> \<not> is_multicast na ip \<and> \<not> is_reserved na ip
     \<and> \<not> is_netmask na ip \<and> \<not> is_hostmask na ip
     \<and> (\<exists>c \<in> set (allowed_vip_cidrs conf). \<exists>net. IPNetwork na c = Some net \<and> same_family_in na ip net)
     \<and> ip_str na ip \<notin> set (vip_denylist conf))"

lemma validate_vip_ok: "validate_vip na conf (Some v) = Inr () \<longleftrightarrow> vip_safe na conf v"
  by (auto simp: validate_vip_def vip_safe_def ip_in_any_cidr_iff split: option.splits if_splits)

lemma validate_vip_refused: "validate_vip na conf (Some v) = Inl e \<Longrightarrow> \<not> vip_safe na conf v"
  using validate_vip_ok[of na conf v] by auto

lemma validate_service_payload_ok:
  "validate_service_payload na conf v4 v6 = Inr () \<longleftrightarrow>
     (truthy_str v4 \<or> truthy_str v6) \<and> (\<forall>v. v4 = Some v \<or> v6 = Some v \<longrightarrow> vip_safe na conf v)"
  unfolding validate_service_payload_def
  by (cases v4; cases v6) (auto simp: validate_vip_ok validate_vip_def[of na conf None] split: sum.splits
      dest: validate_vip_refused)

text \<open>
  C8. Integrity of the catalog over any history: from the empty database, after any sequence of
  the nine CRUD operations (accepted or refused) and of networks appearing and disappearing,
  ids are distinct, the UNIQUE, CHECK and ENUM constraints hold, every backend and binding
  refers to an existing service and network, and every stored VIP passes the validation.
\<close>

theorem catalog_invariant:
  "db_wf (fold (db_step na conf) ops empty_db) \<and> vips_ok na conf (fold (db_step na conf) ops empty_db)"
  by (rule db_run_inv) (rule empty_db_ok)+

text \<open>
  C9. Tenant routing is safe from the catalog: in every database the API can reach, each
  service has a VIP, and each VIP is a unicast address inside an allowed CIDR of its own
  family whose text is not on the denylist.
\<close>

theorem stored_vips_safe:
  assumes "s \<in> set (db_services (fold (db_step na conf) ops empty_db))"
  shows "(truthy_str (svc_local_ipv4 s) \<or> truthy_str (svc_local_ipv6 s))
    \<and> (\<forall>v. svc_local_ipv4 s = Some v \<or> svc_local_ipv6 s = Some v \<longrightarrow> vip_safe na conf v)"
proof -
  have "vips_ok na conf (fold (db_step na conf) ops empty_db)"
    using db_run_inv empty_db_ok by blast
  then have "validate_service_payload na conf (svc_local_ipv4 s) (svc_local_ipv6 s) = Inr ()"
    using assms by (simp add: vips_ok_def)
  then show ?thesis by (rule validate_service_payload_ok[THEN iffD1])
qed

definition dns_body :: service_body where
  "dns_body = \<lparr>sb_project_id = Some ''ops'', sb_name = Some ''dns'', sb_description = None,
     sb_local_ipv4 = Some ''169.254.1.53'', sb_local_ipv6 = None, sb_protocol = Some ''tcp-udp'',
     sb_port = Some 53, sb_attachment_policy = Some ''opt-out'', sb_distribution_policy = None,
     sb_exposure_plugin = None, sb_health_check_type = Some ''dns'', sb_health_check_config = None,
     sb_enabled = None\<rparr>"

definition dns_service :: service where
  "dns_service = \<lparr>svc_id = ''s1'', svc_project_id = Some ''ops'', svc_name = ''dns'',
     svc_description = None, svc_local_ipv4 = Some ''169.254.1.53'', svc_local_ipv6 = None,
     svc_protocol = ''tcp-udp'', svc_port = 53, svc_attachment_policy = ''opt-out'',
     svc_distribution_policy = ''round-robin'', svc_exposure_plugin = ''nat'',
     svc_health_check_type = ''dns'', svc_health_check_config = None, svc_enabled = True\<rparr>"

lemma dns_vip_valid: "validate_vip netaddr_v4 default_vip_conf (Some ''169.254.1.53'') = Inr ()"
  by (simp add: validate_vip_def default_vip_conf_def const_defs v4_eval prefix_of_mask_def
      str_ipv4_def str_nat.simps upt_rec)

lemma dns_created:
  "create_local_service netaddr_v4 default_vip_conf ''s1'' dns_body empty_db =
     (Inr (make_service_dict dns_service), empty_db\<lparr>db_services := [dns_service]\<rparr>)"
  using dns_vip_valid
  by (simp add: create_local_service_def dns_body_def validate_service_payload_def item_def
      new_service_def dns_service_def empty_db_def service_flush_def too_long_def service_columns_def port_range_def const_defs
      get_default_def validate_vip_def[of _ _ None] Let_def)

theorem stored_vips_safe_witness:
  "dns_service \<in> set (db_services (fold (db_step netaddr_v4 default_vip_conf)
      [CreateService ''s1'' dns_body] empty_db))
   \<and> vip_safe netaddr_v4 default_vip_conf ''169.254.1.53''"
proof -
  have m: "dns_service \<in> set (db_services (fold (db_step netaddr_v4 default_vip_conf)
      [CreateService ''s1'' dns_body] empty_db))"
    by (simp add: dns_created)
  show ?thesis using m stored_vips_safe[OF m] by (simp add: dns_service_def)
qed

text \<open>
  What an update can change: on success exactly the named service is replaced by the
  patched row; the id, project, protocol, port and exposure plugin of every service, and the
  other tables, stay as they were. On failure nothing changes.
\<close>

theorem update_service_immutable:
  assumes "db_wf d" and "update_local_service na conf i body d = (r, d')"
  shows "map (\<lambda>s. (svc_id s, svc_project_id s, svc_protocol s, svc_port s, svc_exposure_plugin s)) (db_services d')
       = map (\<lambda>s. (svc_id s, svc_project_id s, svc_protocol s, svc_port s, svc_exposure_plugin s)) (db_services d)
    \<and> (\<forall>s \<in> set (db_services d). svc_id s \<noteq> i \<longrightarrow> s \<in> set (db_services d'))
    \<and> db_backends d' = db_backends d \<and> db_bindings d' = db_bindings d
    \<and> (\<forall>e. r = Inl e \<longrightarrow> d' = d)
    \<and> (\<forall>x. r = Inr x \<longrightarrow> (\<exists>old \<in> set (db_services d). svc_id old = i \<and> x = make_service_dict (patch_service body old)
          \<and> get_local_service d' i = Inr x))"
proof (cases r)
  case (Inl e)
  have "d' = d" using assms(2) raised_no_trace(2) unfolding Inl by blast
  then show ?thesis using Inl by simp
next
  case (Inr x)
  obtain old where old: "old \<in> set (db_services d)" "svc_id old = i" "x = make_service_dict (patch_service body old)"
      and d': "d' = d\<lparr>db_services := put_row svc_id (patch_service body old) (db_services d)\<rparr>"
    by (rule update_service_run[OF assms(2)[unfolded Inr]]) (rule that)
  have only: "s = old" if "s \<in> set (db_services d)" "svc_id s = i" for s
    using that old(1,2) svcs.wf_keys[OF assms(1)] by (auto simp: distinct_map inj_on_def)
  have new: "patch_service body old \<in> set (db_services d')"
    using old(1,2) by (auto simp: d' put_row_def image_iff)
  have "db_wf d'" using keep_update_service[OF assms(1), of na conf i body] assms(2) by simp
  then have "get_local_service d' i = Inr x"
    using new old(2,3) svcs.fetch_iff[of d' i "patch_service body old"]
    by (simp add: get_local_service_def map_sum.simps)
  moreover have "(\<forall>s \<in> set (db_services d). svc_id s \<noteq> i \<longrightarrow> s \<in> set (db_services d'))"
    using old(2) by (force simp: d' put_row_def)
  moreover have "map (\<lambda>s. (svc_id s, svc_project_id s, svc_protocol s, svc_port s, svc_exposure_plugin s)) (db_services d')
       = map (\<lambda>s. (svc_id s, svc_project_id s, svc_protocol s, svc_port s, svc_exposure_plugin s)) (db_services d)"
    using only old(2) by (auto simp: d' put_row_def)
  moreover have "db_backends d' = db_backends d" "db_bindings d' = db_bindings d"
    by (simp_all add: d')
  ultimately show ?thesis using old Inr by (metis Inr_Inl_False sum.inject(2))
qed

theorem update_service_immutable_witness:
  "\<exists>r. update_local_service netaddr_v4 default_vip_conf ''s1''
        \<lparr>sp_name = None, sp_description = None, sp_local_ipv4 = None, sp_local_ipv6 = None,
         sp_attachment_policy = None, sp_distribution_policy = None, sp_health_check_type = None,
         sp_health_check_config = None, sp_enabled = Some False\<rparr> (empty_db\<lparr>db_services := [dns_service]\<rparr>) = r
     \<and> map svc_port (db_services (snd r)) = [53] \<and> map svc_enabled (db_services (snd r)) = [False]"
proof -
  let ?p = "\<lparr>sp_name = None, sp_description = None, sp_local_ipv4 = None, sp_local_ipv6 = None,
         sp_attachment_policy = None, sp_distribution_policy = None, sp_health_check_type = None,
         sp_health_check_config = None, sp_enabled = Some False\<rparr>"
  let ?d = "empty_db\<lparr>db_services := [dns_service]\<rparr>"
  let ?d' = "empty_db\<lparr>db_services := [dns_service\<lparr>svc_enabled := False\<rparr>]\<rparr>"
  have wf: "db_wf ?d"
    using keep_create_service[OF empty_db_ok(1), of netaddr_v4 default_vip_conf "''s1''" dns_body]
    by (simp add: dns_created)
  have run: "update_local_service netaddr_v4 default_vip_conf ''s1'' ?p ?d =
      (Inr (make_service_dict (dns_service\<lparr>svc_enabled := False\<rparr>)), ?d')"
    by (simp add: update_local_service_def get_service_or_raise_def find_row_def dns_service_def
        patch_service_def set_if_def service_flush_def too_long_def service_columns_def port_range_def const_defs put_row_def empty_db_def Let_def)
  show ?thesis using update_service_immutable[OF wf run] run by (simp add: dns_service_def)
qed

end
