(* ===== verification/Names.thy ===== *)
theory Names
  imports Constants
begin

text \<open>
  The names the program derives from a network id: the device id of the localport
  (\<^verbatim>\<open>ovn/localport.py\<close>), the namespace and veth names (\<^verbatim>\<open>agent/netns.py\<close>), the underlay veth and
  chain names (\<^verbatim>\<open>agent/underlay.py\<close>), and how the agent reads a network id back from a
  \<^verbatim>\<open>Port_Binding\<close> row (\<^verbatim>\<open>agent/extension.py\<close>). Two schemes decide whether the rest of the agent is
  sound: names fit the kernel's limits, and the network id survives the round trip through
  the device id.
\<close>

section \<open>Definitions\<close>

definition device_id_for :: "string \<Rightarrow> string" where
  "device_id_for network_id = DEVICE_ID_PREFIX @ network_id"

definition netns_name :: "string \<Rightarrow> string" where
  "netns_name network_id = NETNS_PREFIX @ network_id"

definition VETH_PREFIX :: string where "VETH_PREFIX = ''tls''"

definition VETH_NET_LEN :: nat where "VETH_NET_LEN = 10"

definition veth_names :: "string \<Rightarrow> string \<times> string" where
  "veth_names network_id =
     (let short = take VETH_NET_LEN network_id
      in (VETH_PREFIX @ short @ ''0'', VETH_PREFIX @ short @ ''1''))"

definition underlay_veth_names :: "string \<Rightarrow> string \<times> string" where
  "underlay_veth_names network_id =
     (let short = take UNDERLAY_VETH_NET_LEN network_id
      in (UNDERLAY_VETH_PREFIX @ short @ ''0'', UNDERLAY_VETH_PREFIX @ short @ ''1''))"

definition per_net_chain_name :: "string \<Rightarrow> string" where
  "per_net_chain_name network_id =
     (let short = take UNDERLAY_VETH_NET_LEN network_id in UNDERLAY_PER_NET_CHAIN_PREFIX @ short)"

text \<open>
  A \<^verbatim>\<open>Port_Binding\<close> row as the agent reads it. \<^verbatim>\<open>getattr(row, 'external_ids', None) or {}\<close> is the
  map (empty when the attribute is missing); \<open>pb_mac\<close> is the answer of Neutron's
  \<^verbatim>\<open>get_mac_and_ips_from_port_binding\<close> (\<open>None\<close>: it raised \<^verbatim>\<open>ValueError\<close> or \<^verbatim>\<open>IndexError\<close>).
\<close>

record pb_row =
  pb_type :: "string option"
  pb_external_ids :: "string \<rightharpoonup> string"
  pb_logical_port :: string
  pb_mac :: "string option"

definition device_id :: "ovn_const \<Rightarrow> pb_row \<Rightarrow> string" where
  "device_id oc row =
     (case pb_external_ids row (OVN_DEVID_EXT_ID_KEY oc) of None \<Rightarrow> [] | Some d \<Rightarrow> d)"

text \<open>
  The prefix test guards the \<^verbatim>\<open>split(...)[1]\<close>: where the prefix occurs the marker does, so
  the index never fails (lemma \<open>network_id_from_device_id_total\<close>).
\<close>

definition network_id_from_device_id :: "string \<Rightarrow> string" where
  "network_id_from_device_id d =
     (if \<not> contains d DEVICE_ID_PREFIX then []
      else case split1_snd d DEVICE_ID_MARKER of Some n \<Rightarrow> n | None \<Rightarrow> [])"

definition is_our_localport :: "ovn_const \<Rightarrow> pb_row \<Rightarrow> bool" where
  "is_our_localport oc row =
     (if pb_type row \<noteq> Some (LSP_TYPE_LOCALPORT oc) then False
      else contains (device_id oc row) DEVICE_ID_MARKER)"

section \<open>Lemmas\<close>

lemma device_id_for_split: "find_sub DEVICE_ID_MARKER (device_id_for n) = Some (''ovn-lb-hm-'', n)"
  by (simp add: device_id_for_def const_defs startswith_def)

lemma contains_device_id_for:
  "contains (device_id_for n) DEVICE_ID_PREFIX" "contains (device_id_for n) DEVICE_ID_MARKER"
  unfolding contains_iff device_id_for_def
  by (metis append_Nil, metis DEVICE_ID_PREFIX_def append.assoc)

lemma prefix_has_marker: "contains d DEVICE_ID_PREFIX \<Longrightarrow> contains d DEVICE_ID_MARKER"
  unfolding contains_iff DEVICE_ID_PREFIX_def by (metis append.assoc)

lemma network_id_from_device_id_total:
  "contains d DEVICE_ID_PREFIX \<Longrightarrow> split1_snd d DEVICE_ID_MARKER \<noteq> None"
  by (simp add: split1_snd_None prefix_has_marker)

lemma device_id_for_inj: "device_id_for m = device_id_for n \<longleftrightarrow> m = n"
  by (simp add: device_id_for_def)

lemma netns_name_inj: "netns_name m = netns_name n \<longleftrightarrow> m = n"
  by (simp add: netns_name_def)

section \<open>Properties\<close>

text \<open>
  Round trip of the network id through the localport's device id: for every network id,
  the agent recovers exactly the id the plugin encoded, and the row carrying it (with OVN
  type localport) is recognised as one of ours.
\<close>

theorem device_id_roundtrip:
  "network_id_from_device_id (device_id_for n) = n
   \<and> is_our_localport oc
       \<lparr>pb_type = Some (LSP_TYPE_LOCALPORT oc),
        pb_external_ids = [OVN_DEVID_EXT_ID_KEY oc \<mapsto> device_id_for n],
        pb_logical_port = lp, pb_mac = mac\<rparr>"
  by (simp add: network_id_from_device_id_def split1_snd_def device_id_for_split
      contains_device_id_for is_our_localport_def device_id_def)

text \<open>
  Every derived name fits the kernel's limits whatever the network id: interface names
  have at most 15 characters, chain names at most 28, and the four interface names of one
  network are pairwise different.
\<close>

theorem names_fit_kernel:
  "(\<forall>v \<in> {fst (veth_names n), snd (veth_names n),
          fst (underlay_veth_names n), snd (underlay_veth_names n)}. length v \<le> 15)
   \<and> length (per_net_chain_name n) \<le> 28 \<and> length UNDERLAY_HOST_CHAIN \<le> 28
   \<and> distinct [fst (veth_names n), snd (veth_names n),
          fst (underlay_veth_names n), snd (underlay_veth_names n)]"
  by (simp add: veth_names_def underlay_veth_names_def per_net_chain_name_def Let_def
      VETH_PREFIX_def VETH_NET_LEN_def const_defs min_le_iff_disj)

theorem names_fit_kernel_witness:
  "length (snd (veth_names ''a1'')) \<le> 15 \<and> length (fst (underlay_veth_names ''a1'')) \<le> 15
   \<and> snd (veth_names ''a1'') = ''tlsa11''"
  using names_fit_kernel[of "''a1''"]
  by (simp add: veth_names_def VETH_PREFIX_def VETH_NET_LEN_def)

text \<open>A UUID in canonical form: 36 characters, dashes at four places, hex digits elsewhere.\<close>

definition is_hex :: "char \<Rightarrow> bool" where
  "is_hex c = (is_digit c \<or> (97 \<le> (of_char c :: nat) \<and> (of_char c :: nat) \<le> 102))"

definition is_uuid :: "string \<Rightarrow> bool" where
  "is_uuid s = (length s = 36 \<and>
     (\<forall>i<36. if i \<in> {8, 13, 18, 23} then s ! i = CHR ''-'' else is_hex (s ! i)))"

lemma uuid_short:
  assumes "is_uuid n"
  obtains h1 h2 h3 h4 h5 h6 h7 h8 h9 where
    "take 10 n = [h1, h2, h3, h4, h5, h6, h7, h8, CHR ''-'', h9]"
    "list_all is_hex [h1, h2, h3, h4, h5, h6, h7, h8, h9]"
proof -
  have len: "length n = 36" and at: "\<And>i. i < 36 \<Longrightarrow>
      if i \<in> {8, 13, 18, 23} then n ! i = CHR ''-'' else is_hex (n ! i)"
    using assms by (auto simp: is_uuid_def)
  have "take 10 n = map ((!) n) [0..<10]"
    using len by (intro nth_equalityI) simp_all
  also have "\<dots> = [n ! 0, n ! 1, n ! 2, n ! 3, n ! 4, n ! 5, n ! 6, n ! 7, CHR ''-'', n ! 9]"
    using at[of 8] by (simp add: upt_rec numeral_eq_Suc)
  finally show thesis
    using at[of 0] at[of 1] at[of 2] at[of 3] at[of 4] at[of 5] at[of 6] at[of 7] at[of 9]
    by (intro that[of "n ! 0" "n ! 1" "n ! 2" "n ! 3" "n ! 4" "n ! 5" "n ! 6" "n ! 7" "n ! 9"])
      simp_all
qed

text \<open>
  When two networks share derived names. The veth, underlay veth and chain names of two
  networks coincide exactly when the ids agree on their first ten characters; of the ten
  characters of a UUID one is a dash, so the names carry nine hex digits of the id.
\<close>

theorem derived_names_collide_iff:
  assumes "is_uuid m" and "is_uuid n"
  shows "(veth_names m = veth_names n \<longleftrightarrow> take 10 m = take 10 n)
    \<and> (underlay_veth_names m = underlay_veth_names n \<longleftrightarrow> take 10 m = take 10 n)
    \<and> (per_net_chain_name m = per_net_chain_name n \<longleftrightarrow> take 10 m = take 10 n)
    \<and> length (filter is_hex (drop (length UNDERLAY_PER_NET_CHAIN_PREFIX) (per_net_chain_name n))) = 9"
proof -
  obtain h1 h2 h3 h4 h5 h6 h7 h8 h9 where
    short: "take 10 n = [h1, h2, h3, h4, h5, h6, h7, h8, CHR ''-'', h9]" and
    hex: "list_all is_hex [h1, h2, h3, h4, h5, h6, h7, h8, h9]"
    using assms(2) by (rule uuid_short)
  have "length (filter is_hex (take 10 n)) = 9"
    using hex by (simp add: short is_hex_def is_digit_def)
  then show ?thesis
    by (simp add: veth_names_def underlay_veth_names_def per_net_chain_name_def Let_def
        VETH_PREFIX_def VETH_NET_LEN_def const_defs)
qed

theorem derived_names_collide_iff_witness:
  "is_uuid ''0123abcd-1111-4222-8333-444455556666'' \<and> is_uuid ''0123abcd-1fff-4222-8333-444455556666''
   \<and> per_net_chain_name ''0123abcd-1111-4222-8333-444455556666''
     = per_net_chain_name ''0123abcd-1fff-4222-8333-444455556666''"
proof -
  have u: "is_uuid ''0123abcd-1111-4222-8333-444455556666''"
    "is_uuid ''0123abcd-1fff-4222-8333-444455556666''"
    by code_simp+
  show ?thesis
    using derived_names_collide_iff[OF u] u by simp
qed

end
