(* ===== verification/Core.thy ===== *)
theory Core
  imports Names
begin

text \<open>
  Neutron's core plugin (ML2) is not part of the repository. \<open>core_plugin\<close> is the record of the
  calls the service plugin makes on it with the context of the request, over an abstract
  state \<open>'w\<close>; \<open>core_ok\<close> is what the code relies on: reads do not change the state, a
  write that raises does not either, and a write that returns did what its name says. The
  dictionaries that cross this border are records. \<open>mem_core\<close> is an in-memory instance,
  for evaluation at concrete inputs.
\<close>

section \<open>Dictionaries\<close>

record route =
  rt_destination :: "string option"
  rt_nexthop :: "string option"

record fixed_ip =
  fip_subnet_id :: "string option"
  fip_ip_address :: "string option"

text \<open>\<^verbatim>\<open>port.get('fixed_ips') or []\<close> is the list.\<close>

record port =
  port_id :: string
  port_network_id :: string
  port_device_owner :: "string option"
  port_device_id :: "string option"
  port_fixed_ips :: "fixed_ip list"

text \<open>
  A subnet: the dictionary of the core plugin, a create body or an update patch. For \<open>cidr\<close>
  and \<open>host_routes\<close>, whose keys the code tests, the outer option is the presence of the key
  and the inner one a value of \<^verbatim>\<open>None\<close>.
\<close>

record subnet =
  sn_id :: "string option"
  sn_network_id :: "string option"
  sn_cidr :: "string option option"
  sn_host_routes :: "route list option option"
  sn_ip_version :: "nat option"
  sn_enable_dhcp :: "bool option"

record network =
  net_id :: "string option"
  net_project_id :: "string option"
  net_tenant_id :: "string option"

record port_body =
  pbo_network_id :: string
  pbo_project_id :: string
  pbo_device_owner :: string
  pbo_device_id :: string
  pbo_subnet_id :: string
  pbo_admin_state_up :: bool
  pbo_name :: string
  pbo_port_security_enabled :: bool

text \<open>\<^verbatim>\<open>d.get(k)\<close> where the presence of the key is recorded, and \<^verbatim>\<open>d.get('host_routes') or []\<close>.\<close>

definition dget :: "'v option option \<Rightarrow> 'v option" where
  "dget v = (case v of None \<Rightarrow> None | Some x \<Rightarrow> x)"

definition routes_of :: "subnet \<Rightarrow> route list" where
  "routes_of s = (case dget (sn_host_routes s) of None \<Rightarrow> [] | Some rs \<Rightarrow> rs)"

lemma dget_simps [simp]: "dget None = None" "dget (Some v) = v"
  by (simp_all add: dget_def)

section \<open>The calls\<close>

record 'w core_plugin =
  cp_get_ports :: "string \<Rightarrow> string \<Rightarrow> string \<Rightarrow> ('w, port list) act"
  cp_get_subnets :: "string \<Rightarrow> ('w, subnet list) act"
  cp_get_network :: "string \<Rightarrow> ('w, network) act"
  cp_get_networks :: "('w, network list) act"
  cp_create_port :: "port_body \<Rightarrow> ('w, port) act"
  cp_delete_port :: "string \<Rightarrow> ('w, unit) act"
  cp_update_subnet :: "string \<Rightarrow> route list \<Rightarrow> ('w, unit) act"

definition port_matches :: "string \<Rightarrow> string \<Rightarrow> string \<Rightarrow> port \<Rightarrow> bool" where
  "port_matches n owner dev p =
     (port_network_id p = n \<and> port_device_owner p = Some owner \<and> port_device_id p = Some dev)"

definition set_routes :: "string \<Rightarrow> route list \<Rightarrow> subnet \<Rightarrow> subnet" where
  "set_routes i rs s = (if sn_id s = Some i then s\<lparr>sn_host_routes := Some (Some rs)\<rparr> else s)"

definition made_from :: "port_body \<Rightarrow> port \<Rightarrow> bool" where
  "made_from b p = (port_matches (pbo_network_id b) (pbo_device_owner b) (pbo_device_id b) p
     \<and> (\<exists>ip. port_fixed_ips p = [\<lparr>fip_subnet_id = Some (pbo_subnet_id b), fip_ip_address = Some ip\<rparr>]))"

definition core_reads_ok :: "'w core_plugin \<Rightarrow> ('w \<Rightarrow> port list) \<Rightarrow> ('w \<Rightarrow> subnet list) \<Rightarrow> bool" where
  "core_reads_ok cp ports subnets \<longleftrightarrow>
     (\<forall>n owner dev w. cp_get_ports cp n owner dev w = (Inr (filter (port_matches n owner dev) (ports w)), w))
     \<and> (\<forall>n w. cp_get_subnets cp n w = (Inr (filter (\<lambda>s. sn_network_id s = Some n) (subnets w)), w))
     \<and> (\<forall>n w r w'. cp_get_network cp n w = (r, w') \<longrightarrow> w' = w \<and> (\<forall>net. r = Inr net \<longrightarrow> net_id net = Some n))
     \<and> (\<forall>w. \<exists>r. cp_get_networks cp w = (r, w))"

definition core_writes_ok :: "'w core_plugin \<Rightarrow> ('w \<Rightarrow> port list) \<Rightarrow> ('w \<Rightarrow> subnet list) \<Rightarrow> bool" where
  "core_writes_ok cp ports subnets \<longleftrightarrow>
     (\<forall>b w r w'. cp_create_port cp b w = (r, w') \<longrightarrow> subnets w' = subnets w
        \<and> (case r of Inl _ \<Rightarrow> ports w' = ports w
           | Inr p \<Rightarrow> ports w' = ports w @ [p] \<and> made_from b p \<and> port_id p \<notin> port_id ` set (ports w)))
     \<and> (\<forall>i w r w'. cp_delete_port cp i w = (r, w') \<longrightarrow> subnets w' = subnets w
        \<and> (case r of Inl _ \<Rightarrow> ports w' = ports w
           | Inr _ \<Rightarrow> ports w' = filter (\<lambda>p. port_id p \<noteq> i) (ports w)))
     \<and> (\<forall>i rs w r w'. cp_update_subnet cp i rs w = (r, w') \<longrightarrow> ports w' = ports w
        \<and> (case r of Inl _ \<Rightarrow> subnets w' = subnets w
           | Inr _ \<Rightarrow> subnets w' = map (set_routes i rs) (subnets w)))"

definition core_ok :: "'w core_plugin \<Rightarrow> ('w \<Rightarrow> port list) \<Rightarrow> ('w \<Rightarrow> subnet list) \<Rightarrow> bool" where
  "core_ok cp ports subnets \<longleftrightarrow> core_reads_ok cp ports subnets \<and> core_writes_ok cp ports subnets"

lemma core_reads:
  assumes "core_ok cp ports subnets"
  shows "cp_get_ports cp n owner dev w = (Inr (filter (port_matches n owner dev) (ports w)), w)"
    and "cp_get_subnets cp n w = (Inr (filter (\<lambda>s. sn_network_id s = Some n) (subnets w)), w)"
    and "cp_get_network cp n w = (r, w') \<Longrightarrow> w' = w"
    and "cp_get_network cp n w = (Inr net, w') \<Longrightarrow> net_id net = Some n"
  using assms by (auto simp: core_ok_def core_reads_ok_def)

lemma core_create:
  assumes "core_ok cp ports subnets" "cp_create_port cp b w = (r, w')"
  shows "subnets w' = subnets w" and "r = Inl e \<Longrightarrow> ports w' = ports w"
    and "r = Inr p \<Longrightarrow> ports w' = ports w @ [p] \<and> made_from b p \<and> port_id p \<notin> port_id ` set (ports w)"
  using assms unfolding core_ok_def core_writes_ok_def by (fastforce split: sum.splits)+

lemma core_delete:
  assumes "core_ok cp ports subnets" "cp_delete_port cp i w = (r, w')"
  shows "subnets w' = subnets w" and "r = Inl e \<Longrightarrow> ports w' = ports w"
    and "r = Inr u \<Longrightarrow> ports w' = filter (\<lambda>p. port_id p \<noteq> i) (ports w)"
  using assms unfolding core_ok_def core_writes_ok_def by (fastforce split: sum.splits)+

lemma core_update:
  assumes "core_ok cp ports subnets" "cp_update_subnet cp i rs w = (r, w')"
  shows "ports w' = ports w" and "r = Inl e \<Longrightarrow> subnets w' = subnets w"
    and "r = Inr u \<Longrightarrow> subnets w' = map (set_routes i rs) (subnets w)"
  using assms unfolding core_ok_def core_writes_ok_def by (fastforce split: sum.splits)+

section \<open>An instance in memory\<close>

text \<open>
  The next port id is the number of ports ever made, the address of a new port is fixed.
\<close>

record mem =
  mem_ports :: "port list"
  mem_subnets :: "subnet list"

definition mem_next_id :: "mem \<Rightarrow> string" where
  "mem_next_id w = replicate (Suc (sum_list (map (length \<circ> port_id) (mem_ports w)))) (CHR ''p'')"

definition mem_port :: "mem \<Rightarrow> port_body \<Rightarrow> port" where
  "mem_port w b =
     \<lparr>port_id = mem_next_id w, port_network_id = pbo_network_id b,
      port_device_owner = Some (pbo_device_owner b), port_device_id = Some (pbo_device_id b),
      port_fixed_ips = [\<lparr>fip_subnet_id = Some (pbo_subnet_id b), fip_ip_address = Some ''10.0.0.2''\<rparr>]\<rparr>"

definition mem_core :: "mem core_plugin" where
  "mem_core =
     \<lparr>cp_get_ports = (\<lambda>n owner dev w. (Inr (filter (port_matches n owner dev) (mem_ports w)), w)),
      cp_get_subnets = (\<lambda>n w. (Inr (filter (\<lambda>s. sn_network_id s = Some n) (mem_subnets w)), w)),
      cp_get_network = (\<lambda>n w. (Inr \<lparr>net_id = Some n, net_project_id = Some ''demo'', net_tenant_id = None\<rparr>, w)),
      cp_get_networks = (\<lambda>w. (Inr [], w)),
      cp_create_port = (\<lambda>b w. (Inr (mem_port w b), w\<lparr>mem_ports := mem_ports w @ [mem_port w b]\<rparr>)),
      cp_delete_port = (\<lambda>i w. (Inr (), w\<lparr>mem_ports := filter (\<lambda>p. port_id p \<noteq> i) (mem_ports w)\<rparr>)),
      cp_update_subnet = (\<lambda>i rs w. (Inr (), w\<lparr>mem_subnets := map (set_routes i rs) (mem_subnets w)\<rparr>))\<rparr>"

lemma id_length_bound: "p \<in> set ps \<Longrightarrow> length (port_id p) \<le> sum_list (map (length \<circ> port_id) ps)"
  by (induction ps) auto

lemma mem_next_id_fresh: "mem_next_id w \<notin> port_id ` set (mem_ports w)"
proof
  assume "mem_next_id w \<in> port_id ` set (mem_ports w)"
  then obtain p where p: "p \<in> set (mem_ports w)" "port_id p = mem_next_id w" by auto
  have "length (port_id p) \<le> sum_list (map (length \<circ> port_id) (mem_ports w))"
    using p(1) by (rule id_length_bound)
  then show False using p(2) by (simp add: mem_next_id_def)
qed

lemma mem_core_sel [simp]:
  "cp_get_ports mem_core n owner dev w = (Inr (filter (port_matches n owner dev) (mem_ports w)), w)"
  "cp_get_subnets mem_core n w = (Inr (filter (\<lambda>s. sn_network_id s = Some n) (mem_subnets w)), w)"
  "cp_get_network mem_core n w = (Inr \<lparr>net_id = Some n, net_project_id = Some ''demo'', net_tenant_id = None\<rparr>, w)"
  "cp_get_networks mem_core w = (Inr [], w)"
  "cp_create_port mem_core b w = (Inr (mem_port w b), w\<lparr>mem_ports := mem_ports w @ [mem_port w b]\<rparr>)"
  "cp_delete_port mem_core i w = (Inr (), w\<lparr>mem_ports := filter (\<lambda>p. port_id p \<noteq> i) (mem_ports w)\<rparr>)"
  "cp_update_subnet mem_core i rs w = (Inr (), w\<lparr>mem_subnets := map (set_routes i rs) (mem_subnets w)\<rparr>)"
  by (simp_all add: mem_core_def)

lemma mem_port_ok: "made_from b (mem_port w b)" "port_id (mem_port w b) \<notin> port_id ` set (mem_ports w)"
  using mem_next_id_fresh[of w] by (simp_all add: made_from_def mem_port_def port_matches_def)

lemma mem_core_ok: "core_ok mem_core mem_ports mem_subnets"
  unfolding core_ok_def core_reads_ok_def core_writes_ok_def
  by (simp add: mem_port_ok)

end
