(* ===== verification/Localport.thy ===== *)
theory Localport
  imports Core
begin

text \<open>
  The localport of a network (\<^verbatim>\<open>ovn/localport.py\<close>): how the service plugin finds its own port,
  picks the subnet to allocate it from, creates it, removes it and verifies that OVN made
  it a localport.
\<close>

section \<open>Definitions\<close>

definition is_our_port :: "ovn_const \<Rightarrow> port \<Rightarrow> bool" where
  "is_our_port oc p =
     (port_device_owner p = Some (OVN_LB_HM_PORT_DISTRIBUTED oc)
      \<and> contains (case or_str (port_device_id p) (Some []) of None \<Rightarrow> [] | Some d \<Rightarrow> d) DEVICE_ID_MARKER)"

definition find_port :: "ovn_const \<Rightarrow> 'w core_plugin \<Rightarrow> string \<Rightarrow> ('w, port option) act" where
  "find_port oc cp network_id =
     bnd (cp_get_ports cp network_id (OVN_LB_HM_PORT_DISTRIBUTED oc) (device_id_for network_id))
       (\<lambda>candidates. ret (find (is_our_port oc) candidates))"

definition pick_subnet :: "'w core_plugin \<Rightarrow> string \<Rightarrow> ('w, subnet option) act" where
  "pick_subnet cp network_id =
     bnd (cp_get_subnets cp network_id)
       (\<lambda>subnets.
          let ipv4 = filter (\<lambda>s. sn_ip_version s = Some 4) subnets;
              dhcp = filter (\<lambda>s. sn_enable_dhcp s = Some True) ipv4
          in case ipv4 of
               [] \<Rightarrow> ret None
             | s4 # _ \<Rightarrow> (case dhcp of s # _ \<Rightarrow> ret (Some s) | [] \<Rightarrow> ret (Some s4)))"

definition localport_body :: "ovn_const \<Rightarrow> network \<Rightarrow> string \<Rightarrow> string \<Rightarrow> port_body" where
  "localport_body oc network network_id subnet_id =
     \<lparr>pbo_network_id = network_id,
      pbo_project_id =
        (case or_str (net_project_id network) (or_str (net_tenant_id network) (Some [])) of
           Some p \<Rightarrow> p | None \<Rightarrow> []),
      pbo_device_owner = OVN_LB_HM_PORT_DISTRIBUTED oc,
      pbo_device_id = device_id_for network_id,
      pbo_subnet_id = subnet_id,
      pbo_admin_state_up = True,
      pbo_name = ''local-services-localport-'' @ network_id,
      pbo_port_security_enabled = False\<rparr>"

text \<open>\<^verbatim>\<open>network['id']\<close> and \<^verbatim>\<open>subnet['id']\<close> raise \<^verbatim>\<open>KeyError\<close> where the key is missing.\<close>

definition the_key :: "string \<Rightarrow> 'v option \<Rightarrow> ('w, 'v) act" where
  "the_key k v = (case v of None \<Rightarrow> raise (KeyError k) | Some x \<Rightarrow> ret x)"

definition ensure_localport :: "ovn_const \<Rightarrow> 'w core_plugin \<Rightarrow> network \<Rightarrow> ('w, port) act" where
  "ensure_localport oc cp network =
     bnd (the_key ''id'' (net_id network)) (\<lambda>network_id.
     bnd (find_port oc cp network_id) (\<lambda>existing.
       case existing of
         Some p \<Rightarrow> ret p
       | None \<Rightarrow>
           bnd (pick_subnet cp network_id) (\<lambda>subnet.
             case subnet of
               None \<Rightarrow> raise (InvalidInput (NoIPv4Subnet network_id))
             | Some s \<Rightarrow>
                 bnd (the_key ''id'' (sn_id s)) (\<lambda>subnet_id.
                   cp_create_port cp (localport_body oc network network_id subnet_id)))))"

definition maybe_remove_localport :: "ovn_const \<Rightarrow> 'w core_plugin \<Rightarrow> string \<Rightarrow> bool \<Rightarrow> ('w, bool) act" where
  "maybe_remove_localport oc cp network_id has_remaining_bindings =
     (if has_remaining_bindings then ret False
      else bnd (find_port oc cp network_id) (\<lambda>port.
             case port of
               None \<Rightarrow> ret False
             | Some p \<Rightarrow> andthen (cp_delete_port cp (port_id p)) (ret True)))"

text \<open>
  One lookup in OVN's northbound database: it may raise, find no row, or find a row with its
  type. The mech driver is \<open>None\<close> when it or its northbound IDL is missing, otherwise the
  answer to the \<open>k\<close>-th lookup of a port. The delay between lookups is not modelled.
\<close>

datatype lsp_lookup = LookupRaised | LookupNone | LookupLSP "string option"

type_synonym mech_driver = "(string \<Rightarrow> nat \<Rightarrow> lsp_lookup) option"

fun verify_lsp_loop :: "ovn_const \<Rightarrow> (nat \<Rightarrow> lsp_lookup) \<Rightarrow> string \<Rightarrow> string \<Rightarrow> nat \<Rightarrow> nat \<Rightarrow> exc + string option" where
  "verify_lsp_loop oc lookup port network_id k 0 = Inr None"
| "verify_lsp_loop oc lookup port network_id k (Suc left) =
     (case lookup k of
        LookupLSP t \<Rightarrow>
          (let last_seen = (case t of None \<Rightarrow> [] | Some x \<Rightarrow> x)
           in if last_seen = LSP_TYPE_LOCALPORT oc then Inr (Some last_seen)
              else Inl (LocalportLSPVerifyError port last_seen))
      | _ \<Rightarrow> verify_lsp_loop oc lookup port network_id (Suc k) left)"

definition verify_lsp_type :: "ovn_const \<Rightarrow> mech_driver \<Rightarrow> string \<Rightarrow> string \<Rightarrow> nat \<Rightarrow> exc + string option" where
  "verify_lsp_type oc mech port network_id retries =
     (case mech of
        None \<Rightarrow> Inr None
      | Some lookup \<Rightarrow> verify_lsp_loop oc (lookup port) port network_id 0 retries)"

section \<open>Lemmas\<close>

lemma our_device_id: "is_our_port oc p" if "port_matches n (OVN_LB_HM_PORT_DISTRIBUTED oc) (device_id_for n) p"
  using that contains_device_id_for(2)[of n]
  by (auto simp: is_our_port_def port_matches_def or_str_def device_id_for_def const_defs)

abbreviation our_ports :: "ovn_const \<Rightarrow> string \<Rightarrow> port list \<Rightarrow> port list" where
  "our_ports oc n ps \<equiv> filter (port_matches n (OVN_LB_HM_PORT_DISTRIBUTED oc) (device_id_for n)) ps"

lemma find_port_run:
  assumes "core_ok cp ports subnets"
  shows "find_port oc cp n w =
    (Inr (case our_ports oc n (ports w) of [] \<Rightarrow> None | p # _ \<Rightarrow> Some p), w)"
proof -
  have "find (is_our_port oc) (our_ports oc n (ports w)) =
      (case our_ports oc n (ports w) of [] \<Rightarrow> None | p # _ \<Rightarrow> Some p)"
  proof (cases "our_ports oc n (ports w)")
    case (Cons p ps)
    then have "port_matches n (OVN_LB_HM_PORT_DISTRIBUTED oc) (device_id_for n) p"
      by (metis filter_eq_ConsD)
    then show ?thesis by (simp add: Cons our_device_id)
  qed simp
  then show ?thesis by (simp add: find_port_def core_reads(1)[OF assms])
qed

lemma localport_body_matches:
  "made_from (localport_body oc net n i) p \<Longrightarrow> port_matches n (OVN_LB_HM_PORT_DISTRIBUTED oc) (device_id_for n) p"
  by (simp add: made_from_def localport_body_def)

text \<open>Where the network has no localport of ours, the call comes down to one creation.\<close>

lemma pick_subnet_run:
  assumes "core_ok cp ports subnets"
  shows "\<exists>sub. pick_subnet cp n w = (Inr sub, w)"
  by (simp add: pick_subnet_def core_reads(2)[OF assms] Let_def split: list.split)

lemma ensure_localport_fresh:
  assumes cp: "core_ok cp ports subnets" and n: "net_id net = Some n" and none: "our_ports oc n (ports w) = []"
  obtains (refused) e where "ensure_localport oc cp net w = (Inl e, w)"
    | (create) i where "ensure_localport oc cp net w = cp_create_port cp (localport_body oc net n i) w"
proof -
  obtain sub where sub: "pick_subnet cp n w = (Inr sub, w)"
    using pick_subnet_run[OF cp] by blast
  have run: "ensure_localport oc cp net w =
      (case sub of None \<Rightarrow> (Inl (InvalidInput (NoIPv4Subnet n)), w)
       | Some s \<Rightarrow> (case sn_id s of None \<Rightarrow> (Inl (KeyError ''id''), w)
           | Some i \<Rightarrow> cp_create_port cp (localport_body oc net n i) w))"
    by (auto simp: ensure_localport_def the_key_def n find_port_run[OF cp] none sub split: option.splits)
  show ?thesis using run refused create by (cases sub) (auto split: option.splits)
qed

text \<open>
  What \<open>ensure_localport\<close> did when it returned: the port it gives is ours, at most one port was
  added, and none where one existed. When it raised, nothing was added.
\<close>

lemma ensure_localport_run:
  assumes cp: "core_ok cp ports subnets" and n: "net_id net = Some n"
    and run: "ensure_localport oc cp net w = (Inr p, w')"
  obtains (existing) "our_ports oc n (ports w) \<noteq> []" "p = hd (our_ports oc n (ports w))" "w' = w"
    | (created) "our_ports oc n (ports w) = []" "ports w' = ports w @ [p]" "subnets w' = subnets w"
        "port_matches n (OVN_LB_HM_PORT_DISTRIBUTED oc) (device_id_for n) p"
        "port_id p \<notin> port_id ` set (ports w)"
proof (cases "our_ports oc n (ports w)")
  case (Cons q qs)
  then have "p = q" "w' = w"
    using run by (simp_all add: ensure_localport_def the_key_def n find_port_run[OF cp])
  then show ?thesis by (intro existing) (simp_all add: Cons)
next
  case Nil
  from cp n Nil show ?thesis
  proof (cases rule: ensure_localport_fresh)
    case (create i)
    have c: "cp_create_port cp (localport_body oc net n i) w = (Inr p, w')" using create run by simp
    note new = core_create(3)[OF cp c refl]
    show ?thesis
    proof (rule created)
      show "ports w' = ports w @ [p]" "port_id p \<notin> port_id ` set (ports w)" using new by simp_all
      show "port_matches n (OVN_LB_HM_PORT_DISTRIBUTED oc) (device_id_for n) p"
        using new localport_body_matches[of oc net n i p] by simp
    qed (rule Nil core_create(1)[OF cp c])+
  qed (use run in simp)
qed

lemma ensure_localport_raised:
  assumes cp: "core_ok cp ports subnets" and n: "net_id net = Some n"
    and run: "ensure_localport oc cp net w = (Inl e, w')"
  shows "our_ports oc n (ports w) = [] \<and> ports w' = ports w \<and> subnets w' = subnets w"
proof (cases "our_ports oc n (ports w)")
  case (Cons q qs)
  then show ?thesis
    using run by (simp add: ensure_localport_def the_key_def n find_port_run[OF cp])
next
  case Nil
  from cp n Nil show ?thesis
  proof (cases rule: ensure_localport_fresh)
    case (create i)
    have c: "cp_create_port cp (localport_body oc net n i) w = (Inl e, w')" using create run by simp
    show ?thesis using Nil core_create(1)[OF cp c] core_create(2)[OF cp c refl] by simp
  qed (use run Nil in simp)
qed

text \<open>The verification raises exactly when some lookup sees a row of another type first.\<close>

lemma verify_lsp_loop_raises:
  "verify_lsp_loop oc lookup i n k left = Inl e \<longleftrightarrow>
     (\<exists>j < left. \<exists>t. lookup (k + j) = LookupLSP t
        \<and> (case t of None \<Rightarrow> [] | Some x \<Rightarrow> x) \<noteq> LSP_TYPE_LOCALPORT oc
        \<and> e = LocalportLSPVerifyError i (case t of None \<Rightarrow> [] | Some x \<Rightarrow> x)
        \<and> (\<forall>m < j. \<forall>t. lookup (k + m) \<noteq> LookupLSP t))"
proof (induction left arbitrary: k)
  case (Suc left)
  show ?case
  proof (cases "\<exists>t. lookup k = LookupLSP t")
    case True
    then obtain t where t: "lookup k = LookupLSP t" by auto
    have "(\<exists>j < Suc left. P j \<and> (\<forall>m < j. \<forall>t. lookup (k + m) \<noteq> LookupLSP t)) \<longleftrightarrow> P 0" for P
      using t by (metis add.right_neutral gr0I less_Suc_eq_0_disj not_less_zero)
    from this[of "\<lambda>j. \<exists>t. lookup (k + j) = LookupLSP t
        \<and> (case t of None \<Rightarrow> [] | Some x \<Rightarrow> x) \<noteq> LSP_TYPE_LOCALPORT oc
        \<and> e = LocalportLSPVerifyError i (case t of None \<Rightarrow> [] | Some x \<Rightarrow> x)"]
    show ?thesis using t by (auto simp: Let_def)
  next
    case False
    then have "verify_lsp_loop oc lookup i n k (Suc left) = verify_lsp_loop oc lookup i n (Suc k) left"
      by (auto split: lsp_lookup.splits)
    then have "verify_lsp_loop oc lookup i n k (Suc left) = Inl e \<longleftrightarrow>
        verify_lsp_loop oc lookup i n (Suc k) left = Inl e" by (simp only:)
    then show ?thesis
      unfolding Suc.IH using False
      by (simp only: Ex_less_Suc2 All_less_Suc2) simp
  qed
qed simp

end
