(* ===== verification/HostRoutes.thy ===== *)
theory HostRoutes
  imports CatalogInv Localport "HOL-Library.Multiset"
begin

text \<open>
  Host-route injection (\<^verbatim>\<open>host_routes.py\<close>): which services are attached to a network, the routes
  a subnet should carry for them, the merge with the routes it has, and the two subnet
  handlers. The service plugin reads the catalog with the context of the request, modelled
  by \<open>ctx_scope\<close>. Python iterates over a set in an order it does not specify: \<open>set_order\<close> is a
  parameter that lists the elements of a set, once each (\<open>set_order_ok\<close>).
\<close>

section \<open>Definitions\<close>

definition localport_ipv4_in_subnet :: "port \<Rightarrow> subnet \<Rightarrow> string option" where
  "localport_ipv4_in_subnet port subnet =
     (case find (\<lambda>fip. fip_subnet_id fip = sn_id subnet) (port_fixed_ips port) of
        Some fip \<Rightarrow> fip_ip_address fip
      | None \<Rightarrow> None)"

definition service_route :: "string \<Rightarrow> string \<Rightarrow> route" where
  "service_route vip nexthop = \<lparr>rt_destination = Some (vip @ ''/32''), rt_nexthop = Some nexthop\<rparr>"

text \<open>The loop over the services; \<open>subnet_net\<close> is the parsed CIDR, if it could be parsed.\<close>

fun service_routes :: "('ip, 'net) netaddr \<Rightarrow> 'net option \<Rightarrow> string \<Rightarrow> service_dict list \<Rightarrow> route list" where
  "service_routes na subnet_net nexthop [] = []"
| "service_routes na subnet_net nexthop (svc # svcs) =
     (case sd_local_ipv4 svc of
        None \<Rightarrow> service_routes na subnet_net nexthop svcs
      | Some vip \<Rightarrow>
          if vip = [] \<or> \<not> get_enabled (sd_enabled svc) then service_routes na subnet_net nexthop svcs
          else
            (case subnet_net of
               None \<Rightarrow> service_route vip nexthop # service_routes na subnet_net nexthop svcs
             | Some net \<Rightarrow>
                 (case IPAddress na vip of
                    None \<Rightarrow> service_routes na subnet_net nexthop svcs
                  | Some vip_ip \<Rightarrow>
                      if same_family_in na vip_ip net then service_routes na subnet_net nexthop svcs
                      else service_route vip nexthop # service_routes na subnet_net nexthop svcs)))"

definition parse_cidr :: "('ip, 'net) netaddr \<Rightarrow> string option \<Rightarrow> 'net option" where
  "parse_cidr na cidr = (case cidr of None \<Rightarrow> None | Some c \<Rightarrow> if c = [] then None else IPNetwork na c)"

text \<open>
  \<^verbatim>\<open>subnet['network_id']\<close>: the dictionaries that reach this call, those of the core plugin and the
  one \<open>inject\<close> builds, have the key; a missing one is the \<^verbatim>\<open>KeyError\<close> of \<open>the_key\<close>.
\<close>

definition compute_service_routes ::
    "('ip, 'net) netaddr \<Rightarrow> ovn_const \<Rightarrow> 'w core_plugin \<Rightarrow> subnet \<Rightarrow> service_dict list \<Rightarrow>
     ('w, route list \<times> string option) act" where
  "compute_service_routes na oc cp subnet services =
     bnd (the_key ''network_id'' (sn_network_id subnet)) (\<lambda>network_id.
     bnd (find_port oc cp network_id) (\<lambda>port.
       case port of
         None \<Rightarrow> ret ([], None)
       | Some p \<Rightarrow>
           (case localport_ipv4_in_subnet p subnet of
              None \<Rightarrow> ret ([], None)
            | Some nexthop \<Rightarrow>
                (let subnet_net = parse_cidr na (dget (sn_cidr subnet))
                 in ret (service_routes na subnet_net nexthop services, Some nexthop)))))"

fun merge_loop :: "string option list \<Rightarrow> string option \<Rightarrow> route list \<Rightarrow> route list" where
  "merge_loop desired_dests nexthop [] = []"
| "merge_loop desired_dests nexthop (r # rs) =
     (let dest = rt_destination r
      in if rt_nexthop r = nexthop \<and> dest \<notin> set desired_dests then merge_loop desired_dests nexthop rs
         else if dest \<in> set desired_dests then merge_loop desired_dests nexthop rs
         else r # merge_loop desired_dests nexthop rs)"

definition merge :: "route list \<Rightarrow> route list \<Rightarrow> string option \<Rightarrow> route list" where
  "merge existing routes nexthop =
     (let desired_dests = map rt_destination routes
      in merge_loop desired_dests nexthop existing @ routes)"

definition norm_routes :: "route list \<Rightarrow> (string \<times> string) list" where
  "norm_routes lst =
     sort (map (\<lambda>r. (the (rt_destination r), the (rt_nexthop r)))
             (filter (\<lambda>r. truthy_str (rt_destination r) \<and> truthy_str (rt_nexthop r)) lst))"

definition routes_equal :: "route list \<Rightarrow> route list \<Rightarrow> bool" where
  "routes_equal a b = (norm_routes a = norm_routes b)"

text \<open>\<^verbatim>\<open>b['service_id']\<close> of a binding dictionary of the catalog, which always has the key.\<close>

definition bound_service :: "binding_dict \<Rightarrow> string" where
  "bound_service b = (case nd_service_id b of Some s \<Rightarrow> s | None \<Rightarrow> [])"

text \<open>The two loops of \<^verbatim>\<open>_enabled_services_for_network\<close>; \<open>seen\<close> holds the ids already taken.\<close>

fun explicit_services :: "db \<Rightarrow> string list \<Rightarrow> service_dict list \<times> string list \<Rightarrow> service_dict list \<times> string list" where
  "explicit_services d [] acc = acc"
| "explicit_services d (sid # sids) (services, seen) =
     (case get_local_service d sid of
        Inl _ \<Rightarrow> explicit_services d sids (services, seen)
      | Inr svc \<Rightarrow>
          if get_enabled (sd_enabled svc) \<and> sid \<notin> set seen
          then explicit_services d sids (services @ [svc], sid # seen)
          else explicit_services d sids (services, seen))"

fun implicit_services :: "string list \<Rightarrow> service_dict list \<Rightarrow> service_dict list \<times> string list \<Rightarrow> service_dict list" where
  "implicit_services excluded [] (services, seen) = services"
| "implicit_services excluded (svc # svcs) (services, seen) =
     (let sid = (case sd_id svc of Some s \<Rightarrow> s | None \<Rightarrow> [])
      in if sid \<in> set excluded \<or> sid \<in> set seen then implicit_services excluded svcs (services, seen)
         else implicit_services excluded svcs (services @ [svc], sid # seen))"

definition enabled_services_for_network ::
    "(string list \<Rightarrow> string list) \<Rightarrow> ctx_scope \<Rightarrow> db \<Rightarrow> string \<Rightarrow> service_dict list" where
  "enabled_services_for_network set_order ctx d network_id =
     (let bindings = get_local_service_bindings ctx
            \<lparr>nf_service_id = None, nf_network_id = Some [network_id], nf_enabled = None\<rparr> d;
          enabled_svc_ids = set_order (map bound_service (filter (\<lambda>b. get_enabled (nd_enabled b)) bindings));
          excluded_svc_ids = map bound_service (filter (\<lambda>b. \<not> get_enabled (nd_enabled b)) bindings);
          opt_out = get_local_services ctx
            \<lparr>sf_attachment_policy = Some [ATTACH_OPT_OUT], sf_enabled = Some [True]\<rparr> d
      in implicit_services excluded_svc_ids opt_out (explicit_services d enabled_svc_ids ([], [])))"

text \<open>
  The overlap check: the services in order, for each its IPv4 then its IPv6 VIP. An overlap
  with an explicitly bound service raises; the reads of the catalog do not raise here.
\<close>

fun refuse_vips :: "('ip, 'net) netaddr \<Rightarrow> 'net \<Rightarrow> string \<Rightarrow> string list \<Rightarrow> string \<Rightarrow> string option list \<Rightarrow> exc + unit" where
  "refuse_vips na net cidr explicit sid [] = Inr ()"
| "refuse_vips na net cidr explicit sid (v # vs) =
     (if \<not> truthy_str v then refuse_vips na net cidr explicit sid vs
      else case IPAddress na (the v) of
             None \<Rightarrow> refuse_vips na net cidr explicit sid vs
           | Some vip \<Rightarrow>
               if \<not> same_family_in na vip net then refuse_vips na net cidr explicit sid vs
               else if sid \<in> set explicit then Inl (SubnetOverlapsServiceVIPError cidr sid)
               else refuse_vips na net cidr explicit sid vs)"

fun refuse_services :: "('ip, 'net) netaddr \<Rightarrow> 'net \<Rightarrow> string \<Rightarrow> string list \<Rightarrow> service_dict list \<Rightarrow> exc + unit" where
  "refuse_services na net cidr explicit [] = Inr ()"
| "refuse_services na net cidr explicit (svc # svcs) =
     (case refuse_vips na net cidr explicit (case sd_id svc of Some s \<Rightarrow> s | None \<Rightarrow> [])
             [sd_local_ipv4 svc, sd_local_ipv6 svc] of
        Inl e \<Rightarrow> Inl e
      | Inr _ \<Rightarrow> refuse_services na net cidr explicit svcs)"

definition refuse_overlap_with_attached_vips ::
    "('ip, 'net) netaddr \<Rightarrow> (string list \<Rightarrow> string list) \<Rightarrow> ctx_scope \<Rightarrow> db \<Rightarrow> subnet \<Rightarrow> subnet \<Rightarrow> exc + unit" where
  "refuse_overlap_with_attached_vips na set_order ctx d lookup target =
     (case (sn_network_id lookup, or_str (dget (sn_cidr target)) (dget (sn_cidr lookup))) of
        (Some network_id, Some cidr) \<Rightarrow>
          if network_id = [] \<or> cidr = [] then Inr ()
          else
            (case IPNetwork na cidr of
               None \<Rightarrow> Inr ()
             | Some net \<Rightarrow>
                 (let bindings = get_local_service_bindings ctx
                        \<lparr>nf_service_id = None, nf_network_id = Some [network_id], nf_enabled = Some [True]\<rparr> d;
                      explicit_svc_ids = map bound_service bindings;
                      services = enabled_services_for_network set_order ctx d network_id
                  in refuse_services na net cidr explicit_svc_ids services))
      | _ \<Rightarrow> Inr ())"

text \<open>\<open>inject\<close> returns the target dictionary as it leaves it.\<close>

definition inject ::
    "('ip, 'net) netaddr \<Rightarrow> ovn_const \<Rightarrow> (string list \<Rightarrow> string list) \<Rightarrow> ctx_scope \<Rightarrow> db \<Rightarrow> 'w core_plugin \<Rightarrow>
     subnet \<Rightarrow> subnet \<Rightarrow> ('w, subnet) act" where
  "inject na oc set_order ctx d cp subnet_for_lookup target =
     (if \<not> truthy_str (sn_network_id subnet_for_lookup) then ret target
      else
        (let network_id = the (sn_network_id subnet_for_lookup);
             subnet_dict =
               \<lparr>sn_id = or_str (sn_id subnet_for_lookup) (sn_id target),
                sn_network_id = Some network_id,
                sn_cidr = Some (or_str (dget (sn_cidr target)) (dget (sn_cidr subnet_for_lookup))),
                sn_host_routes = None, sn_ip_version = None, sn_enable_dhcp = None\<rparr>;
             services = enabled_services_for_network set_order ctx d network_id
         in if services = [] then ret target
            else
              bnd (compute_service_routes na oc cp subnet_dict services) (\<lambda>(routes, nexthop).
                if routes = [] then ret target
                else
                  (let existing = routes_of target;
                       merged = merge existing routes nexthop
                   in if \<not> routes_equal merged existing
                      then ret (target\<lparr>sn_host_routes := Some (Some merged)\<rparr>)
                      else ret target))))"

text \<open>
  The handlers. \<open>None\<close> is a payload whose states are missing, too few or not a dictionary. The
  result is the dictionary the core plugin goes on with.
\<close>

definition lift_check :: "exc + 'a \<Rightarrow> ('w, 'a) act" where
  "lift_check r = (case r of Inl e \<Rightarrow> raise e | Inr x \<Rightarrow> ret x)"

definition on_before_create ::
    "('ip, 'net) netaddr \<Rightarrow> ovn_const \<Rightarrow> (string list \<Rightarrow> string list) \<Rightarrow> ctx_scope \<Rightarrow> db \<Rightarrow> 'w core_plugin \<Rightarrow>
     subnet option \<Rightarrow> ('w, subnet option) act" where
  "on_before_create na oc set_order ctx d cp states =
     (case states of
        None \<Rightarrow> ret None
      | Some subnet_data \<Rightarrow>
          andthen (lift_check (refuse_overlap_with_attached_vips na set_order ctx d subnet_data subnet_data))
            (bnd (inject na oc set_order ctx d cp subnet_data subnet_data) (\<lambda>t. ret (Some t))))"

definition on_before_update ::
    "('ip, 'net) netaddr \<Rightarrow> ovn_const \<Rightarrow> (string list \<Rightarrow> string list) \<Rightarrow> ctx_scope \<Rightarrow> db \<Rightarrow> 'w core_plugin \<Rightarrow>
     (subnet \<times> subnet) option \<Rightarrow> ('w, subnet option) act" where
  "on_before_update na oc set_order ctx d cp states =
     (case states of
        None \<Rightarrow> ret None
      | Some (orig, patch) \<Rightarrow>
          andthen
            (if sn_cidr patch \<noteq> None
             then lift_check (refuse_overlap_with_attached_vips na set_order ctx d orig patch)
             else ret ())
            (if sn_host_routes patch = None then ret (Some patch)
             else bnd (inject na oc set_order ctx d cp orig patch) (\<lambda>t. ret (Some t))))"

section \<open>Lemmas\<close>

subsection \<open>Merging routes\<close>

text \<open>A route of the tenant: not via our nexthop and not to a destination we publish.\<close>

definition tenant_route :: "route list \<Rightarrow> string option \<Rightarrow> route \<Rightarrow> bool" where
  "tenant_route routes nexthop r \<longleftrightarrow>
     rt_nexthop r \<noteq> nexthop \<and> rt_destination r \<notin> rt_destination ` set routes"

lemma merge_loop_filter:
  "merge_loop dests nexthop rs = filter (\<lambda>r. rt_nexthop r \<noteq> nexthop \<and> rt_destination r \<notin> set dests) rs"
  by (induction rs) (auto simp: Let_def)

lemma merge_eq: "merge existing routes nexthop = filter (tenant_route routes nexthop) existing @ routes"
  by (simp add: merge_def merge_loop_filter tenant_route_def[abs_def])

lemma no_tenant_in_routes: "filter (tenant_route routes nexthop) routes = []"
  by (rule filter_none) (simp add: tenant_route_def)

lemma merge_idem: "merge (merge existing routes nexthop) routes nexthop = merge existing routes nexthop"
  by (simp add: merge_eq no_tenant_in_routes)

lemma merge_again:
  assumes "\<And>r. r \<in> set old \<Longrightarrow> rt_nexthop r = nexthop"
  shows "merge (merge existing old nexthop) new nexthop =
    filter (\<lambda>r. tenant_route old nexthop r \<and> tenant_route new nexthop r) existing @ new"
proof -
  have "filter (tenant_route new nexthop) old = []"
    by (rule filter_none) (simp add: tenant_route_def assms)
  then show ?thesis by (simp add: merge_eq conj_commute)
qed

subsection \<open>Comparing routes\<close>

definition usable_pairs :: "route list \<Rightarrow> (string \<times> string) list" where
  "usable_pairs lst = map (\<lambda>r. (the (rt_destination r), the (rt_nexthop r)))
     (filter (\<lambda>r. truthy_str (rt_destination r) \<and> truthy_str (rt_nexthop r)) lst)"

lemma norm_routes_sort: "norm_routes lst = sort (usable_pairs lst)"
  by (simp add: norm_routes_def usable_pairs_def)

lemma sort_eq_iff_mset: "sort xs = sort ys \<longleftrightarrow> mset xs = mset (ys :: 'a :: linorder list)"
  by (metis mset_sort properties_for_sort sorted_sort)

lemma routes_equal_mset: "routes_equal a b \<longleftrightarrow> mset (usable_pairs a) = mset (usable_pairs b)"
  by (simp add: routes_equal_def norm_routes_sort sort_eq_iff_mset)

lemma routes_equal_refl [simp]: "routes_equal a a"
  by (simp add: routes_equal_def)

lemma usable_pairs_mem:
  "(x, y) \<in> set (usable_pairs rs) \<longleftrightarrow>
     x \<noteq> [] \<and> y \<noteq> [] \<and> (\<exists>r \<in> set rs. rt_destination r = Some x \<and> rt_nexthop r = Some y)"
  by (force simp: usable_pairs_def truthy_str_iff image_iff)

subsection \<open>The routes of a subnet\<close>

text \<open>A service whose VIP may be published in a subnet with the parsed CIDR \<open>net\<close>.\<close>

definition publishable :: "('ip, 'net) netaddr \<Rightarrow> 'net option \<Rightarrow> service_dict \<Rightarrow> bool" where
  "publishable na net svc \<longleftrightarrow> truthy_str (sd_local_ipv4 svc) \<and> get_enabled (sd_enabled svc)
     \<and> (\<forall>n. net = Some n \<longrightarrow>
          (\<exists>ip. IPAddress na (the (sd_local_ipv4 svc)) = Some ip \<and> \<not> same_family_in na ip n))"

lemma service_routes_filter:
  "service_routes na net nexthop svcs =
     map (\<lambda>s. service_route (the (sd_local_ipv4 s)) nexthop) (filter (publishable na net) svcs)"
  by (induction svcs) (auto simp: publishable_def split: option.splits)

lemma service_routes_nexthop: "r \<in> set (service_routes na net nexthop svcs) \<Longrightarrow> rt_nexthop r = Some nexthop"
  by (auto simp: service_routes_filter service_route_def)

text \<open>The nexthop a subnet's routes use: the address of our port in that subnet.\<close>

definition subnet_nexthop :: "ovn_const \<Rightarrow> port list \<Rightarrow> subnet \<Rightarrow> string option" where
  "subnet_nexthop oc ports subnet =
     (case our_ports oc (the (sn_network_id subnet)) ports of
        [] \<Rightarrow> None | p # _ \<Rightarrow> localport_ipv4_in_subnet p subnet)"

definition subnet_routes :: "('ip, 'net) netaddr \<Rightarrow> ovn_const \<Rightarrow> port list \<Rightarrow> subnet \<Rightarrow> service_dict list \<Rightarrow> route list" where
  "subnet_routes na oc ports subnet services =
     (case subnet_nexthop oc ports subnet of
        None \<Rightarrow> []
      | Some nh \<Rightarrow> service_routes na (parse_cidr na (dget (sn_cidr subnet))) nh services)"

lemma compute_service_routes_run:
  assumes "core_ok cp ports subnets" "sn_network_id subnet = Some n"
  shows "compute_service_routes na oc cp subnet services w =
    (Inr (subnet_routes na oc (ports w) subnet services, subnet_nexthop oc (ports w) subnet), w)"
  by (simp add: compute_service_routes_def the_key_def assms(2) find_port_run[OF assms(1)]
      subnet_routes_def subnet_nexthop_def Let_def split: list.split option.split)

lemma subnet_routes_nexthop:
  "r \<in> set (subnet_routes na oc ports subnet services) \<Longrightarrow>
     rt_nexthop r = subnet_nexthop oc ports subnet \<and> rt_nexthop r \<noteq> None"
  by (auto simp: subnet_routes_def dest!: service_routes_nexthop split: option.splits)

subsection \<open>Attached services\<close>

definition has_binding :: "ctx_scope \<Rightarrow> db \<Rightarrow> string \<Rightarrow> service \<Rightarrow> bool \<Rightarrow> bool" where
  "has_binding ctx d n s en \<longleftrightarrow> (\<exists>b \<in> set (db_bindings d). ctx (bi_project_id b)
     \<and> bi_network_id b = n \<and> bi_service_id b = svc_id s \<and> bi_enabled b = en)"

definition attached :: "ctx_scope \<Rightarrow> db \<Rightarrow> string \<Rightarrow> service \<Rightarrow> bool" where
  "attached ctx d n s \<longleftrightarrow> svc_enabled s
     \<and> (has_binding ctx d n s True
        \<or> svc_attachment_policy s = ATTACH_OPT_OUT \<and> ctx (svc_project_id s) \<and> \<not> has_binding ctx d n s False)"

definition found_enabled :: "db \<Rightarrow> string \<Rightarrow> service_dict option" where
  "found_enabled d sid = (case get_local_service d sid of
     Inl _ \<Rightarrow> None | Inr svc \<Rightarrow> if get_enabled (sd_enabled svc) then Some svc else None)"

lemma explicit_services_eq:
  assumes "distinct sids" "set sids \<inter> set seen = {}"
  shows "fst (explicit_services d sids (svs, seen)) = svs @ List.map_filter (found_enabled d) sids
    \<and> set (snd (explicit_services d sids (svs, seen))) = set seen \<union> {sid \<in> set sids. found_enabled d sid \<noteq> None}"
  using assms
proof (induction d sids "(svs, seen)" arbitrary: svs seen rule: explicit_services.induct)
  case (2 d sid sids svs seen)
  then show ?case
    by (cases "get_local_service d sid")
      (auto simp: found_enabled_def List.map_filter_simps)
qed (simp add: List.map_filter_simps)

abbreviation dict_key :: "service_dict \<Rightarrow> string" where
  "dict_key svc \<equiv> (case sd_id svc of Some s \<Rightarrow> s | None \<Rightarrow> [])"

lemma implicit_services_eq:
  assumes "distinct (map dict_key svcs)"
  shows "implicit_services ex svcs (services, seen) =
    services @ filter (\<lambda>s. dict_key s \<notin> set ex \<and> dict_key s \<notin> set seen) svcs"
  using assms
proof (induction ex svcs "(services, seen)" arbitrary: services seen rule: implicit_services.induct)
  case (2 ex svc svcs services seen)
  have "filter (\<lambda>s. dict_key s \<notin> set ex \<and> dict_key s \<notin> insert (dict_key svc) (set seen)) svcs
      = filter (\<lambda>s. dict_key s \<notin> set ex \<and> dict_key s \<notin> set seen) svcs"
    using 2(3) by (intro filter_cong) (auto simp: image_iff)
  then show ?case using 2 by (auto simp: Let_def)
qed simp

lemma make_service_dict_sel [simp]:
  "sd_id (make_service_dict s) = Some (svc_id s)" "sd_enabled (make_service_dict s) = Some (svc_enabled s)"
  "sd_local_ipv4 (make_service_dict s) = svc_local_ipv4 s" "sd_local_ipv6 (make_service_dict s) = svc_local_ipv6 s"
  "sd_project_id (make_service_dict s) = svc_project_id s"
  "sd_attachment_policy (make_service_dict s) = Some (svc_attachment_policy s)"
  by (simp_all add: make_service_dict_def)

lemma make_binding_dict_sel [simp]:
  "bound_service (make_binding_dict b) = bi_service_id b" "nd_enabled (make_binding_dict b) = Some (bi_enabled b)"
  "nd_network_id (make_binding_dict b) = Some (bi_network_id b)" "nd_id (make_binding_dict b) = Some (bi_id b)"
  "nd_service_id (make_binding_dict b) = Some (bi_service_id b)"
  by (simp_all add: make_binding_dict_def bound_service_def)

lemma get_local_service_iff:
  "db_wf d \<Longrightarrow> get_local_service d i = Inr x \<longleftrightarrow>
     (\<exists>s \<in> set (db_services d). svc_id s = i \<and> x = make_service_dict s)"
proof -
  assume "db_wf d"
  have "get_local_service d i = Inr x \<longleftrightarrow> (\<exists>s. get_service_or_raise d i = Inr s \<and> x = make_service_dict s)"
    by (cases "get_service_or_raise d i") (auto simp: get_local_service_def map_sum.simps)
  also have "\<dots> \<longleftrightarrow> (\<exists>s \<in> set (db_services d). svc_id s = i \<and> x = make_service_dict s)"
    by (auto simp: svcs.fetch_iff[OF \<open>db_wf d\<close>])
  finally show ?thesis .
qed

lemma found_enabled_iff:
  "db_wf d \<Longrightarrow> found_enabled d i = Some x \<longleftrightarrow>
     (\<exists>s \<in> set (db_services d). svc_id s = i \<and> svc_enabled s \<and> x = make_service_dict s)"
proof -
  assume "db_wf d"
  have "found_enabled d i = Some x \<longleftrightarrow> get_local_service d i = Inr x \<and> get_enabled (sd_enabled x)"
    by (cases "get_local_service d i") (auto simp: found_enabled_def)
  also have "\<dots> \<longleftrightarrow> (\<exists>s \<in> set (db_services d). svc_id s = i \<and> svc_enabled s \<and> x = make_service_dict s)"
    by (auto simp: get_local_service_iff[OF \<open>db_wf d\<close>])
  finally show ?thesis .
qed

lemma bound_ids:
  "set (map bound_service (filter (\<lambda>b. get_enabled (nd_enabled b)) (get_local_service_bindings ctx
      \<lparr>nf_service_id = None, nf_network_id = Some [n], nf_enabled = None\<rparr> d))) =
     {bi_service_id b | b. b \<in> set (db_bindings d) \<and> ctx (bi_project_id b) \<and> bi_network_id b = n \<and> bi_enabled b}"
  "set (map bound_service (filter (\<lambda>b. \<not> get_enabled (nd_enabled b)) (get_local_service_bindings ctx
      \<lparr>nf_service_id = None, nf_network_id = Some [n], nf_enabled = None\<rparr> d))) =
     {bi_service_id b | b. b \<in> set (db_bindings d) \<and> ctx (bi_project_id b) \<and> bi_network_id b = n \<and> \<not> bi_enabled b}"
  by (auto simp: get_local_service_bindings_def collection_query_def among_def filter_map o_def image_iff)

lemma opt_out_services:
  "get_local_services ctx \<lparr>sf_attachment_policy = Some [ATTACH_OPT_OUT], sf_enabled = Some [True]\<rparr> d =
     map make_service_dict (filter (\<lambda>s. ctx (svc_project_id s) \<and> svc_attachment_policy s = ATTACH_OPT_OUT \<and> svc_enabled s)
       (db_services d))"
  by (simp add: get_local_services_def collection_query_def among_def conj_commute conj_left_commute)

lemma opt_out_keys: "db_wf d \<Longrightarrow> distinct (map dict_key (map make_service_dict (filter P (db_services d))))"
  using svcs.wf_keys[of d] by (simp add: o_def distinct_map_filter)

lemma binding_states_exclude:
  assumes "db_wf d" "has_binding ctx d n s True" "has_binding ctx d n s False"
  shows False
proof -
  have "uniq bi_id binding_alt (set (db_bindings d))" "distinct (map bi_id (db_bindings d))"
    using assms(1) by (simp_all add: db_wf_def table_wf_def)
  moreover obtain b c where "b \<in> set (db_bindings d)" "c \<in> set (db_bindings d)" "bi_enabled b" "\<not> bi_enabled c"
      "binding_alt b = binding_alt c" "binding_alt b \<noteq> None"
    using assms(2,3) by (auto simp: has_binding_def binding_alt_def)
  ultimately show False unfolding uniq_def distinct_map inj_on_def by metis
qed

lemma map_filter_keys:
  assumes "\<And>i x. f i = Some x \<Longrightarrow> key x = Some i"
  shows "map key (List.map_filter f is) = map Some (filter (\<lambda>i. f i \<noteq> None) is)"
  using assms by (induction "is") (auto simp: List.map_filter_simps split: option.splits)

lemma mem_map_filter: "y \<in> set (List.map_filter f xs) \<longleftrightarrow> (\<exists>x \<in> set xs. f x = Some y)"
  by (induction xs) (auto simp: List.map_filter_simps split: option.splits)

text \<open>The two loops together compute exactly the attached services, each once.\<close>

lemma enabled_services_eq:
  assumes wf: "db_wf d" and so: "set_order_ok set_order"
  shows "set (enabled_services_for_network set_order ctx d n) =
      make_service_dict ` {s \<in> set (db_services d). attached ctx d n s}"
    and "distinct (map sd_id (enabled_services_for_network set_order ctx d n))"
proof -
  define B where "B = get_local_service_bindings ctx
      \<lparr>nf_service_id = None, nf_network_id = Some [n], nf_enabled = None\<rparr> d"
  define on where "on = set_order (map bound_service (filter (\<lambda>b. get_enabled (nd_enabled b)) B))"
  define off where "off = map bound_service (filter (\<lambda>b. \<not> get_enabled (nd_enabled b)) B)"
  define outs where "outs = filter (\<lambda>s. ctx (svc_project_id s) \<and> svc_attachment_policy s = ATTACH_OPT_OUT \<and> svc_enabled s)
       (db_services d)"
  define ex where "ex = explicit_services d on ([], [])"
  have on: "set on = {bi_service_id b | b. b \<in> set (db_bindings d) \<and> ctx (bi_project_id b) \<and> bi_network_id b = n \<and> bi_enabled b}"
      "distinct on"
    using so bound_ids(1)[of ctx n d] by (simp_all add: on_def B_def set_order_ok_def)
  have off: "set off = {bi_service_id b | b. b \<in> set (db_bindings d) \<and> ctx (bi_project_id b) \<and> bi_network_id b = n \<and> \<not> bi_enabled b}"
    using bound_ids(2)[of ctx n d] by (simp add: off_def B_def)
  have ex: "fst ex = List.map_filter (found_enabled d) on" "set (snd ex) = {sid \<in> set on. found_enabled d sid \<noteq> None}"
    using explicit_services_eq[OF on(2), of "[]" d "[]"] by (simp_all add: ex_def)
  have eq: "enabled_services_for_network set_order ctx d n =
      fst ex @ filter (\<lambda>s. dict_key s \<notin> set off \<and> dict_key s \<notin> set (snd ex)) (map make_service_dict outs)"
    unfolding enabled_services_for_network_def B_def[symmetric] Let_def opt_out_services
      on_def[symmetric] off_def[symmetric] outs_def[symmetric] ex_def[symmetric]
    using implicit_services_eq[OF opt_out_keys[OF wf], where services = "fst ex" and seen = "snd ex"] by (simp add: outs_def)
  have has: "has_binding ctx d n s True \<longleftrightarrow> svc_id s \<in> set on" "has_binding ctx d n s False \<longleftrightarrow> svc_id s \<in> set off" for s
    by (simp_all add: has_binding_def on(1) off) metis+
  have seen: "svc_id s \<in> set (snd ex) \<longleftrightarrow> svc_id s \<in> set on \<and> svc_enabled s" if "s \<in> set (db_services d)" for s
    using that svcs.wf_keys[OF wf] found_enabled_iff[OF wf, of "svc_id s"]
    by (auto simp: ex(2) distinct_map inj_on_def)
  show "set (enabled_services_for_network set_order ctx d n) =
      make_service_dict ` {s \<in> set (db_services d). attached ctx d n s}"
  proof (intro set_eqI)
    fix x
    have "x \<in> set (fst ex) \<longleftrightarrow> (\<exists>s \<in> set (db_services d). x = make_service_dict s \<and> svc_enabled s \<and> svc_id s \<in> set on)"
      by (auto simp: ex(1) mem_map_filter found_enabled_iff[OF wf])
    moreover have "x \<in> set (filter (\<lambda>s. dict_key s \<notin> set off \<and> dict_key s \<notin> set (snd ex)) (map make_service_dict outs)) \<longleftrightarrow>
        (\<exists>s \<in> set (db_services d). x = make_service_dict s \<and> svc_enabled s \<and> svc_id s \<notin> set on
          \<and> svc_attachment_policy s = ATTACH_OPT_OUT \<and> ctx (svc_project_id s) \<and> svc_id s \<notin> set off)"
      using seen by (auto simp: outs_def)
    ultimately show "x \<in> set (enabled_services_for_network set_order ctx d n) \<longleftrightarrow>
        x \<in> make_service_dict ` {s \<in> set (db_services d). attached ctx d n s}"
      unfolding eq set_append Un_iff attached_def has by blast
  qed
  have keys: "map sd_id (fst ex) = map Some (filter (\<lambda>i. found_enabled d i \<noteq> None) on)"
    unfolding ex(1) by (rule map_filter_keys) (auto simp: found_enabled_iff[OF wf])
  have "distinct (map sd_id (map make_service_dict outs))"
    using svcs.wf_keys[OF wf] by (simp add: outs_def o_def distinct_map_filter distinct_map inj_on_def)
  then show "distinct (map sd_id (enabled_services_for_network set_order ctx d n))"
    using on(2) unfolding eq by (auto simp: keys distinct_map_filter distinct_map ex(2) filter_map
        elim: inj_on_subset)
qed

subsection \<open>The overlap check\<close>

definition vip_in :: "('ip, 'net) netaddr \<Rightarrow> 'net \<Rightarrow> string option \<Rightarrow> bool" where
  "vip_in na net v \<longleftrightarrow> truthy_str v \<and> (\<exists>ip. IPAddress na (the v) = Some ip \<and> same_family_in na ip net)"

lemma refuse_vips_eq:
  "refuse_vips na net cidr explicit sid vs =
     (if sid \<in> set explicit \<and> (\<exists>v \<in> set vs. vip_in na net v)
      then Inl (SubnetOverlapsServiceVIPError cidr sid) else Inr ())"
  by (induction vs) (auto simp: vip_in_def split: option.splits)

lemma refuse_services_ok:
  "refuse_services na net cidr explicit svcs = Inr () \<longleftrightarrow>
     (\<forall>svc \<in> set svcs. dict_key svc \<in> set explicit \<longrightarrow>
        \<not> vip_in na net (sd_local_ipv4 svc) \<and> \<not> vip_in na net (sd_local_ipv6 svc))"
  by (induction svcs) (auto simp: refuse_vips_eq)

lemma refuse_services_error:
  "refuse_services na net cidr explicit svcs = Inl e \<Longrightarrow>
     \<exists>svc \<in> set svcs. dict_key svc \<in> set explicit \<and> e = SubnetOverlapsServiceVIPError cidr (dict_key svc)"
  by (induction svcs) (auto simp: refuse_vips_eq split: if_splits)

text \<open>The ids the check treats as explicit: those with a visible enabled binding.\<close>

lemma explicit_ids:
  "svc_id s \<in> set (map bound_service (get_local_service_bindings ctx
      \<lparr>nf_service_id = None, nf_network_id = Some [n], nf_enabled = Some [True]\<rparr> d)) \<longleftrightarrow> has_binding ctx d n s True"
  by (auto simp: get_local_service_bindings_def collection_query_def among_def has_binding_def image_iff o_def)

lemma refuse_overlap_ok:
  assumes wf: "db_wf d" and so: "set_order_ok set_order"
    and n: "sn_network_id lookup = Some n" "n \<noteq> []"
    and c: "or_str (dget (sn_cidr target)) (dget (sn_cidr lookup)) = Some cidr" "cidr \<noteq> []"
    and net: "IPNetwork na cidr = Some net"
  shows "refuse_overlap_with_attached_vips na set_order ctx d lookup target = Inr () \<longleftrightarrow>
    (\<forall>s \<in> set (db_services d). svc_enabled s \<and> has_binding ctx d n s True \<longrightarrow>
       \<not> vip_in na net (svc_local_ipv4 s) \<and> \<not> vip_in na net (svc_local_ipv6 s))"
proof -
  let ?E = "map bound_service (get_local_service_bindings ctx
      \<lparr>nf_service_id = None, nf_network_id = Some [n], nf_enabled = Some [True]\<rparr> d)"
  have eq: "refuse_overlap_with_attached_vips na set_order ctx d lookup target =
      refuse_services na net cidr ?E (enabled_services_for_network set_order ctx d n)"
    using n c net by (simp add: refuse_overlap_with_attached_vips_def)
  show ?thesis
    unfolding eq refuse_services_ok enabled_services_eq(1)[OF wf so]
    using explicit_ids[of _ ctx n d] by (auto simp del: set_map simp: attached_def)
qed

subsection \<open>Injection\<close>

text \<open>The dictionary \<open>inject\<close> looks up agrees with the subnet on what the routes depend on.\<close>

lemma subnet_routes_cong:
  assumes "sn_id s = sn_id t" "sn_network_id s = sn_network_id t" "dget (sn_cidr s) = dget (sn_cidr t)"
  shows "subnet_nexthop oc ps s = subnet_nexthop oc ps t" "subnet_routes na oc ps s svcs = subnet_routes na oc ps t svcs"
proof -
  have "localport_ipv4_in_subnet p s = localport_ipv4_in_subnet p t" for p
    by (simp add: localport_ipv4_in_subnet_def assms(1))
  then show "subnet_nexthop oc ps s = subnet_nexthop oc ps t"
    by (simp add: subnet_nexthop_def assms(2) split: list.split)
  then show "subnet_routes na oc ps s svcs = subnet_routes na oc ps t svcs"
    by (simp add: subnet_routes_def assms(3) split: option.split)
qed

definition lookup_dict :: "subnet \<Rightarrow> subnet \<Rightarrow> subnet" where
  "lookup_dict look target =
     \<lparr>sn_id = or_str (sn_id look) (sn_id target), sn_network_id = sn_network_id look,
      sn_cidr = Some (or_str (dget (sn_cidr target)) (dget (sn_cidr look))),
      sn_host_routes = None, sn_ip_version = None, sn_enable_dhcp = None\<rparr>"

lemma inject_run:
  assumes cp: "core_ok cp ports subnets" and n: "sn_network_id look = Some n" "n \<noteq> []"
  shows "inject na oc set_order ctx d cp look target w =
    (let svcs = enabled_services_for_network set_order ctx d n;
         routes = subnet_routes na oc (ports w) (lookup_dict look target) svcs;
         merged = merge (routes_of target) routes (subnet_nexthop oc (ports w) (lookup_dict look target))
     in (Inr (if routes = [] \<or> routes_equal merged (routes_of target) then target
              else target\<lparr>sn_host_routes := Some (Some merged)\<rparr>), w))"
proof -
  have none: "subnet_routes na oc ps s [] = []" for ps s
    by (simp add: subnet_routes_def split: option.splits)
  show ?thesis
    using n compute_service_routes_run[OF cp, of "lookup_dict look target" n na oc _ w]
    by (auto simp: inject_def lookup_dict_def Let_def none)
qed

section \<open>Properties\<close>

subsection \<open>A small deployment\<close>

text \<open>
  Network \<open>n1\<close> with one subnet, an opt-out service of the operator's project and its localport;
  the witnesses evaluate the definitions here.
\<close>

definition demo_oc :: ovn_const where
  "demo_oc = \<lparr>OVN_DEVID_EXT_ID_KEY = ''neutron:device_id'', OVN_CIDRS_EXT_ID_KEY = ''neutron:cidrs'',
     OVN_NETWORK_MTU_EXT_ID_KEY = ''neutron:mtu'', OVN_LB_HM_PORT_DISTRIBUTED = ''ovn-lb-hm:distributed'',
     LSP_TYPE_LOCALPORT = ''localport''\<rparr>"

definition demo_service :: service where
  "demo_service =
     \<lparr>svc_id = ''s1'', svc_project_id = Some ''admin'', svc_name = ''dns'', svc_description = None,
      svc_local_ipv4 = Some ''169.254.1.53'', svc_local_ipv6 = None, svc_protocol = PROTO_UDP,
      svc_port = 53, svc_attachment_policy = ATTACH_OPT_OUT, svc_distribution_policy = DIST_ROUND_ROBIN,
      svc_exposure_plugin = EXPOSURE_NAT, svc_health_check_type = HC_NONE,
      svc_health_check_config = None, svc_enabled = True\<rparr>"

definition demo_db :: db where
  "demo_db = \<lparr>db_services = [demo_service], db_backends = [], db_bindings = [], db_networks = [''n1'']\<rparr>"

definition demo_subnet :: subnet where
  "demo_subnet = \<lparr>sn_id = Some ''sub1'', sn_network_id = Some ''n1'', sn_cidr = Some (Some ''10.0.0.0/24''),
     sn_host_routes = Some (Some []), sn_ip_version = Some 4, sn_enable_dhcp = Some True\<rparr>"

definition demo_port :: port where
  "demo_port = \<lparr>port_id = ''p'', port_network_id = ''n1'', port_device_owner = Some ''ovn-lb-hm:distributed'',
     port_device_id = Some (device_id_for ''n1''),
     port_fixed_ips = [\<lparr>fip_subnet_id = Some ''sub1'', fip_ip_address = Some ''10.0.0.2''\<rparr>]\<rparr>"

definition demo_mem :: mem where
  "demo_mem = \<lparr>mem_ports = [demo_port], mem_subnets = [demo_subnet]\<rparr>"

lemmas demo_defs = demo_oc_def demo_service_def demo_db_def demo_subnet_def demo_port_def demo_mem_def

lemma demo_db_wf: "db_wf demo_db"
  by (simp add: db_wf_def table_wf_def uniq_def service_row_ok_def port_range_def demo_defs const_defs)

lemma remdups_order: "set_order_ok remdups"
  by (simp add: set_order_ok_def)

lemma demo_services:
  "enabled_services_for_network remdups (\<lambda>_. True) demo_db ''n1'' = [make_service_dict demo_service]"
  by (simp add: enabled_services_for_network_def get_local_service_bindings_def get_local_services_def
      collection_query_def among_def demo_defs const_defs Let_def)

lemma demo_port_ours: "port_matches ''n1'' (OVN_LB_HM_PORT_DISTRIBUTED demo_oc) (device_id_for ''n1'') demo_port"
  by (simp add: port_matches_def demo_defs)

lemma demo_routes:
  "subnet_nexthop demo_oc [demo_port] demo_subnet = Some ''10.0.0.2''"
  "subnet_routes netaddr_v4 demo_oc [demo_port] demo_subnet [make_service_dict demo_service] =
     [service_route ''169.254.1.53'' ''10.0.0.2'']"
proof -
  show nh: "subnet_nexthop demo_oc [demo_port] demo_subnet = Some ''10.0.0.2''"
    by (simp add: subnet_nexthop_def localport_ipv4_in_subnet_def port_matches_def demo_defs)
  have "publishable netaddr_v4 (parse_cidr netaddr_v4 (Some ''10.0.0.0/24'')) (make_service_dict demo_service)"
    by (simp add: publishable_def parse_cidr_def v4_eval demo_defs)
  then show "subnet_routes netaddr_v4 demo_oc [demo_port] demo_subnet [make_service_dict demo_service] =
     [service_route ''169.254.1.53'' ''10.0.0.2'']"
    by (simp add: subnet_routes_def nh service_routes_filter) (simp add: demo_defs)
qed

subsection \<open>Merge\<close>

text \<open>
  C10. The merge of service routes into a subnet's host routes: the tenant's routes stay, in
  their order, in front of the service routes; a later merge with another set of service
  routes via the same nexthop leaves no route of the earlier set behind and loses only
  tenant routes to a published destination; merging twice is merging once.
\<close>

theorem merge_spec:
  assumes "\<forall>r \<in> set old. rt_nexthop r = nexthop"
  shows "merge existing old nexthop = filter (tenant_route old nexthop) existing @ old
    \<and> merge (merge existing old nexthop) new nexthop
        = filter (\<lambda>r. tenant_route old nexthop r \<and> tenant_route new nexthop r) existing @ new
    \<and> merge (merge existing old nexthop) old nexthop = merge existing old nexthop"
  using assms merge_again[of old nexthop existing new] merge_idem merge_eq by blast

theorem merge_spec_witness:
  "merge (merge [\<lparr>rt_destination = Some ''10.9.0.0/16'', rt_nexthop = Some ''10.0.0.1''\<rparr>]
        [service_route ''169.254.1.53'' ''10.0.0.2''] (Some ''10.0.0.2''))
      [service_route ''169.254.1.123'' ''10.0.0.2''] (Some ''10.0.0.2'')
    = [\<lparr>rt_destination = Some ''10.9.0.0/16'', rt_nexthop = Some ''10.0.0.1''\<rparr>,
       service_route ''169.254.1.123'' ''10.0.0.2'']"
proof -
  have "\<forall>r \<in> set [service_route ''169.254.1.53'' ''10.0.0.2'']. rt_nexthop r = Some ''10.0.0.2''"
    by (simp add: service_route_def)
  from merge_spec[OF this, of "[\<lparr>rt_destination = Some ''10.9.0.0/16'', rt_nexthop = Some ''10.0.0.1''\<rparr>]"
      "[service_route ''169.254.1.123'' ''10.0.0.2'']", THEN conjunct2, THEN conjunct1]
  show ?thesis by (simp add: service_route_def tenant_route_def)
qed

text \<open>
  Comparing host routes: \<open>routes_equal\<close> holds exactly when both lists have the same usable
  (destination, nexthop) pairs with the same multiplicities, whatever their order.
\<close>

theorem routes_equal_iff: "routes_equal a b \<longleftrightarrow> mset (usable_pairs a) = mset (usable_pairs b)"
  by (rule routes_equal_mset)

subsection \<open>What is published\<close>

text \<open>
  Published routes are safe: every route computed for a subnet leads the VIP of an
  enabled service of the list, as a /32, to the address our port has in that very subnet; when
  the subnet's CIDR can be parsed, the VIP lies outside it. Computing changes nothing.
\<close>

theorem published_routes_safe:
  assumes "core_ok cp ports subnets"
    and "compute_service_routes na oc cp subnet services w = (Inr (routes, nexthop), w')"
    and "r \<in> set routes"
  shows "w' = w \<and> (\<exists>svc \<in> set services. \<exists>vip nh p. sd_local_ipv4 svc = Some vip \<and> vip \<noteq> []
      \<and> get_enabled (sd_enabled svc) \<and> r = service_route vip nh \<and> nexthop = Some nh
      \<and> p \<in> set (ports w) \<and> is_our_port oc p \<and> localport_ipv4_in_subnet p subnet = Some nh
      \<and> (\<forall>cidr net. sn_cidr subnet = Some (Some cidr) \<and> cidr \<noteq> [] \<and> IPNetwork na cidr = Some net \<longrightarrow>
           (\<exists>ip. IPAddress na vip = Some ip \<and> \<not> same_family_in na ip net)))"
proof -
  obtain n where n: "sn_network_id subnet = Some n"
    using assms(2) by (cases "sn_network_id subnet") (auto simp: compute_service_routes_def the_key_def bnd_def)
  note run = compute_service_routes_run[OF assms(1) n, of na oc services w]
  have r: "r \<in> set (subnet_routes na oc (ports w) subnet services)" "nexthop = subnet_nexthop oc (ports w) subnet" "w' = w"
    using assms(2,3) run by auto
  then obtain nh where nh: "subnet_nexthop oc (ports w) subnet = Some nh"
    by (cases "subnet_nexthop oc (ports w) subnet") (auto simp: subnet_routes_def)
  then obtain p ps where p: "our_ports oc n (ports w) = p # ps" "localport_ipv4_in_subnet p subnet = Some nh"
    using n by (auto simp: subnet_nexthop_def split: list.splits)
  then have "p \<in> set (our_ports oc n (ports w))" by simp
  then have "p \<in> set (ports w)" "is_our_port oc p" using our_device_id by auto
  moreover obtain svc where "svc \<in> set services" "publishable na (parse_cidr na (dget (sn_cidr subnet))) svc"
      "r = service_route (the (sd_local_ipv4 svc)) nh"
    using r(1) nh by (auto simp: subnet_routes_def service_routes_filter)
  ultimately show ?thesis
    using r(2,3) nh p(2) by (fastforce simp: publishable_def truthy_str_iff parse_cidr_def)
qed

theorem published_routes_safe_witness:
  "\<exists>routes nexthop. compute_service_routes netaddr_v4 demo_oc mem_core demo_subnet
        [make_service_dict demo_service] demo_mem = (Inr (routes, nexthop), demo_mem)
     \<and> service_route ''169.254.1.53'' ''10.0.0.2'' \<in> set routes
     \<and> (\<exists>svc \<in> set [make_service_dict demo_service]. sd_local_ipv4 svc = Some ''169.254.1.53'')"
proof -
  have run: "compute_service_routes netaddr_v4 demo_oc mem_core demo_subnet [make_service_dict demo_service] demo_mem
      = (Inr ([service_route ''169.254.1.53'' ''10.0.0.2''], Some ''10.0.0.2''), demo_mem)"
    using compute_service_routes_run[OF mem_core_ok, of demo_subnet "''n1''" netaddr_v4 demo_oc
        "[make_service_dict demo_service]" demo_mem] demo_routes
    by (simp add: demo_mem_def demo_subnet_def)
  from published_routes_safe[OF mem_core_ok run, of "service_route ''169.254.1.53'' ''10.0.0.2''"] run
  show ?thesis by (auto simp: service_route_def)
qed

subsection \<open>Attachment\<close>

text \<open>
  C11. Effective attachment, read with an unrestricted context: a network gets exactly the
  enabled services that are opt-in with an enabled binding to it, or opt-out without a
  disabled one, each once, in whatever order Python walks its sets.
\<close>

theorem enabled_services_spec:
  assumes "db_wf d" and "set_order_ok set_order"
  shows "set (enabled_services_for_network set_order (\<lambda>_. True) d n) =
      make_service_dict ` {s \<in> set (db_services d). svc_enabled s
        \<and> (if svc_attachment_policy s = ATTACH_OPT_IN then has_binding (\<lambda>_. True) d n s True
           else \<not> has_binding (\<lambda>_. True) d n s False)}
    \<and> distinct (map sd_id (enabled_services_for_network set_order (\<lambda>_. True) d n))"
proof -
  have "attached (\<lambda>_. True) d n s \<longleftrightarrow> svc_enabled s
        \<and> (if svc_attachment_policy s = ATTACH_OPT_IN then has_binding (\<lambda>_. True) d n s True
           else \<not> has_binding (\<lambda>_. True) d n s False)" if "s \<in> set (db_services d)" for s
  proof -
    have "svc_attachment_policy s = ATTACH_OPT_IN \<or> svc_attachment_policy s = ATTACH_OPT_OUT"
      using that assms(1) by (auto simp: db_wf_def table_wf_def service_row_ok_def const_defs)
    moreover have "ATTACH_OPT_IN \<noteq> ATTACH_OPT_OUT" by (simp add: const_defs)
    ultimately show ?thesis
      using binding_states_exclude[OF assms(1), of "\<lambda>_. True" n s] by (auto simp: attached_def)
  qed
  then have "{s \<in> set (db_services d). attached (\<lambda>_. True) d n s} = {s \<in> set (db_services d). svc_enabled s
        \<and> (if svc_attachment_policy s = ATTACH_OPT_IN then has_binding (\<lambda>_. True) d n s True
           else \<not> has_binding (\<lambda>_. True) d n s False)}" by blast
  then show ?thesis using enabled_services_eq[OF assms] by simp
qed

theorem enabled_services_spec_witness:
  "set (enabled_services_for_network remdups (\<lambda>_. True) demo_db ''n1'') = {make_service_dict demo_service}"
proof -
  have "{s \<in> set (db_services demo_db). svc_enabled s
        \<and> (if svc_attachment_policy s = ATTACH_OPT_IN then has_binding (\<lambda>_. True) demo_db ''n1'' s True
           else \<not> has_binding (\<lambda>_. True) demo_db ''n1'' s False)} = {demo_service}"
    by (auto simp: has_binding_def demo_defs const_defs)
  then show ?thesis using enabled_services_spec[OF demo_db_wf remdups_order, of "''n1''"] by simp
qed

subsection \<open>The subnet handlers\<close>

lemma inject_published:
  assumes cp: "core_ok cp ports subnets" and n: "sn_network_id look = Some n" "n \<noteq> []"
    and svc: "svc \<in> set (enabled_services_for_network set_order ctx d n)"
      "publishable na (parse_cidr na (dget (sn_cidr (lookup_dict look target)))) svc"
    and nh: "subnet_nexthop oc (ports w) (lookup_dict look target) = Some nh" "nh \<noteq> []"
  shows "\<exists>t. inject na oc set_order ctx d cp look target w = (Inr t, w)
    \<and> (the (sd_local_ipv4 svc) @ ''/32'', nh) \<in> set (usable_pairs (routes_of t))"
proof -
  define routes where "routes = subnet_routes na oc (ports w) (lookup_dict look target)
      (enabled_services_for_network set_order ctx d n)"
  define merged where "merged = merge (routes_of target) routes (Some nh)"
  have r: "service_route (the (sd_local_ipv4 svc)) nh \<in> set routes"
    using svc nh(1) by (auto simp: routes_def subnet_routes_def service_routes_filter)
  then have m: "(the (sd_local_ipv4 svc) @ ''/32'', nh) \<in> set (usable_pairs merged)"
    using nh(2) by (force simp: usable_pairs_mem merged_def merge_eq service_route_def)
  have run: "inject na oc set_order ctx d cp look target w =
      (Inr (if routes = [] \<or> routes_equal merged (routes_of target) then target
              else target\<lparr>sn_host_routes := Some (Some merged)\<rparr>), w)"
    unfolding inject_run[OF cp n] routes_def merged_def by (simp add: Let_def nh(1))
  have "set (usable_pairs merged) = set (usable_pairs (routes_of target))" if "routes_equal merged (routes_of target)"
    using that mset_eq_setD by (auto simp: routes_equal_mset)
  then show ?thesis using run m r by (auto simp: routes_of_def)
qed

lemma lookup_dict_orig:
  assumes "truthy_str (sn_id orig)" "sn_cidr patch = None"
  shows "sn_id (lookup_dict orig patch) = sn_id orig" "sn_network_id (lookup_dict orig patch) = sn_network_id orig"
    "dget (sn_cidr (lookup_dict orig patch)) = dget (sn_cidr orig)"
  using assms by (simp_all add: lookup_dict_def or_str_def)

lemma on_before_update_routes_only:
  assumes "sn_cidr patch = None" "sn_host_routes patch = Some hr"
  shows "on_before_update na oc set_order ctx d cp (Some (orig, patch)) w =
    bnd (inject na oc set_order ctx d cp orig patch) (\<lambda>t. ret (Some t)) w"
  by (simp add: on_before_update_def assms andthen_def bnd_def)

text \<open>
  C12. A subnet update cannot strip a service route the handler sees: whatever host routes the
  patch carries, after the handler it has, for every service attached under the request's
  context whose VIP may be published in the subnet, the /32 route via our port.
\<close>

theorem update_restores_service_routes:
  assumes "core_ok cp ports subnets" and "db_wf d" and "set_order_ok set_order"
    and "sn_network_id orig = Some n" "n \<noteq> []" and "truthy_str (sn_id orig)"
    and "sn_cidr patch = None" and "sn_host_routes patch = Some hr"
    and "s \<in> set (db_services d)" and "attached ctx d n s"
    and "publishable na (parse_cidr na (dget (sn_cidr orig))) (make_service_dict s)"
    and "subnet_nexthop oc (ports w) orig = Some nh" "nh \<noteq> []"
  shows "\<exists>t. on_before_update na oc set_order ctx d cp (Some (orig, patch)) w = (Inr (Some t), w)
    \<and> (the (svc_local_ipv4 s) @ ''/32'', nh) \<in> set (usable_pairs (routes_of t))"
proof -
  note look = lookup_dict_orig[OF assms(6,7)]
  have svc: "make_service_dict s \<in> set (enabled_services_for_network set_order ctx d n)"
    using assms(9,10) enabled_services_eq(1)[OF assms(2,3)] by simp
  have "subnet_nexthop oc (ports w) (lookup_dict orig patch) = Some nh"
    using assms(12) subnet_routes_cong(1)[OF look] by simp
  from inject_published[OF assms(1,4,5) svc _ this assms(13), of na] assms(11) look(3)
  show ?thesis by (auto simp: on_before_update_routes_only[OF assms(7,8)])
qed

lemma demo_attached: "attached (\<lambda>_. True) demo_db ''n1'' demo_service"
  by (simp add: attached_def has_binding_def demo_defs)

lemma demo_publishable:
  "publishable netaddr_v4 (parse_cidr netaddr_v4 (dget (sn_cidr demo_subnet))) (make_service_dict demo_service)"
  by (simp add: publishable_def parse_cidr_def v4_eval demo_defs)

definition demo_patch :: subnet where
  "demo_patch = \<lparr>sn_id = None, sn_network_id = None, sn_cidr = None, sn_host_routes = Some (Some []),
     sn_ip_version = None, sn_enable_dhcp = None\<rparr>"

theorem update_restores_service_routes_witness:
  "\<exists>t. on_before_update netaddr_v4 demo_oc remdups (\<lambda>_. True) demo_db mem_core
        (Some (demo_subnet, demo_patch)) demo_mem = (Inr (Some t), demo_mem)
     \<and> (''169.254.1.53/32'', ''10.0.0.2'') \<in> set (usable_pairs (routes_of t))"
proof -
  have nh: "subnet_nexthop demo_oc (mem_ports demo_mem) demo_subnet = Some ''10.0.0.2''"
    using demo_routes(1) by (simp add: demo_mem_def)
  have sel: "sn_network_id demo_subnet = Some ''n1''" "truthy_str (sn_id demo_subnet)" "sn_cidr demo_patch = None"
      "sn_host_routes demo_patch = Some (Some [])" "demo_service \<in> set (db_services demo_db)"
      "svc_local_ipv4 demo_service = Some ''169.254.1.53''"
    by (simp_all add: demo_defs demo_patch_def)
  from update_restores_service_routes[OF mem_core_ok demo_db_wf remdups_order sel(1) _ sel(2-5) demo_attached
      demo_publishable nh] sel(6)
  show ?thesis by simp
qed

text \<open>
  The handler does not undo the plugin's own refresh: a patch whose host routes are the
  merge the refresh computed for the subnet leaves the handler as it came in, so the update
  the refresh issues stores exactly that merge.
\<close>

theorem refresh_patch_fixed:
  assumes "core_ok cp ports subnets"
    and "sn_network_id orig = Some n" "n \<noteq> []" and "truthy_str (sn_id orig)"
    and "compute_service_routes na oc cp orig (enabled_services_for_network set_order ctx d n) w = (Inr (routes, nexthop), w)"
    and "sn_cidr patch = None" and "sn_host_routes patch = Some (Some (merge existing routes nexthop))"
  shows "on_before_update na oc set_order ctx d cp (Some (orig, patch)) w = (Inr (Some patch), w)"
proof -
  note look = lookup_dict_orig[OF assms(4,6)]
  have r: "routes = subnet_routes na oc (ports w) orig (enabled_services_for_network set_order ctx d n)"
      "nexthop = subnet_nexthop oc (ports w) orig"
    using assms(5) compute_service_routes_run[OF assms(1,2), of na oc _ w] by auto
  have "routes_of patch = merge existing routes nexthop"
    using assms(7) by (simp add: routes_of_def)
  then have "inject na oc set_order ctx d cp orig patch w = (Inr patch, w)"
    by (simp add: inject_run[OF assms(1-3)] subnet_routes_cong[OF look] r[symmetric] Let_def merge_idem)
  then show ?thesis by (simp add: on_before_update_routes_only[OF assms(6,7)])
qed

theorem refresh_patch_fixed_witness:
  "on_before_update netaddr_v4 demo_oc remdups (\<lambda>_. True) demo_db mem_core
      (Some (demo_subnet, demo_patch\<lparr>sn_host_routes := Some (Some (merge []
         [service_route ''169.254.1.53'' ''10.0.0.2''] (Some ''10.0.0.2'')))\<rparr>)) demo_mem
   = (Inr (Some (demo_patch\<lparr>sn_host_routes := Some (Some (merge []
         [service_route ''169.254.1.53'' ''10.0.0.2''] (Some ''10.0.0.2'')))\<rparr>)), demo_mem)"
proof (rule refresh_patch_fixed[OF mem_core_ok])
  show "sn_network_id demo_subnet = Some ''n1''" "''n1'' \<noteq> []" "truthy_str (sn_id demo_subnet)"
    by (simp_all add: demo_subnet_def)
  show "compute_service_routes netaddr_v4 demo_oc mem_core demo_subnet
      (enabled_services_for_network remdups (\<lambda>_. True) demo_db ''n1'') demo_mem
      = (Inr ([service_route ''169.254.1.53'' ''10.0.0.2''], Some ''10.0.0.2''), demo_mem)"
    using compute_service_routes_run[OF mem_core_ok, of demo_subnet "''n1''" netaddr_v4 demo_oc
        "[make_service_dict demo_service]" demo_mem] demo_routes
    by (simp add: demo_services) (simp add: demo_mem_def demo_subnet_def)
qed (simp_all add: demo_patch_def)

lemma inject_returns:
  assumes "core_ok cp ports subnets"
  shows "\<exists>t. inject na oc set_order ctx d cp look target w = (Inr t, w)"
proof (cases "truthy_str (sn_network_id look)")
  case True
  then obtain n where n: "sn_network_id look = Some n" "n \<noteq> []" by (auto simp: truthy_str_iff)
  show ?thesis by (simp add: inject_run[OF assms n] Let_def)
qed (simp add: inject_def)

text \<open>
  A subnet over the VIP of an explicitly bound service is refused, and nothing else is: the
  create handler raises exactly when some enabled service with an enabled binding to the
  network (visible to the request) has a VIP inside the new subnet's CIDR. An opt-out service
  without a binding never blocks a subnet.
\<close>

theorem create_refused_iff_overlap:
  assumes "core_ok cp ports subnets" and "db_wf d" and "set_order_ok set_order"
    and "sn_network_id new = Some n" "n \<noteq> []" and "sn_cidr new = Some (Some cidr)" "cidr \<noteq> []"
    and "IPNetwork na cidr = Some net"
  shows "(\<exists>e. fst (on_before_create na oc set_order ctx d cp (Some new) w) = Inl e) \<longleftrightarrow>
    (\<exists>s \<in> set (db_services d). svc_enabled s \<and> has_binding ctx d n s True
       \<and> (vip_in na net (svc_local_ipv4 s) \<or> vip_in na net (svc_local_ipv6 s)))"
proof -
  have c: "or_str (dget (sn_cidr new)) (dget (sn_cidr new)) = Some cidr"
    using assms(6) by (simp add: or_str_def)
  note ok = refuse_overlap_ok[OF assms(2-5) c assms(7,8), where ctx = ctx]
  obtain t where t: "inject na oc set_order ctx d cp new new w = (Inr t, w)"
    using inject_returns[OF assms(1)] by blast
  show ?thesis
  proof (cases "refuse_overlap_with_attached_vips na set_order ctx d new new")
    case (Inl e)
    then have "\<exists>e. fst (on_before_create na oc set_order ctx d cp (Some new) w) = Inl e"
      by (simp add: on_before_create_def lift_check_def)
    then show ?thesis using ok Inl by auto
  next
    case (Inr u)
    then have "\<not> (\<exists>e. fst (on_before_create na oc set_order ctx d cp (Some new) w) = Inl e)"
      by (simp add: on_before_create_def lift_check_def t)
    then show ?thesis using ok Inr by auto
  qed
qed

text \<open>The service of the demo catalog is opt-out and has no binding row: a subnet over its VIP goes through.\<close>

theorem create_refused_iff_overlap_witness:
  "\<not> (\<exists>e. fst (on_before_create netaddr_v4 demo_oc remdups (\<lambda>_. True) demo_db mem_core
       (Some (demo_subnet\<lparr>sn_cidr := Some (Some ''169.254.1.0/24'')\<rparr>)) demo_mem) = Inl e)"
proof -
  have sel: "sn_network_id (demo_subnet\<lparr>sn_cidr := Some (Some ''169.254.1.0/24'')\<rparr>) = Some ''n1''"
      "sn_cidr (demo_subnet\<lparr>sn_cidr := Some (Some ''169.254.1.0/24'')\<rparr>) = Some (Some ''169.254.1.0/24'')"
      "IPNetwork netaddr_v4 ''169.254.1.0/24'' = Some (2851995904, 24)"
    by (simp_all add: demo_subnet_def v4_eval)
  from create_refused_iff_overlap[OF mem_core_ok demo_db_wf remdups_order sel(1) _ sel(2) _ sel(3)]
  show ?thesis by (simp add: has_binding_def demo_db_def)
qed

text \<open>What the handler adds to a patch comes from a service attached under the request's context.\<close>

lemma inject_adds_only_attached:
  assumes "core_ok cp ports subnets" "db_wf d" "set_order_ok set_order" "sn_network_id look = Some n" "n \<noteq> []"
    and none: "\<And>s. s \<in> set (db_services d) \<Longrightarrow> attached ctx d n s \<Longrightarrow> svc_local_ipv4 s \<noteq> Some x"
    and new: "(x @ ''/32'', nh) \<notin> set (usable_pairs (routes_of target))"
  obtains t where "inject na oc set_order ctx d cp look target w = (Inr t, w)"
    "(x @ ''/32'', nh) \<notin> set (usable_pairs (routes_of t))"
proof -
  let ?hop = "subnet_nexthop oc (ports w) (lookup_dict look target)"
  define svcs where "svcs = enabled_services_for_network set_order ctx d n"
  define routes where "routes = subnet_routes na oc (ports w) (lookup_dict look target) svcs"
  have "rt_destination r \<noteq> Some (x @ ''/32'')" if r: "r \<in> set routes" for r
  proof -
    obtain s v h where "s \<in> set (db_services d)" "attached ctx d n s" "svc_local_ipv4 s = Some v" "r = service_route v h"
      using r enabled_services_eq(1)[OF assms(2,3), of ctx n]
      by (auto simp: routes_def subnet_routes_def service_routes_filter svcs_def publishable_def truthy_str_iff split: option.splits)
    then show ?thesis using none[of s] by (auto simp: service_route_def)
  qed
  then have "(x @ ''/32'', nh) \<notin> set (usable_pairs (merge (routes_of target) routes ?hop))"
    using new by (auto simp: usable_pairs_mem merge_eq)
  then show thesis
    using that new by (auto simp: inject_run[OF assms(1,4,5)] routes_def svcs_def routes_of_def Let_def)
qed

text \<open>
  C13. What the handler cannot see it does not protect. Catalog reads are restricted to the projects of the request's
  context, so an opt-out service of the operator's project, attached to every network without a binding, is invisible to
  a tenant's request. A tenant who updates a subnet with host routes that leave out the /32 route of such a service gets
  a subnet without it, although the same request in an unrestricted context has the route put back, and although
  the periodic pass, which runs with the latter, publishes it. (The VIP is not one of a service the tenant
  does see, and it may be published in the subnet.)
\<close>

theorem tenant_update_strips_opt_out_route:
  assumes "core_ok cp ports subnets" "db_wf d" "set_order_ok set_order"
    and subnet: "sn_network_id orig = Some n" "n \<noteq> []" "truthy_str (sn_id orig)" "subnet_nexthop oc (ports w) orig = Some nh" "nh \<noteq> []"
    and patch: "sn_cidr patch = None" "sn_host_routes patch = Some hr" "(x @ ''/32'', nh) \<notin> set (usable_pairs (routes_of patch))"
    and svc: "s \<in> set (db_services d)" "svc_local_ipv4 s = Some x" "svc_enabled s" "svc_attachment_policy s = ATTACH_OPT_OUT"
      "publishable na (parse_cidr na (dget (sn_cidr orig))) (make_service_dict s)"
    and unbound: "\<And>b. b \<in> set (db_bindings d) \<Longrightarrow> bi_service_id b = svc_id s \<Longrightarrow> bi_network_id b \<noteq> n"
    and tenant: "\<not> ctx (svc_project_id s)"
      "\<And>s'. s' \<in> set (db_services d) \<Longrightarrow> s' \<noteq> s \<Longrightarrow> attached ctx d n s' \<Longrightarrow> svc_local_ipv4 s' \<noteq> Some x"
  shows "(\<exists>t. on_before_update na oc set_order ctx d cp (Some (orig, patch)) w = (Inr (Some t), w)
      \<and> (x @ ''/32'', nh) \<notin> set (usable_pairs (routes_of t)))
    \<and> (\<exists>t. on_before_update na oc set_order (\<lambda>_. True) d cp (Some (orig, patch)) w = (Inr (Some t), w)
      \<and> (x @ ''/32'', nh) \<in> set (usable_pairs (routes_of t)))"
proof
  have bind: "\<not> has_binding c d n s b" for c b using unbound by (auto simp: has_binding_def)
  have "svc_local_ipv4 s' \<noteq> Some x" if "s' \<in> set (db_services d)" "attached ctx d n s'" for s'
    using that tenant bind by (cases "s' = s") (auto simp: attached_def)
  then obtain t where "inject na oc set_order ctx d cp orig patch w = (Inr t, w)"
      "(x @ ''/32'', nh) \<notin> set (usable_pairs (routes_of t))"
    by (rule inject_adds_only_attached[OF assms(1-3) subnet(1,2) _ patch(3)])
  then show "\<exists>t. on_before_update na oc set_order ctx d cp (Some (orig, patch)) w = (Inr (Some t), w)
      \<and> (x @ ''/32'', nh) \<notin> set (usable_pairs (routes_of t))"
    by (simp add: on_before_update_routes_only[OF patch(1,2)])
  note look = lookup_dict_orig[OF subnet(3) patch(1)]
  have "make_service_dict s \<in> set (enabled_services_for_network set_order (\<lambda>_. True) d n)"
    using svc(1,3,4) bind enabled_services_eq(1)[OF assms(2,3)] by (auto simp: attached_def)
  moreover have "subnet_nexthop oc (ports w) (lookup_dict orig patch) = Some nh"
    using subnet(4) subnet_routes_cong(1)[OF look] by simp
  ultimately show "\<exists>t. on_before_update na oc set_order (\<lambda>_. True) d cp (Some (orig, patch)) w = (Inr (Some t), w)
      \<and> (x @ ''/32'', nh) \<in> set (usable_pairs (routes_of t))"
    using inject_published[OF assms(1) subnet(1,2) _ _ _ subnet(5), of "make_service_dict s" set_order "\<lambda>_. True" d na patch oc w] svc(2,5) look(3)
    by (auto simp: on_before_update_routes_only[OF patch(1,2)])
qed

text \<open>In the witness a tenant of the project \<open>demo\<close> sends an empty list of host routes to the demo deployment.\<close>

theorem tenant_update_strips_opt_out_route_witness:
  "(\<exists>t. on_before_update netaddr_v4 demo_oc remdups (\<lambda>p. p = Some ''demo'') demo_db mem_core
      (Some (demo_subnet, demo_patch)) demo_mem = (Inr (Some t), demo_mem)
      \<and> (''169.254.1.53/32'', ''10.0.0.2'') \<notin> set (usable_pairs (routes_of t)))
   \<and> (\<exists>t. on_before_update netaddr_v4 demo_oc remdups (\<lambda>_. True) demo_db mem_core
      (Some (demo_subnet, demo_patch)) demo_mem = (Inr (Some t), demo_mem)
      \<and> (''169.254.1.53/32'', ''10.0.0.2'') \<in> set (usable_pairs (routes_of t)))"
proof -
  have nh: "subnet_nexthop demo_oc (mem_ports demo_mem) demo_subnet = Some ''10.0.0.2''"
    using demo_routes(1) by (simp add: demo_mem_def)
  have sel: "sn_network_id demo_subnet = Some ''n1''" "truthy_str (sn_id demo_subnet)" "sn_cidr demo_patch = None"
      "sn_host_routes demo_patch = Some (Some [])" "(''169.254.1.53'' @ ''/32'', ''10.0.0.2'') \<notin> set (usable_pairs (routes_of demo_patch))"
      "demo_service \<in> set (db_services demo_db)" "svc_local_ipv4 demo_service = Some ''169.254.1.53''"
      "svc_enabled demo_service" "svc_attachment_policy demo_service = ATTACH_OPT_OUT"
    by (simp_all add: demo_defs demo_patch_def routes_of_def usable_pairs_def)
  have sees: "bi_network_id b \<noteq> ''n1''" if "b \<in> set (db_bindings demo_db)" for b
    using that by (simp add: demo_db_def)
  have other: "svc_local_ipv4 s' \<noteq> Some ''169.254.1.53''" if "s' \<in> set (db_services demo_db)" "s' \<noteq> demo_service" for s'
    using that by (simp add: demo_db_def)
  have proj: "\<not> svc_project_id demo_service = Some ''demo''" by (simp add: demo_service_def)
  from tenant_update_strips_opt_out_route[OF mem_core_ok demo_db_wf remdups_order sel(1) _ sel(2) nh _ sel(3-9) demo_publishable sees,
      where ctx = "\<lambda>p. p = Some ''demo''"] proj other
  show ?thesis by simp
qed

end
