(* ===== verification/ServicePlugin.thy ===== *)
theory ServicePlugin
  imports HostRoutes
begin

text \<open>
  The service plugin (\<^verbatim>\<open>plugin/plugin.py\<close>): the Octavia guard, the reconciliation of a network
  (localport and host routes) from the catalog, the periodic loop, and the lifecycle wrappers
  around the catalog's writers. The state is the catalog's database and the state of the
  core plugin. The request's context is the core plugin record and the scope \<open>ctx\<close>.
\<close>

section \<open>Definitions\<close>

record 'w server =
  sv_db :: db
  sv_core :: 'w

definition on_core :: "('w, 'a) act \<Rightarrow> ('w server, 'a) act" where
  "on_core m s = (case m (sv_core s) of (r, w) \<Rightarrow> (r, s\<lparr>sv_core := w\<rparr>))"

text \<open>
  The configured providers: \<open>None\<close> is the \<^verbatim>\<open>NoSuchOptError\<close> branch (and a value of \<^verbatim>\<open>None\<close>).
\<close>

definition octavia_provider_loaded :: "string list option \<Rightarrow> bool" where
  "octavia_provider_loaded providers =
     (case providers of
        None \<Rightarrow> False
      | Some ps \<Rightarrow> list_ex (\<lambda>p. contains p ''ovn_octavia_provider'') ps)"

text \<open>
  What a request or the periodic loop works with. \<open>ev_commit ev d d'\<close> is the error with which the database refuses to
  commit the transaction that takes it from \<open>d\<close> to \<open>d'\<close> (a lost connection, a deadlock, a full disk), if it does.
\<close>

record ('ip, 'net, 'w) env =
  ev_na :: "('ip, 'net) netaddr"
  ev_oc :: ovn_const
  ev_order :: "string list \<Rightarrow> string list"
  ev_ctx :: ctx_scope
  ev_cp :: "'w core_plugin"
  ev_mech :: mech_driver
  ev_conf :: vip_conf
  ev_commit :: "db \<Rightarrow> db \<Rightarrow> exc option"

text \<open>A writer of the catalog: a transaction of its own, of which a failed commit leaves nothing.\<close>

definition on_db :: "('ip, 'net, 'w) env \<Rightarrow> (db, 'a) act \<Rightarrow> ('w server, 'a) act" where
  "on_db ev m s =
     (case m (sv_db s) of
        (Inl e, d) \<Rightarrow> (Inl e, s\<lparr>sv_db := d\<rparr>)
      | (Inr x, d) \<Rightarrow> (case ev_commit ev (sv_db s) d of
                       Some e \<Rightarrow> (Inl e, s)
                     | None \<Rightarrow> (Inr x, s\<lparr>sv_db := d\<rparr>)))"

definition effective_services :: "('ip, 'net, 'w) env \<Rightarrow> string \<Rightarrow> ('w server, service_dict list) act" where
  "effective_services ev network_id =
     gets (\<lambda>s. enabled_services_for_network (ev_order ev) (ev_ctx ev) (sv_db s) network_id)"

definition plugin_ensure_localport :: "('ip, 'net, 'w) env \<Rightarrow> string \<Rightarrow> ('w, port) act" where
  "plugin_ensure_localport ev network_id =
     bnd (cp_get_network (ev_cp ev) network_id) (\<lambda>network.
     bnd (ensure_localport (ev_oc ev) (ev_cp ev) network) (\<lambda>port.
       case verify_lsp_type (ev_oc ev) (ev_mech ev) (port_id port) network_id 5 of
         Inl e \<Rightarrow> andthen (swallow (cp_delete_port (ev_cp ev) (port_id port))) (raise e)
       | Inr _ \<Rightarrow> ret port))"

definition plugin_maybe_remove_localport :: "('ip, 'net, 'w) env \<Rightarrow> string \<Rightarrow> ('w server, unit) act" where
  "plugin_maybe_remove_localport ev network_id =
     bnd (effective_services ev network_id) (\<lambda>services.
     bnd (on_core (maybe_remove_localport (ev_oc ev) (ev_cp ev) network_id (services \<noteq> []))) (\<lambda>_. ret ()))"

text \<open>One iteration of the loop of \<^verbatim>\<open>_refresh_subnet_routes\<close>. The DHCP warning is a log line.\<close>

definition refresh_subnet :: "('ip, 'net, 'w) env \<Rightarrow> service_dict list \<Rightarrow> subnet \<Rightarrow> ('w, unit) act" where
  "refresh_subnet ev services subnet =
     (if sn_ip_version subnet \<noteq> Some 4 then ret ()
      else
        bnd (compute_service_routes (ev_na ev) (ev_oc ev) (ev_cp ev) subnet services) (\<lambda>(routes, nexthop).
          let existing = routes_of subnet;
              merged = merge existing routes nexthop
          in if routes_equal merged existing then ret ()
             else swallow (bnd (the_key ''id'' (sn_id subnet)) (\<lambda>i. cp_update_subnet (ev_cp ev) i merged))))"

definition refresh_subnet_routes :: "('ip, 'net, 'w) env \<Rightarrow> string \<Rightarrow> ('w server, unit) act" where
  "refresh_subnet_routes ev network_id =
     bnd (effective_services ev network_id) (\<lambda>services.
       on_core (bnd (cp_get_subnets (ev_cp ev) network_id) (each (refresh_subnet ev services))))"

definition reconcile_network :: "('ip, 'net, 'w) env \<Rightarrow> string \<Rightarrow> ('w server, unit) act" where
  "reconcile_network ev network_id =
     bnd (effective_services ev network_id) (\<lambda>services.
       if services \<noteq> [] then
         bnd (on_core (plugin_ensure_localport ev network_id)) (\<lambda>_. refresh_subnet_routes ev network_id)
       else
         andthen (refresh_subnet_routes ev network_id) (plugin_maybe_remove_localport ev network_id))"

text \<open>One pass of the periodic loop; \<open>ev\<close> carries an admin context there.\<close>

definition reconcile_loop :: "('ip, 'net, 'w) env \<Rightarrow> ('w server, unit) act" where
  "reconcile_loop ev =
     bnd (attempt (bnd (on_core (cp_get_networks (ev_cp ev))) (\<lambda>nets. ret (Some nets))) (\<lambda>_. ret None))
       (\<lambda>networks. case networks of
           None \<Rightarrow> ret ()
         | Some nets \<Rightarrow>
             each (\<lambda>net. if \<not> truthy_str (net_id net) then ret ()
                         else swallow (reconcile_network ev (the (net_id net)))) nets)"

section \<open>Conflict checks\<close>

text \<open>\<^verbatim>\<open>netaddr.IPAddress(v)\<close> outside a \<^verbatim>\<open>try\<close>.\<close>

definition ip_or_raise :: "('ip, 'net) netaddr \<Rightarrow> string \<Rightarrow> exc + 'ip" where
  "ip_or_raise na v = (case IPAddress na v of None \<Rightarrow> Inl (Foreign ''AddrFormatError'') | Some ip \<Rightarrow> Inr ip)"

fun parse_vips :: "('ip, 'net) netaddr \<Rightarrow> string option list \<Rightarrow> exc + 'ip list" where
  "parse_vips na [] = Inr []"
| "parse_vips na (v # vs) =
     (if \<not> truthy_str v then parse_vips na vs
      else case ip_or_raise na (the v) of
             Inl e \<Rightarrow> Inl e
           | Inr ip \<Rightarrow> map_sum id (\<lambda>ips. ip # ips) (parse_vips na vs))"

definition service_vips :: "('ip, 'net) netaddr \<Rightarrow> service_dict \<Rightarrow> exc + 'ip list" where
  "service_vips na svc = parse_vips na [sd_local_ipv4 svc, sd_local_ipv6 svc]"

fun first_overlap :: "('ip, 'net) netaddr \<Rightarrow> 'ip list \<Rightarrow> subnet list \<Rightarrow> (string \<times> string) option" where
  "first_overlap na vips [] = None"
| "first_overlap na vips (s # ss) =
     (case dget (sn_cidr s) of
        None \<Rightarrow> first_overlap na vips ss
      | Some cidr \<Rightarrow>
          if cidr = [] then first_overlap na vips ss
          else case IPNetwork na cidr of
                 None \<Rightarrow> first_overlap na vips ss
               | Some net \<Rightarrow>
                   (case find (\<lambda>vip. same_family_in na vip net) vips of
                      Some vip \<Rightarrow> Some (ip_str na vip, cidr)
                    | None \<Rightarrow> first_overlap na vips ss))"

definition refuse_vips_overlap_network :: "('ip, 'net, 'w) env \<Rightarrow> 'ip list \<Rightarrow> string \<Rightarrow> ('w, unit) act" where
  "refuse_vips_overlap_network ev vips network_id =
     bnd (attempt (cp_get_subnets (ev_cp ev) network_id) (\<lambda>_. raise ServiceUnavailable)) (\<lambda>subnets.
       case first_overlap (ev_na ev) vips subnets of
         Some (vip, cidr) \<Rightarrow> raise (VIPOverlapsSubnetError vip cidr)
       | None \<Rightarrow> ret ())"

definition refuse_vip_subnet_overlap :: "('ip, 'net, 'w) env \<Rightarrow> string \<Rightarrow> string \<Rightarrow> ('w server, unit) act" where
  "refuse_vip_subnet_overlap ev service_id network_id =
     bnd (gets (\<lambda>s. get_local_service (sv_db s) service_id)) (\<lambda>found.
       case found of
         Inl _ \<Rightarrow> ret ()
       | Inr svc \<Rightarrow>
           bnd (lift_check (service_vips (ev_na ev) svc)) (\<lambda>vips.
             if vips = [] then ret ()
             else on_core (refuse_vips_overlap_network ev vips network_id)))"

section \<open>Lifecycle wrappers\<close>

text \<open>The guard of an update whose body carries a VIP key, and the update.\<close>

definition refuse_moved_vips :: "('ip, 'net, 'w) env \<Rightarrow> string \<Rightarrow> service_patch \<Rightarrow> ('w server, unit) act" where
  "refuse_moved_vips ev i body =
     bnd (gets (\<lambda>s. get_local_service (sv_db s) i)) (\<lambda>found.
     bnd (lift_check found) (\<lambda>existing.
       let candidate_v4 = set_if (sp_local_ipv4 body) (sd_local_ipv4 existing);
           candidate_v6 = set_if (sp_local_ipv6 body) (sd_local_ipv6 existing)
       in bnd (lift_check (parse_vips (ev_na ev) [candidate_v4, candidate_v6])) (\<lambda>candidates.
            if candidates = [] then ret ()
            else
              bnd (gets (\<lambda>s. get_local_service_bindings (ev_ctx ev)
                     \<lparr>nf_service_id = Some [i], nf_network_id = None, nf_enabled = Some [True]\<rparr> (sv_db s)))
                (each (\<lambda>b. bnd (the_key ''network_id'' (nd_network_id b))
                   (\<lambda>n. on_core (refuse_vips_overlap_network ev candidates n)))))))"

definition plugin_update_local_service ::
    "('ip, 'net, 'w) env \<Rightarrow> string \<Rightarrow> service_patch \<Rightarrow> ('w server, service_dict) act" where
  "plugin_update_local_service ev i body =
     andthen
       (if sp_local_ipv4 body \<noteq> None \<or> sp_local_ipv6 body \<noteq> None then refuse_moved_vips ev i body else ret ())
       (on_db ev (CatalogDB.update_local_service (ev_na ev) (ev_conf ev) i body))"

definition create_local_service_binding ::
    "('ip, 'net, 'w) env \<Rightarrow> string \<Rightarrow> binding_body \<Rightarrow> ('w server, binding_dict) act" where
  "create_local_service_binding ev new_id body =
     bnd (the_key ''service_id'' (nb_service_id body)) (\<lambda>service_id.
     bnd (the_key ''network_id'' (nb_network_id body)) (\<lambda>network_id.
     andthen (refuse_vip_subnet_overlap ev service_id network_id)
       (bnd (on_db ev (create_binding_row new_id body)) (\<lambda>result.
          andthen
            (attempt
               (bnd (the_key ''network_id'' (nd_network_id result)) (reconcile_network ev))
               (\<lambda>e. andthen
                      (swallow (bnd (the_key ''id'' (nd_id result)) (\<lambda>i. on_db ev (delete_binding_row i))))
                      (raise e)))
            (ret result)))))"

definition update_local_service_binding ::
    "('ip, 'net, 'w) env \<Rightarrow> string \<Rightarrow> bool option \<Rightarrow> ('w server, binding_dict) act" where
  "update_local_service_binding ev i enabled =
     andthen
       (if enabled = Some True then
          bnd (gets (\<lambda>s. get_local_service_binding (sv_db s) i)) (\<lambda>found.
          bnd (lift_check found) (\<lambda>existing.
          bnd (the_key ''service_id'' (nd_service_id existing)) (\<lambda>service_id.
          bnd (the_key ''network_id'' (nd_network_id existing)) (\<lambda>network_id.
            refuse_vip_subnet_overlap ev service_id network_id))))
        else ret ())
       (bnd (on_db ev (update_binding_row i enabled)) (\<lambda>result.
          andthen (swallow (bnd (the_key ''network_id'' (nd_network_id result)) (reconcile_network ev)))
            (ret result)))"

definition delete_local_service_binding :: "('ip, 'net, 'w) env \<Rightarrow> string \<Rightarrow> ('w server, unit) act" where
  "delete_local_service_binding ev i =
     bnd (gets (\<lambda>s. get_local_service_binding (sv_db s) i)) (\<lambda>found.
     bnd (lift_check found) (\<lambda>binding.
     andthen (on_db ev (delete_binding_row i))
       (swallow (bnd (the_key ''network_id'' (nd_network_id binding)) (reconcile_network ev)))))"

section \<open>The catalog is left alone\<close>

lemma on_core_keeps_db [keeps_intros]: "keeps sv_db (on_core m)"
  by (simp add: keeps_def on_core_def split: prod.split)

lemma the_key_keeps [keeps_intros]: "keeps v (the_key k x)"
  by (simp add: the_key_def keeps_basic split: option.split)

lemma lift_check_keeps [keeps_intros]: "keeps v (lift_check r)"
  by (simp add: lift_check_def keeps_basic split: sum.split)

lemma effective_services_run [simp]:
  "effective_services ev n s = (Inr (enabled_services_for_network (ev_order ev) (ev_ctx ev) (sv_db s) n), s)"
  by (simp add: effective_services_def)

lemma refresh_keeps_db [keeps_intros]: "keeps sv_db (refresh_subnet_routes ev n)"
  unfolding refresh_subnet_routes_def effective_services_def by (intro keeps_intros)

lemma remove_keeps_db [keeps_intros]: "keeps sv_db (plugin_maybe_remove_localport ev n)"
  unfolding plugin_maybe_remove_localport_def effective_services_def by (intro keeps_intros)

lemma reconcile_keeps_db [keeps_intros]: "keeps sv_db (reconcile_network ev n)"
  unfolding reconcile_network_def effective_services_def by (auto intro!: keeps_intros)

lemma reconcile_loop_keeps_db: "keeps sv_db (reconcile_loop ev)"
  unfolding reconcile_loop_def
  by (rule keeps_bnd) (auto intro!: keeps_intros split: option.split)

lemma refuse_overlap_keeps_db [keeps_intros]: "keeps sv_db (refuse_vip_subnet_overlap ev i n)"
  unfolding refuse_vip_subnet_overlap_def
  by (rule keeps_bnd) (auto intro!: keeps_intros split: sum.split)

lemma on_db_raises: "m (sv_db s) = (Inl e, d) \<Longrightarrow> on_db ev m s = (Inl e, s\<lparr>sv_db := d\<rparr>)"
  by (simp add: on_db_def)

lemma on_db_refused: "m (sv_db s) = (Inr x, d) \<Longrightarrow> ev_commit ev (sv_db s) d = Some e \<Longrightarrow> on_db ev m s = (Inl e, s)"
  by (simp add: on_db_def)

lemma on_db_commits: "m (sv_db s) = (Inr x, d) \<Longrightarrow> ev_commit ev (sv_db s) d = None \<Longrightarrow> on_db ev m s = (Inr x, s\<lparr>sv_db := d\<rparr>)"
  by (simp add: on_db_def)

lemma on_db_returned: "on_db ev m s = (Inr x, s') \<Longrightarrow> m (sv_db s) = (Inr x, sv_db s')"
  by (auto simp: on_db_def split: prod.splits sum.splits option.splits)

section \<open>Rolling a binding back\<close>

lemma delete_created_row:
  assumes "create_binding_row i body d = (Inr r, d')"
  shows "nd_id r = Some i" "delete_binding_row i d' = (Inr (), d)"
proof -
  obtain row where row: "bi_id row = i" "i \<notin> bi_id ` set (db_bindings d)" "r = make_binding_dict row"
      "d' = d\<lparr>db_bindings := db_bindings d @ [row]\<rparr>"
    by (rule create_binding_run[OF assms]) (rule that)
  show "nd_id r = Some i" by (simp add: row)
  have "find (\<lambda>r. bi_id r = i) (db_bindings d @ [row]) = Some row"
    using row(1,2) by (intro find_append_new) (auto simp: image_iff)
  moreover have "filter (\<lambda>r. bi_id r \<noteq> i) (db_bindings d @ [row]) = db_bindings d"
    using row(1,2) by (auto intro!: filter_all simp: image_iff)
  ultimately show "delete_binding_row i d' = (Inr (), d)"
    by (simp add: delete_binding_row_def get_binding_or_raise_def find_row_def row(4))
qed

lemma bnd_key [simp]: "bnd (the_key k (Some x)) f = f x"
  by (rule ext) (simp add: the_key_def)

lemma the_key_cases:
  assumes "the_key k v s = (r, s')"
  obtains (missing) "v = None" "r = Inl (KeyError k)" "s' = s" | (present) x where "v = Some x" "r = Inr x" "s' = s"
  using assms by (cases v) (auto simp: the_key_def)

text \<open>
  Writing the row and reconciling: the row on success; nothing of it on failure, unless the rollback was refused, and then
  the error is that of the reconciliation and the row stays.
\<close>

abbreviation write_and_reconcile :: "('ip, 'net, 'w) env \<Rightarrow> string \<Rightarrow> binding_body \<Rightarrow> ('w server, binding_dict) act" where
  "write_and_reconcile ev i body \<equiv>
     bnd (on_db ev (create_binding_row i body)) (\<lambda>result.
          andthen (attempt (bnd (the_key ''network_id'' (nd_network_id result)) (reconcile_network ev))
               (\<lambda>e. andthen (swallow (bnd (the_key ''id'' (nd_id result)) (\<lambda>i. on_db ev (delete_binding_row i)))) (raise e)))
            (ret result))"

lemma rollback_run:
  assumes row: "create_binding_row i body d = (Inr b, d')" and s: "sv_db s = d'"
  shows "swallow (on_db ev (delete_binding_row i)) s = (Inr (), if ev_commit ev d' d = None then s\<lparr>sv_db := d\<rparr> else s)"
  using delete_created_row(2)[OF row] s
  by (cases "ev_commit ev d' d") (simp_all add: swallow_run on_db_commits on_db_refused)

lemma binding_written:
  assumes run: "write_and_reconcile ev i body s = (r, s')" and n: "nb_network_id body = Some n"
  obtains (failed) e where "r = Inl e" "sv_db s' = sv_db s"
    | (kept) e b f s1 where "r = Inl e" "create_binding_row i body (sv_db s) = (Inr b, sv_db s')"
        "ev_commit ev (sv_db s') (sv_db s) = Some f" "reconcile_network ev n s1 = (Inl e, s')"
    | (made) b where "r = Inr b" "create_binding_row i body (sv_db s) = (Inr b, sv_db s')"
        "reconcile_network ev n (s\<lparr>sv_db := sv_db s'\<rparr>) = (Inr (), s')"
proof (cases "create_binding_row i body (sv_db s)")
  case (Pair x d')
  show ?thesis
  proof (cases x)
    case (Inl e)
    then have "r = Inl e" "sv_db s' = d'" using run Pair by (auto simp: on_db_raises bnd_def)
    then show ?thesis using failed raised_no_trace(7) Pair Inl by metis
  next
    case (Inr b)
    have row: "create_binding_row i body (sv_db s) = (Inr b, d')" using Pair Inr by simp
    show ?thesis
    proof (cases "ev_commit ev (sv_db s) d'")
      case (Some f)
      then have "r = Inl f" "s' = s" using run on_db_refused[of "create_binding_row i body", OF row Some] by (auto simp: bnd_def)
      then show ?thesis using failed by simp
    next
      case None
      have b: "nd_id b = Some i" "nd_network_id b = Some n"
        using delete_created_row(1)[OF row] n create_binding_run[OF row] by fastforce+
      obtain rr s3 where rec: "reconcile_network ev n (s\<lparr>sv_db := d'\<rparr>) = (rr, s3)" by fastforce
      have db3: "sv_db s3 = d'" using keepsD[OF reconcile_keeps_db rec] by simp
      have run': "andthen (attempt (reconcile_network ev n)
          (\<lambda>e. andthen (swallow (on_db ev (delete_binding_row i))) (raise e))) (ret b) (s\<lparr>sv_db := d'\<rparr>) = (r, s')"
        using run on_db_commits[of "create_binding_row i body", OF row None] b
        by (simp add: bnd_def[of "on_db ev (create_binding_row i body)"])
      show ?thesis
      proof (cases rr)
        case (Inl e)
        have e: "r = Inl e" "s' = (if ev_commit ev d' (sv_db s) = None then s3\<lparr>sv_db := sv_db s\<rparr> else s3)"
          using run' rec rollback_run[OF row db3, of ev] by (auto simp: Inl attempt_def andthen_def bnd_def)
        show ?thesis
        proof (cases "ev_commit ev d' (sv_db s)")
          case None
          then show ?thesis using failed e by simp
        next
          case (Some f)
          then show ?thesis using kept e row rec db3 Inl by simp
        qed
      next
        case (Inr u)
        have "r = Inr b" "s' = s3" using run' rec by (auto simp: Inr attempt_def andthen_def bnd_def)
        then show ?thesis using made row rec db3 Inr by simp
      qed
    qed
  qed
qed

text \<open>The whole request: the row on success, with the checks that were passed; on failure nothing, or the refused rollback.\<close>

lemma create_binding_db:
  assumes run: "create_local_service_binding ev i body s = (r, s')"
  obtains (failed) e where "r = Inl e" "sv_db s' = sv_db s"
    | (kept) e b f n s1 where "r = Inl e" "create_binding_row i body (sv_db s) = (Inr b, sv_db s')"
        "ev_commit ev (sv_db s') (sv_db s) = Some f" "nb_network_id body = Some n" "reconcile_network ev n s1 = (Inl e, s')"
    | (made) b si n s1 where "r = Inr b" "create_binding_row i body (sv_db s) = (Inr b, sv_db s')"
        "nb_service_id body = Some si" "nb_network_id body = Some n"
        "refuse_vip_subnet_overlap ev si n s = (Inr (), s1)"
        "reconcile_network ev n (s1\<lparr>sv_db := sv_db s'\<rparr>) = (Inr (), s')"
proof (cases "nb_service_id body")
  case None
  then show ?thesis using run failed by (auto simp: create_local_service_binding_def the_key_def)
next
  case si: (Some si)
  show ?thesis
  proof (cases "nb_network_id body")
    case None
    then show ?thesis using run failed by (auto simp: create_local_service_binding_def the_key_def si bnd_def)
  next
    case n: (Some n)
    have "andthen (refuse_vip_subnet_overlap ev si n) (write_and_reconcile ev i body) s = (r, s')"
      using run by (simp add: create_local_service_binding_def the_key_def si n bnd_def)
    then show ?thesis
    proof (cases rule: andthen_cases)
      case (raised e)
      then show ?thesis using failed keepsD[OF refuse_overlap_keeps_db] by blast
    next
      case (returned s1)
      have db1: "sv_db s1 = sv_db s" using keepsD[OF refuse_overlap_keeps_db returned(1)] .
      from returned(2) n show ?thesis
      proof (cases rule: binding_written)
        case (made b)
        then show ?thesis using that(3) si n returned(1) db1 by simp
      next
        case (kept e b f s0)
        then show ?thesis using that(2) n db1 by simp
      qed (use failed db1 in simp)
    qed
  qed
qed

section \<open>Refreshing the routes of a network\<close>

definition subnets_wf :: "subnet list \<Rightarrow> bool" where
  "subnets_wf ts \<longleftrightarrow> distinct (map sn_id ts) \<and> None \<notin> sn_id ` set ts"

text \<open>What one refresh makes of a subnet.\<close>

definition wanted_routes :: "('ip, 'net, 'w) env \<Rightarrow> port list \<Rightarrow> service_dict list \<Rightarrow> subnet \<Rightarrow> route list" where
  "wanted_routes ev ps svcs t =
     merge (routes_of t) (subnet_routes (ev_na ev) (ev_oc ev) ps t svcs) (subnet_nexthop (ev_oc ev) ps t)"

definition refreshed :: "('ip, 'net, 'w) env \<Rightarrow> port list \<Rightarrow> service_dict list \<Rightarrow> subnet \<Rightarrow> subnet" where
  "refreshed ev ps svcs t =
     (if sn_ip_version t = Some 4 \<and> \<not> routes_equal (wanted_routes ev ps svcs t) (routes_of t)
      then t\<lparr>sn_host_routes := Some (Some (wanted_routes ev ps svcs t))\<rparr> else t)"

lemma refreshed_sel [simp]:
  "sn_id (refreshed ev ps svcs t) = sn_id t" "sn_network_id (refreshed ev ps svcs t) = sn_network_id t"
  "sn_cidr (refreshed ev ps svcs t) = sn_cidr t" "sn_ip_version (refreshed ev ps svcs t) = sn_ip_version t"
  "sn_enable_dhcp (refreshed ev ps svcs t) = sn_enable_dhcp t"
  by (simp_all add: refreshed_def)

text \<open>A refreshed subnet has nothing left to refresh.\<close>

lemma refreshed_done:
  assumes "sn_ip_version t = Some 4"
  shows "routes_equal (wanted_routes ev ps svcs (refreshed ev ps svcs t)) (routes_of (refreshed ev ps svcs t))"
proof -
  let ?t = "refreshed ev ps svcs t"
  have cong: "subnet_routes (ev_na ev) (ev_oc ev) ps ?t svcs = subnet_routes (ev_na ev) (ev_oc ev) ps t svcs"
      "subnet_nexthop (ev_oc ev) ps ?t = subnet_nexthop (ev_oc ev) ps t"
    using subnet_routes_cong[of ?t t] by simp_all
  show ?thesis
  proof (cases "routes_equal (wanted_routes ev ps svcs t) (routes_of t)")
    case False
    then have "routes_of ?t = wanted_routes ev ps svcs t"
      using assms by (simp add: refreshed_def routes_of_def)
    then show ?thesis unfolding wanted_routes_def cong by (simp add: merge_idem)
  qed (simp add: refreshed_def)
qed

lemma refresh_subnet_run:
  assumes cp: "core_ok (ev_cp ev) ports subnets" and t: "sn_network_id t = Some n" "sn_id t = Some i"
  shows "refresh_subnet ev svcs t w =
    (Inr (), if sn_ip_version t \<noteq> Some 4 \<or> routes_equal (wanted_routes ev (ports w) svcs t) (routes_of t) then w
             else snd (cp_update_subnet (ev_cp ev) i (wanted_routes ev (ports w) svcs t) w))"
  by (simp add: refresh_subnet_def compute_service_routes_run[OF cp t(1)] Let_def wanted_routes_def
      swallow_run the_key_def t(2) bnd_def split: prod.split)

text \<open>
  The plugin swallows a failed \<^verbatim>\<open>update_subnet\<close> and goes on. A subnet is refused when the call a refresh makes for it, with
  the ports \<open>ps\<close> and the services \<open>svcs\<close>, raises in a state that has these ports and the subnet.
\<close>

definition update_refused ::
    "('ip, 'net, 'w) env \<Rightarrow> ('w \<Rightarrow> port list) \<Rightarrow> ('w \<Rightarrow> subnet list) \<Rightarrow> port list \<Rightarrow> service_dict list \<Rightarrow> subnet \<Rightarrow> bool" where
  "update_refused ev ports subnets ps svcs t \<longleftrightarrow>
     sn_ip_version t = Some 4 \<and> \<not> routes_equal (wanted_routes ev ps svcs t) (routes_of t)
     \<and> (\<exists>w i e w'. ports w = ps \<and> t \<in> set (subnets w) \<and> sn_id t = Some i
           \<and> cp_update_subnet (ev_cp ev) i (wanted_routes ev ps svcs t) w = (Inl e, w'))"

text \<open>What a refresh of network \<open>n\<close> makes of a subnet when the updates of the subnets in \<open>R\<close> are refused.\<close>

definition refreshed_except ::
    "subnet set \<Rightarrow> ('ip, 'net, 'w) env \<Rightarrow> string \<Rightarrow> port list \<Rightarrow> service_dict list \<Rightarrow> subnet \<Rightarrow> subnet" where
  "refreshed_except R ev n ps svcs x = (if sn_network_id x = Some n \<and> x \<notin> R then refreshed ev ps svcs x else x)"

lemma refreshed_except_sel [simp]:
  "sn_id (refreshed_except R ev n ps svcs t) = sn_id t" "sn_network_id (refreshed_except R ev n ps svcs t) = sn_network_id t"
  "sn_ip_version (refreshed_except R ev n ps svcs t) = sn_ip_version t"
  by (simp_all add: refreshed_except_def)

lemma map_refreshed_id [simp]: "map (sn_id \<circ> refreshed_except R ev n ps svcs) ts = map sn_id ts"
  by simp

lemma refresh_one:
  assumes cp: "core_ok (ev_cp ev) ports subnets"
    and wf: "subnets_wf (subnets w)" and t: "t \<in> set (subnets w)" "sn_network_id t = Some n"
  obtains w' r where "refresh_subnet ev svcs t w = (Inr (), w')" "ports w' = ports w"
    "r \<Longrightarrow> update_refused ev ports subnets (ports w) svcs t"
    "subnets w' = map (\<lambda>x. if x = t \<and> \<not> r then refreshed ev (ports w) svcs t else x) (subnets w)"
proof -
  obtain i where i: "sn_id t = Some i"
    using wf t(1) by (cases "sn_id t") (force simp: subnets_wf_def image_iff)+
  let ?skip = "sn_ip_version t \<noteq> Some 4 \<or> routes_equal (wanted_routes ev (ports w) svcs t) (routes_of t)"
  note run = refresh_subnet_run[OF cp t(2) i, of svcs w]
  show ?thesis
  proof (cases ?skip)
    case True
    then have "refreshed ev (ports w) svcs t = t" by (auto simp: refreshed_def)
    then have "subnets w = map (\<lambda>x. if x = t then refreshed ev (ports w) svcs t else x) (subnets w)"
      by (simp add: map_idI)
    then show ?thesis using that[of w False] run True by simp
  next
    case False
    obtain r w' where w': "cp_update_subnet (ev_cp ev) i (wanted_routes ev (ports w) svcs t) w = (r, w')"
      by fastforce
    show ?thesis
    proof (cases r)
      case (Inl e)
      have "update_refused ev ports subnets (ports w) svcs t"
        using False w' i t(1) unfolding update_refused_def Inl by blast
      then show ?thesis
        using that[of w' True] run False w' core_update(1)[OF cp w'] core_update(2)[OF cp w' Inl] by simp
    next
      case (Inr u)
      have same: "x = t" if "x \<in> set (subnets w)" "sn_id x = Some i" for x
        using that wf t(1) i by (auto simp: subnets_wf_def distinct_map inj_on_def)
      have "refreshed ev (ports w) svcs t = t\<lparr>sn_host_routes := Some (Some (wanted_routes ev (ports w) svcs t))\<rparr>"
        using False by (simp add: refreshed_def)
      then have "set_routes i (wanted_routes ev (ports w) svcs t) x = (if x = t then refreshed ev (ports w) svcs t else x)"
        if "x \<in> set (subnets w)" for x
        using same[OF that] i unfolding set_routes_def by presburger
      then have "map (set_routes i (wanted_routes ev (ports w) svcs t)) (subnets w)
          = map (\<lambda>x. if x = t then refreshed ev (ports w) svcs t else x) (subnets w)"
        by (rule map_cong[OF refl])
      then show ?thesis
        using that[of w' False] run False w' core_update(1)[OF cp w'] core_update(3)[OF cp w' Inr] by simp
    qed
  qed
qed

lemma refresh_each:
  assumes cp: "core_ok (ev_cp ev) ports subnets"
    and wf: "subnets_wf (subnets w)" and ts: "distinct ts" "\<And>t. t \<in> set ts \<Longrightarrow> t \<in> set (subnets w) \<and> sn_network_id t = Some n"
  shows "\<exists>w' R. each (refresh_subnet ev svcs) ts w = (Inr (), w') \<and> ports w' = ports w
    \<and> (\<forall>x \<in> R. update_refused ev ports subnets (ports w) svcs x)
    \<and> subnets w' = map (\<lambda>x. if x \<in> set ts \<and> x \<notin> R then refreshed ev (ports w) svcs x else x) (subnets w)"
  using wf ts
proof (induction ts arbitrary: w)
  case (Cons t ts)
  have t: "t \<in> set (subnets w)" "sn_network_id t = Some n" using Cons.prems(3) by simp_all
  obtain w1 r where w1: "refresh_subnet ev svcs t w = (Inr (), w1)" "ports w1 = ports w"
      "r \<Longrightarrow> update_refused ev ports subnets (ports w) svcs t"
      "subnets w1 = map (\<lambda>x. if x = t \<and> \<not> r then refreshed ev (ports w) svcs t else x) (subnets w)"
    by (rule refresh_one[OF cp Cons.prems(1) t]) (rule that)
  have ids: "map sn_id (subnets w1) = map sn_id (subnets w)" by (simp add: w1(4))
  then have wf1: "subnets_wf (subnets w1)"
    using Cons.prems(1) unfolding subnets_wf_def by (metis list.set_map)
  have other: "refreshed ev (ports w) svcs t \<notin> set ts"
  proof
    assume "refreshed ev (ports w) svcs t \<in> set ts"
    then have "refreshed ev (ports w) svcs t \<in> set (subnets w)" using Cons.prems(3) by simp
    then have "refreshed ev (ports w) svcs t = t"
      using Cons.prems(1,3) unfolding subnets_wf_def distinct_map inj_on_def by simp
    then show False using \<open>refreshed ev (ports w) svcs t \<in> set ts\<close> Cons.prems(2) by simp
  qed
  have "\<And>x. x \<in> set ts \<Longrightarrow> x \<in> set (subnets w1) \<and> sn_network_id x = Some n"
    using Cons.prems(2,3) by (auto simp: w1(4) image_iff intro!: bexI)
  from Cons.IH[OF wf1 _ this] Cons.prems(2)
  obtain w' R where w': "each (refresh_subnet ev svcs) ts w1 = (Inr (), w')" "ports w' = ports w1"
      "\<forall>x \<in> R. update_refused ev ports subnets (ports w1) svcs x"
      "subnets w' = map (\<lambda>x. if x \<in> set ts \<and> x \<notin> R then refreshed ev (ports w1) svcs x else x) (subnets w1)" by auto
  define Q where "Q = (R \<inter> set ts) \<union> (if r then {t} else {})"
  have "subnets w' = map (\<lambda>x. if x \<in> set (t # ts) \<and> x \<notin> Q then refreshed ev (ports w) svcs x else x) (subnets w)"
    using other Cons.prems(2) by (auto simp: w'(4) w1(2,4) Q_def)
  moreover have "\<forall>x \<in> Q. update_refused ev ports subnets (ports w) svcs x"
    using w'(3) w1(2,3) by (auto simp: Q_def split: if_splits)
  ultimately show ?case using w1(1,2) w'(1,2) by (intro exI[of _ w'] exI[of _ Q]) simp
qed (auto intro: exI[of _ "{}"])

lemma refresh_run:
  assumes cp: "core_ok (ev_cp ev) ports subnets" and wf: "subnets_wf (subnets (sv_core s))"
    and svcs: "svcs = enabled_services_for_network (ev_order ev) (ev_ctx ev) (sv_db s) n"
  obtains s' R where "refresh_subnet_routes ev n s = (Inr (), s')" "sv_db s' = sv_db s"
    "ports (sv_core s') = ports (sv_core s)"
    "\<forall>x \<in> R. update_refused ev ports subnets (ports (sv_core s)) svcs x"
    "subnets (sv_core s') = map (refreshed_except R ev n (ports (sv_core s)) svcs) (subnets (sv_core s))"
proof -
  let ?w = "sv_core s"
  let ?ts = "filter (\<lambda>t. sn_network_id t = Some n) (subnets ?w)"
  have "distinct ?ts" using wf by (auto simp: subnets_wf_def distinct_map)
  from refresh_each[OF cp wf this, of n svcs]
  obtain w' R where w': "each (refresh_subnet ev svcs) ?ts ?w = (Inr (), w')" "ports w' = ports ?w"
      "\<forall>x \<in> R. update_refused ev ports subnets (ports ?w) svcs x"
      "subnets w' = map (\<lambda>x. if x \<in> set ?ts \<and> x \<notin> R then refreshed ev (ports ?w) svcs x else x) (subnets ?w)" by auto
  have "refresh_subnet_routes ev n s = (Inr (), s\<lparr>sv_core := w'\<rparr>)"
    using w'(1) by (simp add: refresh_subnet_routes_def svcs on_core_def core_reads(2)[OF cp])
  moreover have "subnets w' = map (refreshed_except R ev n (ports ?w) svcs) (subnets ?w)"
    unfolding w'(4) refreshed_except_def[abs_def] by (rule map_cong) auto
  ultimately show ?thesis using that[of "s\<lparr>sv_core := w'\<rparr>" R] w'(2,3) by simp
qed

text \<open>A subnet that a refresh leaves behind is up to date or was refused.\<close>

lemma refreshed_or_refused:
  assumes "\<forall>x \<in> R. update_refused ev ports subnets ps svcs x"
    and "sn_network_id t = Some n" "sn_ip_version t = Some 4"
  shows "routes_equal (wanted_routes ev ps svcs (refreshed_except R ev n ps svcs t)) (routes_of (refreshed_except R ev n ps svcs t))
    \<or> refreshed_except R ev n ps svcs t = t \<and> update_refused ev ports subnets ps svcs t"
  using assms refreshed_done[OF assms(3), of ev ps svcs] by (auto simp: refreshed_except_def)

text \<open>Where every subnet of the network is up to date, a refresh does not touch the state.\<close>

lemma refresh_quiet:
  assumes cp: "core_ok (ev_cp ev) ports subnets" and wf: "subnets_wf (subnets (sv_core s))"
    and svcs: "svcs = enabled_services_for_network (ev_order ev) (ev_ctx ev) (sv_db s) n"
    and uptodate: "\<And>t. t \<in> set (subnets (sv_core s)) \<Longrightarrow> sn_network_id t = Some n \<Longrightarrow> sn_ip_version t = Some 4 \<Longrightarrow>
      routes_equal (wanted_routes ev (ports (sv_core s)) svcs t) (routes_of t)"
  shows "refresh_subnet_routes ev n s = (Inr (), s)"
proof -
  have "each (refresh_subnet ev svcs) ts (sv_core s) = (Inr (), sv_core s)"
    if "set ts \<subseteq> {t \<in> set (subnets (sv_core s)). sn_network_id t = Some n}" for ts
    using that
  proof (induction ts)
    case (Cons t ts)
    then obtain i where i: "sn_id t = Some i"
      using wf by (cases "sn_id t") (force simp: subnets_wf_def image_iff)+
    have "refresh_subnet ev svcs t (sv_core s) = (Inr (), sv_core s)"
      using Cons.prems uptodate[of t] refresh_subnet_run[OF cp _ i] by auto
    then show ?case using Cons by simp
  qed simp
  from this[of "filter (\<lambda>t. sn_network_id t = Some n) (subnets (sv_core s))"] show ?thesis
    by (simp add: refresh_subnet_routes_def svcs[symmetric] on_core_def core_reads(2)[OF cp])
qed

section \<open>Reconciling a network\<close>

lemma plugin_ensure_run:
  assumes cp: "core_ok (ev_cp ev) ports subnets" and run: "plugin_ensure_localport ev n w = (Inr p, w')"
  shows "our_ports (ev_oc ev) n (ports w') \<noteq> [] \<and> hd (our_ports (ev_oc ev) n (ports w')) = p"
    and "subnets w' = subnets w" and "our_ports (ev_oc ev) n (ports w) \<noteq> [] \<Longrightarrow> w' = w"
    and "\<exists>t. verify_lsp_type (ev_oc ev) (ev_mech ev) (port_id p) n 5 = Inr t"
proof -
  obtain net w1 where net: "cp_get_network (ev_cp ev) n w = (Inr net, w1)"
    and rest: "bnd (ensure_localport (ev_oc ev) (ev_cp ev) net) (\<lambda>port.
       case verify_lsp_type (ev_oc ev) (ev_mech ev) (port_id port) n 5 of
         Inl e \<Rightarrow> andthen (swallow (cp_delete_port (ev_cp ev) (port_id port))) (raise e)
       | Inr _ \<Rightarrow> ret port) w1 = (Inr p, w')"
    using run by (auto simp: plugin_ensure_localport_def elim!: bnd_cases)
  note nid = core_reads(4)[OF cp net] and w1 = core_reads(3)[OF cp net]
  obtain q w2 where q: "ensure_localport (ev_oc ev) (ev_cp ev) net w = (Inr q, w2)"
    and v: "(case verify_lsp_type (ev_oc ev) (ev_mech ev) (port_id q) n 5 of
         Inl e \<Rightarrow> andthen (swallow (cp_delete_port (ev_cp ev) (port_id q))) (raise e)
       | Inr _ \<Rightarrow> ret q) w2 = (Inr p, w')"
    using rest[unfolded w1] by (auto elim!: bnd_cases)
  have vq: "\<exists>t. verify_lsp_type (ev_oc ev) (ev_mech ev) (port_id q) n 5 = Inr t" "q = p" "w2 = w'"
    using v by (auto simp: andthen_def bnd_def swallow_run split: sum.splits)
  show "\<exists>t. verify_lsp_type (ev_oc ev) (ev_mech ev) (port_id p) n 5 = Inr t" using vq by simp
  from cp nid q have "(our_ports (ev_oc ev) n (ports w') \<noteq> [] \<and> hd (our_ports (ev_oc ev) n (ports w')) = p)
      \<and> subnets w' = subnets w \<and> (our_ports (ev_oc ev) n (ports w) \<noteq> [] \<longrightarrow> w' = w)"
    by (cases rule: ensure_localport_run) (use vq in auto)
  then show "our_ports (ev_oc ev) n (ports w') \<noteq> [] \<and> hd (our_ports (ev_oc ev) n (ports w')) = p"
      "subnets w' = subnets w" "our_ports (ev_oc ev) n (ports w) \<noteq> [] \<Longrightarrow> w' = w" by auto
qed

lemma plugin_ensure_again:
  assumes cp: "core_ok (ev_cp ev) ports subnets" and net: "\<exists>net. cp_get_network (ev_cp ev) n w = (Inr net, w)"
    and p: "our_ports (ev_oc ev) n (ports w) \<noteq> []" "hd (our_ports (ev_oc ev) n (ports w)) = p"
    and v: "verify_lsp_type (ev_oc ev) (ev_mech ev) (port_id p) n 5 = Inr t"
  shows "plugin_ensure_localport ev n w = (Inr p, w)"
proof -
  obtain net where net: "cp_get_network (ev_cp ev) n w = (Inr net, w)" using assms(2) by blast
  obtain ps where ps: "our_ports (ev_oc ev) n (ports w) = p # ps"
    using p by (metis list.collapse)
  have "ensure_localport (ev_oc ev) (ev_cp ev) net w = (Inr p, w)"
    by (simp add: ensure_localport_def the_key_def core_reads(4)[OF cp net] find_port_run[OF cp] ps)
  then show ?thesis by (simp add: plugin_ensure_localport_def net v)
qed

text \<open>Without a nexthop there is nothing to drop: only pairs with a nexthop are compared.\<close>

lemma wanted_without_port:
  assumes "our_ports (ev_oc ev) (the (sn_network_id t)) ps = []"
  shows "routes_equal (wanted_routes ev ps svcs t) (routes_of t)"
proof -
  have "wanted_routes ev ps svcs t = filter (\<lambda>r. rt_nexthop r \<noteq> None) (routes_of t)"
    using assms by (simp add: wanted_routes_def subnet_routes_def subnet_nexthop_def merge_eq tenant_route_def[abs_def])
  moreover have "usable_pairs (filter (\<lambda>r. rt_nexthop r \<noteq> None) rs) = usable_pairs rs" for rs
    by (induction rs) (auto simp: usable_pairs_def)
  ultimately show ?thesis by (simp add: routes_equal_mset)
qed

text \<open>With no service attached the wanted routes have none via our port.\<close>

lemma wanted_without_services:
  assumes "subnet_nexthop (ev_oc ev) ps t = Some nh"
  shows "(x, nh) \<notin> set (usable_pairs (wanted_routes ev ps [] t))"
  using assms
  by (auto simp: wanted_routes_def usable_pairs_mem merge_eq subnet_routes_def tenant_route_def)

lemma refreshed_routes:
  "sn_ip_version t = Some 4 \<Longrightarrow> routes_equal (routes_of (refreshed ev ps svcs t)) (wanted_routes ev ps svcs t)"
  by (auto simp: refreshed_def routes_of_def routes_equal_def)

text \<open>The two branches of a pass that returns, on the state of the core plugin.\<close>

lemma reconcile_attached_run:
  assumes cp: "core_ok (ev_cp ev) ports subnets" and wf: "subnets_wf (subnets (sv_core s))"
    and svcs: "svcs = enabled_services_for_network (ev_order ev) (ev_ctx ev) (sv_db s) n" "svcs \<noteq> []"
    and run: "reconcile_network ev n s = (Inr (), s')"
  obtains p w1 R where "plugin_ensure_localport ev n (sv_core s) = (Inr p, w1)"
    "ports (sv_core s') = ports w1" "sv_db s' = sv_db s"
    "\<forall>x \<in> R. update_refused ev ports subnets (ports w1) svcs x"
    "subnets (sv_core s') = map (refreshed_except R ev n (ports w1) svcs) (subnets (sv_core s))"
proof -
  have "bnd (on_core (plugin_ensure_localport ev n)) (\<lambda>_. refresh_subnet_routes ev n) s = (Inr (), s')"
    using run svcs by (simp add: reconcile_network_def)
  then obtain p w1 where ens: "plugin_ensure_localport ev n (sv_core s) = (Inr p, w1)"
      and ref: "refresh_subnet_routes ev n (s\<lparr>sv_core := w1\<rparr>) = (Inr (), s')"
    by (cases rule: bnd_cases) (auto simp: on_core_def split: prod.splits)
  have sub: "subnets w1 = subnets (sv_core s)" using plugin_ensure_run(2)[OF cp ens] .
  have wf1: "subnets_wf (subnets (sv_core (s\<lparr>sv_core := w1\<rparr>)))" using wf sub by simp
  have svcs1: "svcs = enabled_services_for_network (ev_order ev) (ev_ctx ev) (sv_db (s\<lparr>sv_core := w1\<rparr>)) n"
    using svcs(1) by simp
  obtain s2 R where s2: "refresh_subnet_routes ev n (s\<lparr>sv_core := w1\<rparr>) = (Inr (), s2)"
      "sv_db s2 = sv_db (s\<lparr>sv_core := w1\<rparr>)" "ports (sv_core s2) = ports (sv_core (s\<lparr>sv_core := w1\<rparr>))"
      "\<forall>x \<in> R. update_refused ev ports subnets (ports (sv_core (s\<lparr>sv_core := w1\<rparr>))) svcs x"
      "subnets (sv_core s2) = map (refreshed_except R ev n (ports (sv_core (s\<lparr>sv_core := w1\<rparr>))) svcs)
         (subnets (sv_core (s\<lparr>sv_core := w1\<rparr>)))"
    by (rule refresh_run[OF cp wf1 svcs1]) (rule that)
  have "s2 = s'" using s2(1) ref by simp
  then show ?thesis using s2 sub by (intro that[OF ens, of R]) simp_all
qed

lemma reconcile_detached_run:
  assumes cp: "core_ok (ev_cp ev) ports subnets" and wf: "subnets_wf (subnets (sv_core s))"
    and none: "enabled_services_for_network (ev_order ev) (ev_ctx ev) (sv_db s) n = []"
    and run: "reconcile_network ev n s = (Inr (), s')"
  obtains R where "sv_db s' = sv_db s"
    "\<forall>x \<in> R. update_refused ev ports subnets (ports (sv_core s)) [] x"
    "subnets (sv_core s') = map (refreshed_except R ev n (ports (sv_core s)) []) (subnets (sv_core s))"
    "ports (sv_core s') = (case our_ports (ev_oc ev) n (ports (sv_core s)) of
        [] \<Rightarrow> ports (sv_core s) | p # _ \<Rightarrow> filter (\<lambda>q. port_id q \<noteq> port_id p) (ports (sv_core s)))"
proof -
  obtain s1 R where s1: "refresh_subnet_routes ev n s = (Inr (), s1)" "sv_db s1 = sv_db s"
    "ports (sv_core s1) = ports (sv_core s)"
    "\<forall>x \<in> R. update_refused ev ports subnets (ports (sv_core s)) [] x"
    "subnets (sv_core s1) = map (refreshed_except R ev n (ports (sv_core s)) []) (subnets (sv_core s))"
    by (rule refresh_run[OF cp wf none[symmetric]]) (rule that)
  have rem: "plugin_maybe_remove_localport ev n s1 = (Inr (), s')"
    using run s1(1) none by (simp add: reconcile_network_def)
  have eff: "enabled_services_for_network (ev_order ev) (ev_ctx ev) (sv_db s1) n = []" using none s1(2) by simp
  have "maybe_remove_localport (ev_oc ev) (ev_cp ev) n False (sv_core s1) =
      (case our_ports (ev_oc ev) n (ports (sv_core s)) of [] \<Rightarrow> (Inr False, sv_core s1)
       | p # _ \<Rightarrow> andthen (cp_delete_port (ev_cp ev) (port_id p)) (ret True) (sv_core s1))"
    by (simp add: maybe_remove_localport_def find_port_run[OF cp] s1(3) split: list.split)
  then have del: "(case our_ports (ev_oc ev) n (ports (sv_core s)) of [] \<Rightarrow> sv_core s' = sv_core s1
       | p # _ \<Rightarrow> cp_delete_port (ev_cp ev) (port_id p) (sv_core s1) = (Inr (), sv_core s'))"
    using rem eff
    by (auto simp: plugin_maybe_remove_localport_def on_core_def bnd_def andthen_def
        split: list.splits prod.splits sum.splits)
  have "subnets (sv_core s') = map (refreshed_except R ev n (ports (sv_core s)) []) (subnets (sv_core s))"
    using del core_delete(1)[OF cp] s1(5) by (auto split: list.splits)
  moreover have "ports (sv_core s') = (case our_ports (ev_oc ev) n (ports (sv_core s)) of
        [] \<Rightarrow> ports (sv_core s) | p # _ \<Rightarrow> filter (\<lambda>q. port_id q \<noteq> port_id p) (ports (sv_core s)))"
    using del core_delete(3)[OF cp _ refl] s1(3) by (auto split: list.splits)
  ultimately show ?thesis using that[OF keepsD[OF reconcile_keeps_db run] s1(4)] by blast
qed

section \<open>Properties\<close>

text \<open>The demo deployment before its first pass, without a localport.\<close>

definition demo_ev :: "(nat, nat \<times> nat, mem) env" where
  "demo_ev = \<lparr>ev_na = netaddr_v4, ev_oc = demo_oc, ev_order = remdups, ev_ctx = (\<lambda>_. True), ev_cp = mem_core,
     ev_mech = None, ev_conf = default_vip_conf, ev_commit = (\<lambda>_ _. None)\<rparr>"

definition demo_server :: "mem server" where
  "demo_server = \<lparr>sv_db = demo_db, sv_core = \<lparr>mem_ports = [], mem_subnets = [demo_subnet]\<rparr>\<rparr>"

lemma demo_ev_sel [simp]:
  "ev_na demo_ev = netaddr_v4" "ev_oc demo_ev = demo_oc" "ev_order demo_ev = remdups" "ev_ctx demo_ev = (\<lambda>_. True)"
  "ev_cp demo_ev = mem_core" "ev_mech demo_ev = None" "ev_conf demo_ev = default_vip_conf" "ev_commit demo_ev d d' = None"
  by (simp_all add: demo_ev_def)

lemma demo_wf: "subnets_wf [demo_subnet]" "subnets_wf [demo_subnet\<lparr>sn_host_routes := r\<rparr>]"
  by (simp_all add: subnets_wf_def demo_subnet_def)

lemma demo_ensured:
  "plugin_ensure_localport demo_ev ''n1'' \<lparr>mem_ports = [], mem_subnets = [demo_subnet]\<rparr> =
     (Inr demo_port, demo_mem)"
  by (simp add: plugin_ensure_localport_def ensure_localport_def the_key_def find_port_def pick_subnet_def
      verify_lsp_type_def localport_body_def mem_port_def mem_next_id_def demo_defs Let_def)

lemma demo_wanted:
  "wanted_routes demo_ev [demo_port] [make_service_dict demo_service] demo_subnet =
     [service_route ''169.254.1.53'' ''10.0.0.2'']"
  using demo_routes by (simp add: wanted_routes_def merge_eq) (simp add: demo_subnet_def routes_of_def)

text \<open>The state after the first pass: the localport and the route.\<close>

definition demo_server' :: "mem server" where
  "demo_server' = \<lparr>sv_db = demo_db, sv_core = \<lparr>mem_ports = [demo_port],
     mem_subnets = [demo_subnet\<lparr>sn_host_routes := Some (Some [service_route ''169.254.1.53'' ''10.0.0.2''])\<rparr>]\<rparr>\<rparr>"

lemma demo_not_yet: "\<not> routes_equal [service_route ''169.254.1.53'' ''10.0.0.2''] (routes_of demo_subnet)"
  by (simp add: routes_equal_mset usable_pairs_def service_route_def demo_subnet_def routes_of_def)

lemma demo_reconciled: "reconcile_network demo_ev ''n1'' demo_server = (Inr (), demo_server')"
proof -
  have v: "sn_network_id demo_subnet = Some ''n1''" "sn_id demo_subnet = Some ''sub1''" "sn_ip_version demo_subnet = Some 4"
    by (simp_all add: demo_subnet_def)
  have "core_ok (ev_cp demo_ev) mem_ports mem_subnets" using mem_core_ok by simp
  from refresh_subnet_run[OF this v(1,2), of "[make_service_dict demo_service]" demo_mem]
  have one: "refresh_subnet demo_ev [make_service_dict demo_service] demo_subnet demo_mem = (Inr (), sv_core demo_server')"
    using demo_wanted demo_not_yet v by (simp add: demo_mem_def demo_server'_def set_routes_def)
  have get: "cp_get_subnets mem_core ''n1'' demo_mem = (Inr [demo_subnet], demo_mem)"
    by (simp add: demo_mem_def v(1))
  have "refresh_subnet_routes demo_ev ''n1'' (demo_server\<lparr>sv_core := demo_mem\<rparr>) = (Inr (), demo_server')"
    using one get by (simp add: refresh_subnet_routes_def on_core_def demo_server_def demo_services bnd_def)
      (simp add: demo_server'_def)
  then show ?thesis
    using demo_ensured by (simp add: reconcile_network_def demo_services demo_server_def on_core_def bnd_def)
qed

text \<open>
  C14. Attaching: a pass that returns on a network with attached services leaves the network with our
  localport, and every IPv4 subnet of it with the merge of the routes it had and the routes of the
  services, unless Neutron refused the update of that very subnet, which then is as it was (the plugin
  swallows the failure and goes on with the other subnets); the catalog and the subnets of other networks
  stay as they were.
\<close>

theorem reconcile_attaches:
  assumes "core_ok (ev_cp ev) ports subnets" and "subnets_wf (subnets (sv_core s))"
    and "enabled_services_for_network (ev_order ev) (ev_ctx ev) (sv_db s) n = svcs" "svcs \<noteq> []"
    and "reconcile_network ev n s = (Inr (), s')"
  shows "(\<exists>p \<in> set (ports (sv_core s')). port_network_id p = n \<and> is_our_port (ev_oc ev) p)
    \<and> sv_db s' = sv_db s
    \<and> map sn_id (subnets (sv_core s')) = map sn_id (subnets (sv_core s))
    \<and> (\<forall>k < length (subnets (sv_core s)). let t = subnets (sv_core s) ! k; t' = subnets (sv_core s') ! k in
         if sn_network_id t = Some n \<and> sn_ip_version t = Some 4
         then routes_equal (routes_of t') (merge (routes_of t)
                (subnet_routes (ev_na ev) (ev_oc ev) (ports (sv_core s')) t svcs)
                (subnet_nexthop (ev_oc ev) (ports (sv_core s')) t))
              \<or> t' = t \<and> update_refused ev ports subnets (ports (sv_core s')) svcs t
         else t' = t)"
proof -
  obtain p w1 R where run: "plugin_ensure_localport ev n (sv_core s) = (Inr p, w1)"
    "ports (sv_core s') = ports w1" "sv_db s' = sv_db s"
    "\<forall>x \<in> R. update_refused ev ports subnets (ports w1) svcs x"
    "subnets (sv_core s') = map (refreshed_except R ev n (ports w1) svcs) (subnets (sv_core s))"
    by (rule reconcile_attached_run[OF assms(1,2) assms(3)[symmetric] assms(4,5)]) (rule that)
  have "p \<in> set (our_ports (ev_oc ev) n (ports w1))"
    using plugin_ensure_run(1)[OF assms(1) run(1)] by (metis list.set_sel(1))
  then have port: "\<exists>p \<in> set (ports (sv_core s')). port_network_id p = n \<and> is_our_port (ev_oc ev) p"
    using run(2) our_device_id by (auto simp: port_matches_def)
  have one: "if sn_network_id t = Some n \<and> sn_ip_version t = Some 4
      then routes_equal (routes_of (refreshed_except R ev n (ports w1) svcs t)) (wanted_routes ev (ports w1) svcs t)
        \<or> refreshed_except R ev n (ports w1) svcs t = t \<and> update_refused ev ports subnets (ports w1) svcs t
      else refreshed_except R ev n (ports w1) svcs t = t" for t
    using run(4) refreshed_routes[of t ev "ports w1" svcs] by (auto simp: refreshed_except_def refreshed_def)
  have "map sn_id (subnets (sv_core s')) = map sn_id (subnets (sv_core s))"
    by (simp add: run(5))
  then show ?thesis
    using port run(3) one unfolding wanted_routes_def by (simp add: run(2,5) Let_def)
qed

theorem reconcile_attaches_witness:
  "\<exists>s'. reconcile_network demo_ev ''n1'' demo_server = (Inr (), s')
     \<and> (\<exists>p \<in> set (mem_ports (sv_core s')). port_network_id p = ''n1'' \<and> is_our_port demo_oc p)"
proof -
  have "core_ok (ev_cp demo_ev) mem_ports mem_subnets" "subnets_wf (mem_subnets (sv_core demo_server))"
      "enabled_services_for_network (ev_order demo_ev) (ev_ctx demo_ev) (sv_db demo_server) ''n1'' = [make_service_dict demo_service]"
    using mem_core_ok demo_wf demo_services by (simp_all add: demo_server_def)
  from reconcile_attaches[OF this _ demo_reconciled] demo_reconciled show ?thesis by simp
qed

lemma reconcile_ports_gone:
  assumes "length (our_ports oc n ps) \<le> 1"
    and "qs = (case our_ports oc n ps of [] \<Rightarrow> ps | p # _ \<Rightarrow> filter (\<lambda>q. port_id q \<noteq> port_id p) ps)"
  shows "our_ports oc n qs = []"
proof (cases "our_ports oc n ps")
  case (Cons p rest)
  then have "our_ports oc n ps = [p]" using assms(1) by simp
  moreover have "our_ports oc n (filter (\<lambda>q. port_id q \<noteq> port_id p) ps) = filter (\<lambda>q. port_id q \<noteq> port_id p) (our_ports oc n ps)"
    by (simp add: conj_commute)
  ultimately show ?thesis by (simp add: assms(2))
qed (simp add: assms(2))

text \<open>
  Detaching: a pass that returns on a network without attached services removes our
  localport (where it had one at most) and leaves, in its IPv4 subnets, no usable route via the
  address that port had there, unless Neutron refused the update of that subnet.
\<close>

theorem reconcile_detaches:
  assumes "core_ok (ev_cp ev) ports subnets"
    and "subnets_wf (subnets (sv_core s))" and "length (our_ports (ev_oc ev) n (ports (sv_core s))) \<le> 1"
    and "enabled_services_for_network (ev_order ev) (ev_ctx ev) (sv_db s) n = []"
    and "reconcile_network ev n s = (Inr (), s')"
  shows "our_ports (ev_oc ev) n (ports (sv_core s')) = [] \<and> sv_db s' = sv_db s
    \<and> (\<forall>t \<in> set (subnets (sv_core s')). sn_network_id t = Some n \<and> sn_ip_version t = Some 4 \<longrightarrow>
         (\<forall>x nh. subnet_nexthop (ev_oc ev) (ports (sv_core s)) t = Some nh \<longrightarrow> (x, nh) \<notin> set (usable_pairs (routes_of t)))
         \<or> update_refused ev ports subnets (ports (sv_core s)) [] t)"
proof -
  obtain R where run: "sv_db s' = sv_db s" "\<forall>x \<in> R. update_refused ev ports subnets (ports (sv_core s)) [] x"
    "subnets (sv_core s') = map (refreshed_except R ev n (ports (sv_core s)) []) (subnets (sv_core s))"
    "ports (sv_core s') = (case our_ports (ev_oc ev) n (ports (sv_core s)) of
        [] \<Rightarrow> ports (sv_core s) | p # _ \<Rightarrow> filter (\<lambda>q. port_id q \<noteq> port_id p) (ports (sv_core s)))"
    by (rule reconcile_detached_run[OF assms(1,2,4,5)]) (rule that)
  have "our_ports (ev_oc ev) n (ports (sv_core s')) = []"
    by (rule reconcile_ports_gone[OF assms(3) run(4)])
  moreover have "(x, nh) \<notin> set (usable_pairs (routes_of t))"
    if t: "t \<in> set (subnets (sv_core s'))" "sn_network_id t = Some n" "sn_ip_version t = Some 4"
      and nh: "subnet_nexthop (ev_oc ev) (ports (sv_core s)) t = Some nh"
      and went: "\<not> update_refused ev ports subnets (ports (sv_core s)) [] t" for t x nh
  proof -
    obtain t0 where t0: "t = refreshed ev (ports (sv_core s)) [] t0"
      using t(1,2) went run(2) by (auto simp: run(3) refreshed_except_def split: if_splits)
    then have v: "sn_ip_version t0 = Some 4" using t(3) by simp
    have same: "subnet_nexthop (ev_oc ev) (ports (sv_core s)) t0 = Some nh"
      using nh subnet_routes_cong(1)[of t t0] by (simp add: t0)
    have "mset (usable_pairs (routes_of t)) = mset (usable_pairs (wanted_routes ev (ports (sv_core s)) [] t0))"
      using refreshed_routes[OF v] unfolding t0 routes_equal_mset .
    then show ?thesis using wanted_without_services[OF same] mset_eq_setD by blast
  qed
  ultimately show ?thesis using run(1) by blast
qed

text \<open>In the witness the service has been disabled after the first pass.\<close>

definition demo_disabled :: "mem server" where
  "demo_disabled = demo_server'\<lparr>sv_db := demo_db\<lparr>db_services := [demo_service\<lparr>svc_enabled := False\<rparr>]\<rparr>\<rparr>"

theorem reconcile_detaches_witness:
  "\<exists>s'. reconcile_network demo_ev ''n1'' demo_disabled = (Inr (), s')
     \<and> our_ports demo_oc ''n1'' (mem_ports (sv_core s')) = []"
proof -
  have pre: "core_ok (ev_cp demo_ev) mem_ports mem_subnets" "subnets_wf (mem_subnets (sv_core demo_disabled))"
      "length (our_ports (ev_oc demo_ev) ''n1'' (mem_ports (sv_core demo_disabled))) \<le> 1"
      "enabled_services_for_network (ev_order demo_ev) (ev_ctx demo_ev) (sv_db demo_disabled) ''n1'' = []"
    using mem_core_ok demo_wf
    by (simp_all add: demo_disabled_def demo_server'_def enabled_services_for_network_def
        get_local_service_bindings_def get_local_services_def collection_query_def among_def demo_db_def
        demo_service_def Let_def)
  obtain s1 where s1: "refresh_subnet_routes demo_ev ''n1'' demo_disabled = (Inr (), s1)" "sv_db s1 = sv_db demo_disabled"
    by (rule refresh_run[OF pre(1,2) pre(4)[symmetric]]) (rule that)
  have "\<exists>s'. reconcile_network demo_ev ''n1'' demo_disabled = (Inr (), s')"
    using s1 pre(4) by (auto simp: reconcile_network_def plugin_maybe_remove_localport_def
        maybe_remove_localport_def find_port_def on_core_def bnd_def andthen_def split: option.splits)
  then obtain s' where run: "reconcile_network demo_ev ''n1'' demo_disabled = (Inr (), s')" by blast
  from reconcile_detaches[OF pre run] run show ?thesis by auto
qed

lemma subnets_wf_refreshed:
  "subnets_wf (map (refreshed_except R ev n ps svcs) ts) = subnets_wf ts"
proof -
  have ids: "map sn_id (map (refreshed_except R ev n ps svcs) ts) = map sn_id ts" by simp
  then have "sn_id ` set (map (refreshed_except R ev n ps svcs) ts) = sn_id ` set ts"
    by (metis list.set_map)
  then show ?thesis unfolding subnets_wf_def by (simp only: ids)
qed

text \<open>What a second pass finds: an IPv4 subnet of the network is up to date or was refused, and our port is there to stay.\<close>

lemma reconcile_leaves:
  assumes cp: "core_ok (ev_cp ev) ports subnets"
    and wf: "subnets_wf (subnets (sv_core s))" and one: "length (our_ports (ev_oc ev) n (ports (sv_core s))) \<le> 1"
    and svcs: "svcs = enabled_services_for_network (ev_order ev) (ev_ctx ev) (sv_db s) n"
    and run: "reconcile_network ev n s = (Inr (), s1)"
  shows "subnets_wf (subnets (sv_core s1))"
    and "\<And>t. t \<in> set (subnets (sv_core s1)) \<Longrightarrow> sn_network_id t = Some n \<Longrightarrow> sn_ip_version t = Some 4 \<Longrightarrow>
      routes_equal (wanted_routes ev (ports (sv_core s1)) svcs t) (routes_of t)
      \<or> update_refused ev ports subnets (ports (sv_core s1)) svcs t \<and> t \<in> set (subnets (sv_core s))"
    and "svcs = [] \<Longrightarrow> our_ports (ev_oc ev) n (ports (sv_core s1)) = []"
    and "svcs \<noteq> [] \<Longrightarrow> \<exists>net. cp_get_network (ev_cp ev) n (sv_core s1) = (Inr net, sv_core s1) \<Longrightarrow>
      \<exists>p. plugin_ensure_localport ev n (sv_core s1) = (Inr p, sv_core s1)"
proof -
  have "subnets_wf (subnets (sv_core s1))
    \<and> (\<forall>t \<in> set (subnets (sv_core s1)). sn_network_id t = Some n \<and> sn_ip_version t = Some 4 \<longrightarrow>
        routes_equal (wanted_routes ev (ports (sv_core s1)) svcs t) (routes_of t)
        \<or> update_refused ev ports subnets (ports (sv_core s1)) svcs t \<and> t \<in> set (subnets (sv_core s)))
    \<and> (svcs = [] \<longrightarrow> our_ports (ev_oc ev) n (ports (sv_core s1)) = [])
    \<and> (svcs \<noteq> [] \<longrightarrow> (\<exists>net. cp_get_network (ev_cp ev) n (sv_core s1) = (Inr net, sv_core s1)) \<longrightarrow>
      (\<exists>p. plugin_ensure_localport ev n (sv_core s1) = (Inr p, sv_core s1)))"
  proof (cases "svcs = []")
    case False
    obtain p w1 R where r: "plugin_ensure_localport ev n (sv_core s) = (Inr p, w1)"
        "ports (sv_core s1) = ports w1" "sv_db s1 = sv_db s"
        "\<forall>x \<in> R. update_refused ev ports subnets (ports w1) svcs x"
        "subnets (sv_core s1) = map (refreshed_except R ev n (ports w1) svcs) (subnets (sv_core s))"
      by (rule reconcile_attached_run[OF cp wf svcs False run]) (rule that)
    have left: "routes_equal (wanted_routes ev (ports w1) svcs t) (routes_of t)
        \<or> update_refused ev ports subnets (ports w1) svcs t \<and> t \<in> set (subnets (sv_core s))"
      if t: "t \<in> set (subnets (sv_core s1))" "sn_network_id t = Some n" "sn_ip_version t = Some 4" for t
    proof -
      obtain t0 where t0: "t0 \<in> set (subnets (sv_core s))" "t = refreshed_except R ev n (ports w1) svcs t0"
        using t(1) by (auto simp: r(5))
      then show ?thesis using refreshed_or_refused[OF r(4), of t0 n] t(2,3) by auto
    qed
    obtain lsp where "verify_lsp_type (ev_oc ev) (ev_mech ev) (port_id p) n 5 = Inr lsp"
      using plugin_ensure_run(4)[OF cp r(1)] by blast
    then have "plugin_ensure_localport ev n (sv_core s1) = (Inr p, sv_core s1)"
      if "\<exists>net. cp_get_network (ev_cp ev) n (sv_core s1) = (Inr net, sv_core s1)"
      using plugin_ensure_again[OF cp that] plugin_ensure_run(1)[OF cp r(1)] r(2) by simp
    moreover have "subnets_wf (subnets (sv_core s1))" using wf by (simp only: r(5) subnets_wf_refreshed)
    ultimately show ?thesis using False left r(2) by auto
  next
    case True
    obtain R where r: "\<forall>x \<in> R. update_refused ev ports subnets (ports (sv_core s)) [] x"
        "subnets (sv_core s1) = map (refreshed_except R ev n (ports (sv_core s)) []) (subnets (sv_core s))"
        "ports (sv_core s1) = (case our_ports (ev_oc ev) n (ports (sv_core s)) of
            [] \<Rightarrow> ports (sv_core s) | p # _ \<Rightarrow> filter (\<lambda>q. port_id q \<noteq> port_id p) (ports (sv_core s)))"
      by (rule reconcile_detached_run[OF cp wf True[unfolded svcs] run]) (rule that)
    have ours: "our_ports (ev_oc ev) n (ports (sv_core s1)) = []"
      using reconcile_ports_gone[OF one r(3)] .
    have "subnets_wf (subnets (sv_core s1))" using wf by (simp only: r(2) subnets_wf_refreshed)
    then show ?thesis using True ours wanted_without_port[where ev = ev and ps = "ports (sv_core s1)" and svcs = svcs] by simp
  qed
  then show "subnets_wf (subnets (sv_core s1))"
    and "\<And>t. t \<in> set (subnets (sv_core s1)) \<Longrightarrow> sn_network_id t = Some n \<Longrightarrow> sn_ip_version t = Some 4 \<Longrightarrow>
      routes_equal (wanted_routes ev (ports (sv_core s1)) svcs t) (routes_of t)
      \<or> update_refused ev ports subnets (ports (sv_core s1)) svcs t \<and> t \<in> set (subnets (sv_core s))"
    and "svcs = [] \<Longrightarrow> our_ports (ev_oc ev) n (ports (sv_core s1)) = []"
    and "svcs \<noteq> [] \<Longrightarrow> \<exists>net. cp_get_network (ev_cp ev) n (sv_core s1) = (Inr net, sv_core s1) \<Longrightarrow>
      \<exists>p. plugin_ensure_localport ev n (sv_core s1) = (Inr p, sv_core s1)" by auto
qed

text \<open>A second pass is the refresh of the routes, or the failure to read the network.\<close>

lemma second_pass:
  assumes cp: "core_ok (ev_cp ev) ports subnets"
    and wf: "subnets_wf (subnets (sv_core s))" and one: "length (our_ports (ev_oc ev) n (ports (sv_core s))) \<le> 1"
    and run: "reconcile_network ev n s = (Inr (), s1)" and again: "reconcile_network ev n s1 = (r, s2)"
  obtains (unread) e where "r = Inl e" "s2 = s1" "cp_get_network (ev_cp ev) n (sv_core s1) = (Inl e, sv_core s1)"
    | (refreshed) "r = Inr ()" "refresh_subnet_routes ev n s1 = (Inr (), s2)"
proof -
  define svcs where "svcs = enabled_services_for_network (ev_order ev) (ev_ctx ev) (sv_db s) n"
  have svcs': "svcs = enabled_services_for_network (ev_order ev) (ev_ctx ev) (sv_db s1) n"
    using keepsD[OF reconcile_keeps_db run] by (simp add: svcs_def)
  note left = reconcile_leaves[OF cp wf one svcs_def run]
  obtain s3 where ref: "refresh_subnet_routes ev n s1 = (Inr (), s3)"
      "sv_db s3 = sv_db s1" "ports (sv_core s3) = ports (sv_core s1)"
    by (rule refresh_run[OF cp left(1) svcs']) (rule that)
  show ?thesis
  proof (cases "svcs = []")
    case True
    have eff: "enabled_services_for_network (ev_order ev) (ev_ctx ev) (sv_db s3) n = []" using True svcs' ref(2) by simp
    have "plugin_maybe_remove_localport ev n s3 = (Inr (), s3)"
      by (simp add: plugin_maybe_remove_localport_def maybe_remove_localport_def on_core_def
          find_port_run[OF cp] ref(3) left(3)[OF True] bnd_def eff)
    then show ?thesis using refreshed again ref(1) True svcs' by (simp add: reconcile_network_def)
  next
    case False
    obtain x w where net: "cp_get_network (ev_cp ev) n (sv_core s1) = (x, w)" by fastforce
    have w: "w = sv_core s1" using core_reads(3)[OF cp net] .
    show ?thesis
    proof (cases x)
      case (Inl e)
      then show ?thesis
        using unread again False svcs' net w
        by (auto simp: reconcile_network_def plugin_ensure_localport_def on_core_def bnd_def)
    next
      case (Inr y)
      then obtain p where "plugin_ensure_localport ev n (sv_core s1) = (Inr p, sv_core s1)"
        using left(4)[OF False] net w by blast
      then show ?thesis
        using refreshed again ref(1) False svcs' by (simp add: reconcile_network_def on_core_def bnd_def)
    qed
  qed
qed

text \<open>
  C15. One pass is enough. After a pass that returned, on a network with at most one localport of ours, a second
  pass leaves the catalog and the ports as they are and touches a subnet only where Neutron refused the update in the
  first pass: the subnet then is as it was before the first pass, and the second pass at most gives it the routes it should
  have had. Without a refusal the second pass changes nothing at all. It returns unless Neutron raises when the network is
  read, and then nothing has changed either.
\<close>

theorem reconcile_stable:
  assumes cp: "core_ok (ev_cp ev) ports subnets" and wf: "subnets_wf (subnets (sv_core s))"
    and one: "length (our_ports (ev_oc ev) n (ports (sv_core s))) \<le> 1"
    and svcs: "enabled_services_for_network (ev_order ev) (ev_ctx ev) (sv_db s) n = svcs"
    and run: "reconcile_network ev n s = (Inr (), s1)" and again: "reconcile_network ev n s1 = (r, s2)"
  shows "(case r of Inr _ \<Rightarrow> True | Inl e \<Rightarrow> s2 = s1 \<and> cp_get_network (ev_cp ev) n (sv_core s1) = (Inl e, sv_core s1))
    \<and> sv_db s2 = sv_db s \<and> ports (sv_core s2) = ports (sv_core s1)
    \<and> length (subnets (sv_core s2)) = length (subnets (sv_core s1))
    \<and> (\<forall>k < length (subnets (sv_core s1)). let t1 = subnets (sv_core s1) ! k; t2 = subnets (sv_core s2) ! k in
         t2 = t1 \<or> sn_network_id t1 = Some n \<and> t1 \<in> set (subnets (sv_core s))
           \<and> update_refused ev ports subnets (ports (sv_core s1)) svcs t1
           \<and> routes_equal (routes_of t2) (wanted_routes ev (ports (sv_core s1)) svcs t1))
    \<and> (s2 = s1 \<or> (\<exists>t \<in> set (subnets (sv_core s1)). sn_network_id t = Some n
         \<and> update_refused ev ports subnets (ports (sv_core s1)) svcs t))"
proof -
  note left = reconcile_leaves[OF cp wf one svcs[symmetric] run]
  have db: "sv_db s2 = sv_db s" "sv_db s1 = sv_db s"
    using keepsD[OF reconcile_keeps_db run] keepsD[OF reconcile_keeps_db again] by simp_all
  have svcs': "svcs = enabled_services_for_network (ev_order ev) (ev_ctx ev) (sv_db s1) n" using svcs db(2) by simp
  from cp wf one run again show ?thesis
  proof (cases rule: second_pass)
    case (unread e)
    then show ?thesis using db by simp
  next
    case refreshed
    obtain s3 R where ref: "refresh_subnet_routes ev n s1 = (Inr (), s3)" "sv_db s3 = sv_db s1"
        "ports (sv_core s3) = ports (sv_core s1)"
        "subnets (sv_core s3) = map (refreshed_except R ev n (ports (sv_core s1)) svcs) (subnets (sv_core s1))"
      by (rule refresh_run[OF cp left(1) svcs']) (rule that)
    have s3: "s3 = s2" using ref(1) refreshed(2) by simp
    let ?f = "refreshed_except R ev n (ports (sv_core s1)) svcs"
    have one_subnet: "?f t = t \<or> sn_network_id t = Some n \<and> t \<in> set (subnets (sv_core s))
        \<and> update_refused ev ports subnets (ports (sv_core s1)) svcs t
        \<and> routes_equal (routes_of (?f t)) (wanted_routes ev (ports (sv_core s1)) svcs t)"
      if t: "t \<in> set (subnets (sv_core s1))" for t
      using left(2)[OF t] refreshed_routes[of t ev "ports (sv_core s1)" svcs]
      by (auto simp: refreshed_except_def) (auto simp: refreshed_def split: if_splits)
    have "s2 = s1" if "\<not> (\<exists>t \<in> set (subnets (sv_core s1)). sn_network_id t = Some n
         \<and> update_refused ev ports subnets (ports (sv_core s1)) svcs t)"
    proof -
      have "refresh_subnet_routes ev n s1 = (Inr (), s1)"
        by (rule refresh_quiet[OF cp left(1) svcs']) (use left(2) that in blast)
      then show ?thesis using refreshed(2) by simp
    qed
    then show ?thesis
      using refreshed(1) db ref(3,4) one_subnet unfolding s3 by (auto simp: Let_def)
  qed
qed

theorem reconcile_stable_witness:
  "\<exists>r s2. reconcile_network demo_ev ''n1'' demo_server' = (r, s2) \<and> sv_db s2 = demo_db \<and> mem_ports (sv_core s2) = [demo_port]"
proof -
  obtain r s2 where again: "reconcile_network demo_ev ''n1'' demo_server' = (r, s2)" by fastforce
  have pre: "core_ok (ev_cp demo_ev) mem_ports mem_subnets" "subnets_wf (mem_subnets (sv_core demo_server))"
      "length (our_ports (ev_oc demo_ev) ''n1'' (mem_ports (sv_core demo_server))) \<le> 1"
    using mem_core_ok demo_wf by (simp_all add: demo_server_def)
  from reconcile_stable[OF pre refl demo_reconciled again] again
  show ?thesis by (simp add: demo_server_def demo_server'_def)
qed

lemma parse_vips_all:
  assumes "parse_vips na vs = Inr ips" and "v \<in> set vs" and "truthy_str v"
  shows "\<exists>ip \<in> set ips. IPAddress na (the v) = Some ip"
  using assms
proof (induction vs arbitrary: ips)
  case (Cons u vs)
  then show ?case
    by (cases "parse_vips na vs") (auto simp: ip_or_raise_def map_sum.simps split: if_splits option.splits sum.splits)
qed simp

lemma first_overlap_None:
  assumes "first_overlap na vips ss = None" and "s \<in> set ss"
    and "dget (sn_cidr s) = Some cidr" "cidr \<noteq> []" "IPNetwork na cidr = Some net" and "vip \<in> set vips"
  shows "\<not> same_family_in na vip net"
  using assms by (induction ss) (auto simp: find_None_iff split: option.splits if_splits)

lemma first_overlap_Nil [simp]: "first_overlap na [] ts = None"
  by (induction ts) (auto split: option.splits)

lemma overlap_check_passed:
  assumes cp: "core_ok (ev_cp ev) ports subnets"
    and run: "refuse_vips_overlap_network ev vips n w = (Inr (), w')"
  shows "w' = w" and "first_overlap (ev_na ev) vips (filter (\<lambda>t. sn_network_id t = Some n) (subnets w)) = None"
proof -
  have "refuse_vips_overlap_network ev vips n w =
      (case first_overlap (ev_na ev) vips (filter (\<lambda>t. sn_network_id t = Some n) (subnets w)) of
         Some (vip, cidr) \<Rightarrow> (Inl (VIPOverlapsSubnetError vip cidr), w) | None \<Rightarrow> (Inr (), w))"
    by (simp add: refuse_vips_overlap_network_def core_reads(2)[OF cp] split: option.split)
  then show "w' = w" "first_overlap (ev_na ev) vips (filter (\<lambda>t. sn_network_id t = Some n) (subnets w)) = None"
    using run by (auto split: option.splits)
qed

text \<open>No VIP in the list is inside a parseable subnet of the network.\<close>

definition vips_off_link :: "('ip, 'net) netaddr \<Rightarrow> string option list \<Rightarrow> string \<Rightarrow> subnet list \<Rightarrow> bool" where
  "vips_off_link na vs n ts \<longleftrightarrow> (\<forall>t \<in> set ts. \<forall>cidr net. sn_network_id t = Some n \<and> sn_cidr t = Some (Some cidr) \<and> cidr \<noteq> []
     \<and> IPNetwork na cidr = Some net \<longrightarrow> (\<forall>v \<in> set vs. \<not> vip_in na net v))"

lemma off_linkI:
  assumes "parse_vips na vs = Inr ips" and "first_overlap na ips (filter (\<lambda>t. sn_network_id t = Some n) ts) = None"
  shows "vips_off_link na vs n ts"
  unfolding vips_off_link_def vip_in_def
proof (intro ballI allI impI notI, elim conjE exE)
  fix t cidr net v ip
  assume t: "t \<in> set ts" "sn_network_id t = Some n" "sn_cidr t = Some (Some cidr)" "cidr \<noteq> []" "IPNetwork na cidr = Some net"
    and v: "v \<in> set vs" "truthy_str v" "IPAddress na (the v) = Some ip" "same_family_in na ip net"
  have "ip \<in> set ips" using parse_vips_all[OF assms(1) v(1,2)] v(3) by auto
  then show False using first_overlap_None[OF assms(2), of t cidr net ip] t v(4) by simp
qed

lemma binding_check_passed:
  assumes cp: "core_ok (ev_cp ev) ports subnets" and wf: "db_wf (sv_db s)"
    and run: "refuse_vip_subnet_overlap ev si n s = (Inr (), s')"
    and svc: "svc \<in> set (db_services (sv_db s))" "svc_id svc = si"
  shows "s' = s \<and> vips_off_link (ev_na ev) [svc_local_ipv4 svc, svc_local_ipv6 svc] n (subnets (sv_core s))"
proof -
  have found: "get_local_service (sv_db s) si = Inr (make_service_dict svc)"
    using get_local_service_iff[OF wf] svc by blast
  obtain ips where ips: "parse_vips (ev_na ev) [svc_local_ipv4 svc, svc_local_ipv6 svc] = Inr ips"
    using run found by (cases "service_vips (ev_na ev) (make_service_dict svc)")
      (auto simp: refuse_vip_subnet_overlap_def lift_check_def service_vips_def)
  show ?thesis
  proof (cases "ips = []")
    case True
    have "vips_off_link (ev_na ev) [svc_local_ipv4 svc, svc_local_ipv6 svc] n (subnets (sv_core s))"
      by (rule off_linkI[OF ips]) (simp add: True)
    then show ?thesis
      using run found ips True
      by (simp add: refuse_vip_subnet_overlap_def lift_check_def service_vips_def)
  next
    case False
    then have "on_core (refuse_vips_overlap_network ev ips n) s = (Inr (), s')"
      using run found ips by (simp add: refuse_vip_subnet_overlap_def lift_check_def service_vips_def)
    then obtain w where w: "refuse_vips_overlap_network ev ips n (sv_core s) = (Inr (), w)" "s' = s\<lparr>sv_core := w\<rparr>"
      by (auto simp: on_core_def split: prod.splits)
    show ?thesis using overlap_check_passed[OF cp w(1)] w(2) off_linkI[OF ips] by simp
  qed
qed

text \<open>
  C16. Creating a binding is all or nothing for the catalog: when the request raises, whether in the overlap check, in
  the write or in the reconciliation after it, the database is what it was, with one exception: the reconciliation raised
  and the database also refused the transaction that rolls the row back. Then the row stays, and the error of the
  request is the one of the reconciliation. When the request returns, exactly the new binding was added.
\<close>

theorem create_binding_atomic:
  assumes "create_local_service_binding ev i body s = (r, s')"
  shows "case r of
      Inl e \<Rightarrow> sv_db s' = sv_db s
        \<or> (\<exists>row n s1 f. nb_network_id body = Some n \<and> bi_network_id row = n \<and> bi_id row = i
            \<and> sv_db s' = (sv_db s)\<lparr>db_bindings := db_bindings (sv_db s) @ [row]\<rparr>
            \<and> reconcile_network ev n s1 = (Inl e, s') \<and> ev_commit ev (sv_db s') (sv_db s) = Some f)
    | Inr b \<Rightarrow> \<exists>row. b = make_binding_dict row \<and> bi_id row = i \<and> i \<notin> bi_id ` set (db_bindings (sv_db s))
        \<and> nb_service_id body = Some (bi_service_id row) \<and> nb_network_id body = Some (bi_network_id row)
        \<and> sv_db s' = (sv_db s)\<lparr>db_bindings := db_bindings (sv_db s) @ [row]\<rparr>"
  using assms
proof (cases rule: create_binding_db)
  case (made b si n s1)
  show ?thesis unfolding made(1) sum.case by (rule create_binding_run[OF made(2)]) blast
next
  case (kept e b f n s1)
  show ?thesis unfolding kept(1) sum.case by (rule create_binding_run[OF kept(2)]) (use kept(3-5) in auto)
qed simp

definition demo_body :: binding_body where
  "demo_body = \<lparr>nb_project_id = Some ''admin'', nb_service_id = Some ''s1'', nb_network_id = Some ''n1'', nb_enabled = None\<rparr>"

definition demo_row :: binding where
  "demo_row = \<lparr>bi_id = ''b1'', bi_project_id = Some ''admin'', bi_service_id = ''s1'', bi_network_id = ''n1'', bi_enabled = True\<rparr>"

lemma demo_check:
  assumes "ev_na ev = netaddr_v4" "cp_get_subnets (ev_cp ev) = cp_get_subnets mem_core" "mem_subnets (sv_core s) = [demo_subnet\<lparr>sn_host_routes := x\<rparr>]"
    "sv_db s = demo_db"
  shows "refuse_vip_subnet_overlap ev ''s1'' ''n1'' s = (Inr (), s)"
proof -
  have "get_local_service demo_db ''s1'' = Inr (make_service_dict demo_service)"
    by (simp add: get_local_service_def get_service_or_raise_def find_row_def demo_db_def
        demo_service_def map_sum.simps)
  moreover have "parse_vips netaddr_v4 [Some ''169.254.1.53'', None] = Inr [2851995957]"
    by (simp add: ip_or_raise_def v4_eval map_sum.simps)
  moreover have "refuse_vips_overlap_network ev [2851995957] ''n1'' (sv_core s) = (Inr (), sv_core s)"
    using assms by (simp add: refuse_vips_overlap_network_def demo_subnet_def v4_eval)
  ultimately show ?thesis using assms
    by (simp add: refuse_vip_subnet_overlap_def service_vips_def lift_check_def on_core_def demo_service_def
        del: parse_vips.simps)
qed

lemma demo_row_made:
  "create_binding_row ''b1'' demo_body demo_db = (Inr (make_binding_dict demo_row), demo_db\<lparr>db_bindings := [demo_row]\<rparr>)"
  by (simp add: create_binding_row_def item_def demo_body_def get_service_or_raise_def find_row_def demo_db_def
      demo_service_def new_binding_def get_default_def binding_flush_def too_long_def binding_columns_def demo_row_def Let_def)

lemma demo_bound_services:
  "enabled_services_for_network remdups (\<lambda>_. True) (demo_db\<lparr>db_bindings := [demo_row]\<rparr>) ''n1'' = [make_service_dict demo_service]"
  by (simp add: enabled_services_for_network_def get_local_service_bindings_def get_local_services_def
      collection_query_def among_def Let_def demo_db_def demo_row_def demo_service_def
      get_local_service_def get_service_or_raise_def find_row_def map_sum.simps const_defs)

text \<open>In the witness the network has been deleted meanwhile: the row is written, the reconciliation raises, the row is removed.\<close>

definition gone_ev :: "(nat, nat \<times> nat, mem) env" where
  "gone_ev = demo_ev\<lparr>ev_cp := mem_core\<lparr>cp_get_network := \<lambda>n w. (Inl (Foreign ''NetworkNotFound''), w)\<rparr>\<rparr>"

lemma gone_reconcile:
  "reconcile_network gone_ev ''n1'' (demo_server\<lparr>sv_db := demo_db\<lparr>db_bindings := [demo_row]\<rparr>\<rparr>) =
     (Inl (Foreign ''NetworkNotFound''), demo_server\<lparr>sv_db := demo_db\<lparr>db_bindings := [demo_row]\<rparr>\<rparr>)"
  using demo_bound_services
  by (simp add: reconcile_network_def gone_ev_def plugin_ensure_localport_def on_core_def bnd_def)

theorem create_binding_atomic_witness:
  "\<exists>s'. create_local_service_binding gone_ev ''b1'' demo_body demo_server = (Inl (Foreign ''NetworkNotFound''), s')
     \<and> create_binding_row ''b1'' demo_body demo_db = (Inr (make_binding_dict demo_row), demo_db\<lparr>db_bindings := [demo_row]\<rparr>)
     \<and> sv_db s' = demo_db"
proof -
  have "refuse_vip_subnet_overlap gone_ev ''s1'' ''n1'' demo_server = (Inr (), demo_server)"
    by (rule demo_check) (simp_all add: gone_ev_def demo_server_def demo_subnet_def)
  moreover have "on_db gone_ev (create_binding_row ''b1'' demo_body) demo_server =
      (Inr (make_binding_dict demo_row), demo_server\<lparr>sv_db := demo_db\<lparr>db_bindings := [demo_row]\<rparr>\<rparr>)"
    using demo_row_made by (intro on_db_commits) (simp_all add: gone_ev_def demo_server_def)
  ultimately obtain s' where run: "create_local_service_binding gone_ev ''b1'' demo_body demo_server
      = (Inl (Foreign ''NetworkNotFound''), s')"
    using gone_reconcile
    by (simp add: create_local_service_binding_def the_key_def demo_body_def demo_row_def make_binding_dict_def
        bnd_def andthen_def attempt_def swallow_run)
  from create_binding_atomic[OF run] run demo_row_made show ?thesis
    by (auto simp: demo_server_def gone_ev_def)
qed

text \<open>
  A binding that was created is safe to route: no VIP of its service lies inside a subnet
  the network had when the request came in.
\<close>

theorem create_binding_off_link:
  assumes "core_ok (ev_cp ev) ports subnets" and "db_wf (sv_db s)"
    and "create_local_service_binding ev i body s = (Inr b, s')"
    and "nb_service_id body = Some si" "nb_network_id body = Some n"
  shows "\<exists>svc \<in> set (db_services (sv_db s)). svc_id svc = si
    \<and> vips_off_link (ev_na ev) [svc_local_ipv4 svc, svc_local_ipv6 svc] n (subnets (sv_core s))"
  using assms(3)
proof (cases rule: create_binding_db)
  case (made b' si' n' s1)
  have "si \<in> svc_id ` set (db_services (sv_db s))"
    by (rule create_binding_run[OF made(2)]) (use assms(4) in auto)
  then obtain svc where svc: "svc \<in> set (db_services (sv_db s))" "svc_id svc = si" by auto
  have "refuse_vip_subnet_overlap ev si n s = (Inr (), s1)" using made(3-5) assms(4,5) by simp
  from binding_check_passed[OF assms(1,2) this svc] svc show ?thesis by blast
qed simp_all

text \<open>A binding of the demo service to its network, asked for after the first pass.\<close>

definition demo_bound :: "mem server" where
  "demo_bound = demo_server'\<lparr>sv_db := demo_db\<lparr>db_bindings := [demo_row]\<rparr>\<rparr>"

lemma demo_bound_reconciled: "reconcile_network demo_ev ''n1'' demo_bound = (Inr (), demo_bound)"
proof -
  have cp: "core_ok (ev_cp demo_ev) mem_ports mem_subnets" using mem_core_ok by simp
  have eff: "[make_service_dict demo_service] =
      enabled_services_for_network (ev_order demo_ev) (ev_ctx demo_ev) (sv_db demo_bound) ''n1''"
    using demo_bound_services by (simp add: demo_bound_def)
  have "subnets_wf (mem_subnets (sv_core demo_bound))"
    using demo_wf(2) by (simp add: demo_bound_def demo_server'_def)
  moreover have "routes_equal (wanted_routes demo_ev [demo_port] [make_service_dict demo_service] t) (routes_of t)"
    if "t = demo_subnet\<lparr>sn_host_routes := Some (Some [service_route ''169.254.1.53'' ''10.0.0.2''])\<rparr>" for t
  proof -
    have "t = refreshed demo_ev [demo_port] [make_service_dict demo_service] demo_subnet"
      using that demo_wanted demo_not_yet by (simp add: refreshed_def) (simp add: demo_subnet_def)
    then show ?thesis using refreshed_done[of demo_subnet] by (simp add: demo_subnet_def)
  qed
  ultimately have quiet: "refresh_subnet_routes demo_ev ''n1'' demo_bound = (Inr (), demo_bound)"
    using refresh_quiet[OF cp _ eff] by (simp add: demo_bound_def demo_server'_def)
  have "plugin_ensure_localport demo_ev ''n1'' (sv_core demo_bound) = (Inr demo_port, sv_core demo_bound)"
    by (rule plugin_ensure_again[OF cp])
      (simp_all add: demo_bound_def demo_server'_def demo_port_ours verify_lsp_type_def)
  then show ?thesis using quiet eff[symmetric]
    by (simp add: reconcile_network_def on_core_def bnd_def)
qed

lemma demo_created:
  "create_local_service_binding demo_ev ''b1'' demo_body demo_server' = (Inr (make_binding_dict demo_row), demo_bound)"
proof -
  have db: "sv_db demo_server' = demo_db" by (simp add: demo_server'_def)
  have "refuse_vip_subnet_overlap demo_ev ''s1'' ''n1'' demo_server' = (Inr (), demo_server')"
    by (rule demo_check) (simp_all add: demo_server'_def)
  moreover have "on_db demo_ev (create_binding_row ''b1'' demo_body) demo_server' = (Inr (make_binding_dict demo_row), demo_bound)"
    using demo_row_made unfolding demo_bound_def by (intro on_db_commits) (simp_all add: db)
  ultimately show ?thesis
    using demo_bound_reconciled
    by (simp add: create_local_service_binding_def the_key_def demo_body_def bnd_def andthen_def attempt_def
        demo_row_def make_binding_dict_def)
qed

theorem create_binding_off_link_witness:
  "\<exists>b s'. create_local_service_binding demo_ev ''b1'' demo_body demo_server' = (Inr b, s')
     \<and> vips_off_link netaddr_v4 [Some ''169.254.1.53'', None] ''n1'' (mem_subnets (sv_core demo_server'))"
proof -
  have pre: "core_ok (ev_cp demo_ev) mem_ports mem_subnets" "db_wf (sv_db demo_server')"
      "nb_service_id demo_body = Some ''s1''"
      "nb_network_id demo_body = Some ''n1''"
    using mem_core_ok demo_db_wf by (simp_all add: demo_server'_def demo_body_def)
  from create_binding_off_link[OF pre(1,2) demo_created pre(3,4)] demo_created
  show ?thesis by (auto simp: demo_server'_def demo_db_def demo_service_def)
qed

lemma network_checks_passed:
  assumes cp: "core_ok (ev_cp ev) ports subnets"
    and run: "each (\<lambda>b. bnd (the_key ''network_id'' (nd_network_id b)) (\<lambda>n. on_core (refuse_vips_overlap_network ev ips n)))
      (map make_binding_dict bs) s = (Inr (), s')"
  shows "s' = s \<and> (\<forall>b \<in> set bs. first_overlap (ev_na ev) ips
      (filter (\<lambda>t. sn_network_id t = Some (bi_network_id b)) (subnets (sv_core s))) = None)"
  using run
proof (induction bs)
  case (Cons b bs)
  have "andthen (on_core (refuse_vips_overlap_network ev ips (bi_network_id b)))
     (each (\<lambda>b. bnd (the_key ''network_id'' (nd_network_id b)) (\<lambda>n. on_core (refuse_vips_overlap_network ev ips n)))
      (map make_binding_dict bs)) s = (Inr (), s')"
    using Cons.prems by simp
  then show ?case
  proof (cases rule: andthen_cases)
    case (returned s1)
    obtain w where w: "refuse_vips_overlap_network ev ips (bi_network_id b) (sv_core s) = (Inr (), w)" "s1 = s\<lparr>sv_core := w\<rparr>"
      using returned(1) by (auto simp: on_core_def split: prod.splits)
    have "s1 = s" using overlap_check_passed(1)[OF cp w(1)] w(2) by simp
    then show ?thesis using Cons.IH returned(2) overlap_check_passed(2)[OF cp w(1)] by simp
  qed simp
qed simp

text \<open>What the guard of a VIP update has checked when it passes.\<close>

lemma moved_vips_passed:
  assumes cp: "core_ok (ev_cp ev) ports subnets" and wf: "db_wf (sv_db s)"
    and old: "old \<in> set (db_services (sv_db s))" "svc_id old = i"
    and run: "refuse_moved_vips ev i body s = (Inr (), s')"
    and b: "b \<in> set (db_bindings (sv_db s))" "ev_ctx ev (bi_project_id b)" "bi_service_id b = i" "bi_enabled b"
  shows "vips_off_link (ev_na ev) [svc_local_ipv4 (patch_service body old), svc_local_ipv6 (patch_service body old)]
      (bi_network_id b) (subnets (sv_core s))"
proof -
  let ?vs = "[svc_local_ipv4 (patch_service body old), svc_local_ipv6 (patch_service body old)]"
  let ?bs = "filter (\<lambda>b. ev_ctx ev (bi_project_id b) \<and> bi_service_id b = i \<and> bi_enabled b) (db_bindings (sv_db s))"
  have found: "get_local_service (sv_db s) i = Inr (make_service_dict old)"
    using get_local_service_iff[OF wf] old by blast
  have vs: "[set_if (sp_local_ipv4 body) (svc_local_ipv4 old), set_if (sp_local_ipv6 body) (svc_local_ipv6 old)] = ?vs"
    by (simp add: patch_service_def)
  have bs: "get_local_service_bindings (ev_ctx ev)
      \<lparr>nf_service_id = Some [i], nf_network_id = None, nf_enabled = Some [True]\<rparr> (sv_db s) = map make_binding_dict ?bs"
    by (simp add: get_local_service_bindings_def collection_query_def among_def conj_commute conj_left_commute)
  obtain ips where ips: "parse_vips (ev_na ev) ?vs = Inr ips"
    using run by (cases "parse_vips (ev_na ev) ?vs")
      (simp_all add: refuse_moved_vips_def found lift_check_def Let_def vs del: parse_vips.simps)
  have "first_overlap (ev_na ev) ips (filter (\<lambda>t. sn_network_id t = Some (bi_network_id b)) (subnets (sv_core s))) = None"
  proof (cases "ips = []")
    case False
    then have "each (\<lambda>b. bnd (the_key ''network_id'' (nd_network_id b)) (\<lambda>n. on_core (refuse_vips_overlap_network ev ips n)))
        (map make_binding_dict ?bs) s = (Inr (), s')"
      using run by (simp add: refuse_moved_vips_def found lift_check_def Let_def vs bs ips del: parse_vips.simps)
    from network_checks_passed[OF cp this] show ?thesis using b by auto
  qed simp
  then show ?thesis by (rule off_linkI[OF ips])
qed

lemma refuse_moved_keeps: "keeps sv_db (refuse_moved_vips ev i body)"
  unfolding refuse_moved_vips_def Let_def by (auto intro!: keeps_intros)

text \<open>
  C17. Moving a VIP is guarded the same way: when an update that carries a VIP key returns, the
  VIPs the service ends up with lie in no subnet of a network it has an enabled binding to
  (visible to the request), and the row is the patched one.
\<close>

theorem update_vip_off_link:
  assumes "core_ok (ev_cp ev) ports subnets" and "db_wf (sv_db s)"
    and "old \<in> set (db_services (sv_db s))" "svc_id old = i"
    and "sp_local_ipv4 body \<noteq> None \<or> sp_local_ipv6 body \<noteq> None"
    and "plugin_update_local_service ev i body s = (Inr r, s')"
  shows "r = make_service_dict (patch_service body old)
    \<and> (\<forall>b \<in> set (db_bindings (sv_db s)). ev_ctx ev (bi_project_id b) \<and> bi_service_id b = i \<and> bi_enabled b \<longrightarrow>
         vips_off_link (ev_na ev) [sd_local_ipv4 r, sd_local_ipv6 r] (bi_network_id b) (subnets (sv_core s)))"
proof -
  have "andthen (refuse_moved_vips ev i body) (on_db ev (CatalogDB.update_local_service (ev_na ev) (ev_conf ev) i body)) s = (Inr r, s')"
    using assms(5,6) unfolding plugin_update_local_service_def by presburger
  then obtain s1 where guard: "refuse_moved_vips ev i body s = (Inr (), s1)"
      and upd: "on_db ev (CatalogDB.update_local_service (ev_na ev) (ev_conf ev) i body) s1 = (Inr r, s')"
    by (cases rule: andthen_cases) auto
  have db1: "sv_db s1 = sv_db s" using keepsD[OF refuse_moved_keeps guard] .
  have "CatalogDB.update_local_service (ev_na ev) (ev_conf ev) i body (sv_db s) = (Inr r, sv_db s')"
    using on_db_returned[OF upd] db1 by simp
  then obtain old' where "old' \<in> set (db_services (sv_db s))" "svc_id old' = i" "r = make_service_dict (patch_service body old')"
    by (rule update_service_run) (rule that)
  moreover have "old' = old" if "old' \<in> set (db_services (sv_db s))" "svc_id old' = i" for old'
    using that assms(3,4) svcs.wf_keys[OF assms(2)] by (auto simp: distinct_map inj_on_def)
  ultimately have r: "r = make_service_dict (patch_service body old)" by blast
  show ?thesis using moved_vips_passed[OF assms(1-4) guard] by (simp add: r)
qed

definition demo_move :: service_patch where
  "demo_move = \<lparr>sp_name = None, sp_description = None, sp_local_ipv4 = Some (Some ''169.254.1.54''), sp_local_ipv6 = None,
     sp_attachment_policy = None, sp_distribution_policy = None, sp_health_check_type = None,
     sp_health_check_config = None, sp_enabled = None\<rparr>"

lemma demo_move_guard: "refuse_moved_vips demo_ev ''s1'' demo_move demo_bound = (Inr (), demo_bound)"
proof -
  have f: "get_local_service (sv_db demo_bound) ''s1'' = Inr (make_service_dict demo_service)"
    by (simp add: get_local_service_def get_service_or_raise_def find_row_def demo_bound_def demo_db_def
        demo_service_def map_sum.simps)
  have p: "parse_vips netaddr_v4 [Some ''169.254.1.54'', None] = Inr [2851995958]"
    by (simp add: ip_or_raise_def v4_eval map_sum.simps)
  have b: "get_local_service_bindings (\<lambda>_. True) \<lparr>nf_service_id = Some [''s1''], nf_network_id = None, nf_enabled = Some [True]\<rparr>
      (sv_db demo_bound) = [make_binding_dict demo_row]"
    by (simp add: get_local_service_bindings_def collection_query_def among_def demo_bound_def demo_row_def)
  have "refuse_vips_overlap_network demo_ev [2851995958] ''n1'' (sv_core demo_bound) = (Inr (), sv_core demo_bound)"
    by (simp add: refuse_vips_overlap_network_def demo_bound_def demo_server'_def demo_subnet_def v4_eval)
  then have o: "on_core (refuse_vips_overlap_network demo_ev [2851995958] ''n1'') demo_bound = (Inr (), demo_bound)"
    by (simp add: on_core_def)
  have v: "sp_local_ipv4 demo_move = Some (Some ''169.254.1.54'')" "sp_local_ipv6 demo_move = None"
      "svc_local_ipv6 demo_service = None" "bi_network_id demo_row = ''n1''"
    by (simp_all add: demo_move_def demo_service_def demo_row_def)
  show ?thesis
    unfolding refuse_moved_vips_def
    by (simp add: f lift_check_def set_if_def v p b o del: parse_vips.simps)
qed

theorem update_vip_off_link_witness:
  "\<exists>r s'. plugin_update_local_service demo_ev ''s1'' demo_move demo_bound = (Inr r, s')
     \<and> sd_local_ipv4 r = Some ''169.254.1.54''
     \<and> vips_off_link netaddr_v4 [sd_local_ipv4 r, sd_local_ipv6 r] ''n1'' (mem_subnets (sv_core demo_bound))"
proof -
  have pre: "core_ok (ev_cp demo_ev) mem_ports mem_subnets" "db_wf (sv_db demo_bound)"
      "demo_service \<in> set (db_services (sv_db demo_bound))" "svc_id demo_service = ''s1''"
      "sp_local_ipv4 demo_move \<noteq> None \<or> sp_local_ipv6 demo_move \<noteq> None"
    using mem_core_ok demo_db_wf
    by (simp_all add: demo_bound_def demo_db_def demo_service_def demo_move_def demo_row_def db_wf_def table_wf_def
        uniq_def)
  have ok: "validate_vip netaddr_v4 default_vip_conf (Some ''169.254.1.54'') = Inr ()"
    by (simp add: validate_vip_def default_vip_conf_def const_defs v4_eval prefix_of_mask_def
        str_ipv4_def str_nat.simps upt_rec)
  have "\<exists>r d'. CatalogDB.update_local_service netaddr_v4 default_vip_conf ''s1'' demo_move (sv_db demo_bound) = (Inr r, d')"
    by (simp add: update_local_service_def get_service_or_raise_def find_row_def demo_bound_def demo_db_def
        patch_service_def demo_move_def set_if_def demo_service_def validate_service_payload_def
        ok validate_vip_def[of _ _ None] service_flush_def too_long_def service_columns_def port_range_def const_defs Let_def)
  then obtain r d' where u: "CatalogDB.update_local_service netaddr_v4 default_vip_conf ''s1'' demo_move (sv_db demo_bound) = (Inr r, d')"
    by blast
  then have run: "plugin_update_local_service demo_ev ''s1'' demo_move demo_bound = (Inr r, demo_bound\<lparr>sv_db := d'\<rparr>)"
    using pre(5) by (simp add: plugin_update_local_service_def demo_move_guard on_db_commits)
  from update_vip_off_link[OF pre run] run show ?thesis
    by (auto simp: demo_bound_def demo_row_def patch_service_def demo_move_def set_if_def)
qed

text \<open>
  The periodic loop is contained: a pass never raises, whatever the core plugin does, and
  never changes the catalog.
\<close>

theorem reconcile_loop_contained:
  "fst (reconcile_loop ev s) = Inr () \<and> sv_db (snd (reconcile_loop ev s)) = sv_db s"
proof
  have body: "fst (each (\<lambda>net. if \<not> truthy_str (net_id net) then ret ()
      else swallow (reconcile_network ev (the (net_id net)))) nets s1) = Inr ()" for nets s1
    by (rule each_swallow_fst) simp
  obtain r s1 where "on_core (cp_get_networks (ev_cp ev)) s = (r, s1)" by fastforce
  then show "fst (reconcile_loop ev s) = Inr ()"
    using body by (cases r) (simp_all add: reconcile_loop_def bnd_def attempt_def)
  show "sv_db (snd (reconcile_loop ev s)) = sv_db s"
    using reconcile_loop_keeps_db unfolding keeps_def by blast
qed

end
