(* ===== verification/Allocator.thy ===== *)
theory Allocator
  imports Constants Ipaddress
begin

text \<open>
  The chassis-local /30 allocator \<^verbatim>\<open>UnderlayAllocator\<close> of \<^verbatim>\<open>agent/underlay.py\<close>: its state with the
  JSON file it persists to, the constructor, \<^verbatim>\<open>_load\<close>, \<^verbatim>\<open>_save\<close>, \<^verbatim>\<open>allocate\<close>, \<^verbatim>\<open>free\<close>, \<^verbatim>\<open>get\<close> and
  \<^verbatim>\<open>addresses\<close>. The dictionary \<^verbatim>\<open>_allocations\<close> is an association list with distinct keys in
  insertion order. What the file system answers to one \<^verbatim>\<open>_save\<close> is a parameter of the
  operation (\<open>fs\<close>), so that a failing save is a branch. The locale \<open>slot_pool\<close> is the contract
  the provisioning code relies on; it is interpreted on the allocator.
\<close>

section \<open>State\<close>

text \<open>JSON documents; a number with a fraction or an exponent keeps its text.\<close>

datatype json =
    JNull
  | JBool bool
  | JInt int
  | JFloat string
  | JStr string
  | JArr "json list"
  | JObj "(string \<times> json) list"

text \<open>The state file: missing, unreadable or not JSON, or a document.\<close>

datatype state_file = NoFile | Unreadable | Document json

record allocator =
  al_network :: nat
  al_prefixlen :: nat
  al_slots :: nat
  al_allocations :: "(string \<times> nat) list"
  al_file :: state_file

text \<open>What the file system answers: to \<^verbatim>\<open>makedirs\<close>, and to writing and renaming the file.\<close>

record fs =
  fs_makedirs :: "exc option"
  fs_write :: "exc option"

abbreviation fs_ok :: fs where
  "fs_ok \<equiv> \<lparr>fs_makedirs = None, fs_write = None\<rparr>"

section \<open>Operations\<close>

text \<open>
  The value of one entry if \<^verbatim>\<open>isinstance(idx, int) and 0 <= idx < slots\<close>; a JSON boolean is an
  \<^verbatim>\<open>int\<close> in Python.
\<close>

definition clean_idx :: "nat \<Rightarrow> json \<Rightarrow> nat option" where
  "clean_idx slots v =
     (let i = (case v of JInt n \<Rightarrow> Some n | JBool b \<Rightarrow> Some (if b then 1 else 0) | _ \<Rightarrow> None)
      in case i of
           None \<Rightarrow> None
         | Some n \<Rightarrow> if 0 \<le> n \<and> n < int slots then Some (nat n) else None)"

text \<open>
  \<^verbatim>\<open>d[k] = v\<close> on a dictionary, and the dictionary of a parsed object: its keys are distinct, a
  later duplicate replaces an earlier one.
\<close>

definition dict_set :: "(string \<times> 'v) list \<Rightarrow> string \<Rightarrow> 'v \<Rightarrow> (string \<times> 'v) list" where
  "dict_set d k v =
     (if k \<in> fst ` set d then map (\<lambda>(k', w). (k', if k' = k then v else w)) d else d @ [(k, v)])"

fun dict_of :: "(string \<times> 'v) list \<Rightarrow> (string \<times> 'v) list \<Rightarrow> (string \<times> 'v) list" where
  "dict_of d [] = d"
| "dict_of d ((k, v) # rest) = dict_of (dict_set d k v) rest"

text \<open>The loop over \<^verbatim>\<open>data.items()\<close> that fills \<^verbatim>\<open>clean\<close>.\<close>

fun clean_items :: "nat \<Rightarrow> (string \<times> json) list \<Rightarrow> (string \<times> nat) list" where
  "clean_items slots [] = []"
| "clean_items slots ((net_id, v) # items) =
     (case clean_idx slots v of
        Some idx \<Rightarrow> (net_id, idx) # clean_items slots items
      | None \<Rightarrow> clean_items slots items)"

definition load :: "nat \<Rightarrow> state_file \<Rightarrow> exc + (string \<times> nat) list" where
  "load slots file =
     (case file of
        NoFile \<Rightarrow> Inr []
      | Unreadable \<Rightarrow> Inr []
      | Document (JObj items) \<Rightarrow>
          Inr (clean_items slots (dict_of [] items))
      | Document _ \<Rightarrow> Inl AttributeError)"

definition init :: "string \<Rightarrow> state_file \<Rightarrow> exc + allocator" where
  "init pool_cidr file =
     (case ip_network4 pool_cidr of
        None \<Rightarrow> Inl ValueError
      | Some (net, plen) \<Rightarrow>
          if 30 < plen then Inl ValueError
          else (let slots = 2 ^ (30 - plen)
                in case load slots file of
                     Inl e \<Rightarrow> Inl e
                   | Inr allocs \<Rightarrow>
                       Inr \<lparr>al_network = net, al_prefixlen = plen, al_slots = slots,
                            al_allocations = allocs, al_file = file\<rparr>))"

definition to_json :: "(string \<times> nat) list \<Rightarrow> json" where
  "to_json allocs = JObj (map (\<lambda>(k, i). (k, JInt (int i))) (sort_key fst allocs))"

definition save :: "fs \<Rightarrow> (allocator, unit) act" where
  "save io a =
     (case fs_makedirs io of
        Some e \<Rightarrow>
          if e \<noteq> OSError ''EEXIST'' then (Inl e, a)
          else (case fs_write io of
                  Some e' \<Rightarrow> (Inl e', a)
                | None \<Rightarrow> (Inr (), a\<lparr>al_file := Document (to_json (al_allocations a))\<rparr>))
      | None \<Rightarrow>
          (case fs_write io of
             Some e' \<Rightarrow> (Inl e', a)
           | None \<Rightarrow> (Inr (), a\<lparr>al_file := Document (to_json (al_allocations a))\<rparr>)))"

definition allocate :: "fs \<Rightarrow> string \<Rightarrow> (allocator, nat) act" where
  "allocate io network_id a =
     (case map_of (al_allocations a) network_id of
        Some idx \<Rightarrow> (Inr idx, a)
      | None \<Rightarrow>
          (let used = snd ` set (al_allocations a)
           in case find (\<lambda>idx. idx \<notin> used) [0..<al_slots a] of
                Some idx \<Rightarrow>
                  andthen (modify (\<lambda>a. a\<lparr>al_allocations := al_allocations a @ [(network_id, idx)]\<rparr>))
                    (andthen (save io) (ret idx)) a
              | None \<Rightarrow> (Inl UnderlayPoolExhausted, a)))"

definition free :: "fs \<Rightarrow> string \<Rightarrow> (allocator, unit) act" where
  "free io network_id a =
     (if network_id \<in> fst ` set (al_allocations a)
      then andthen (modify (\<lambda>a. a\<lparr>al_allocations :=
               filter (\<lambda>(k, _). k \<noteq> network_id) (al_allocations a)\<rparr>)) (save io) a
      else (Inr (), a))"

definition get :: "allocator \<Rightarrow> string \<Rightarrow> nat option" where
  "get a network_id = map_of (al_allocations a) network_id"

text \<open>\<^verbatim>\<open>str(ipaddress.IPv4Address(n))\<close>, which raises above the address space.\<close>

definition ipv4_text :: "nat \<Rightarrow> exc + string" where
  "ipv4_text n = (if n < 2 ^ 32 then Inr (str_ipv4 n) else Inl ValueError)"

definition addresses :: "fs \<Rightarrow> string \<Rightarrow> (allocator, string \<times> string) act" where
  "addresses io network_id =
     bnd (allocate io network_id) (\<lambda>idx. bnd (gets al_network) (\<lambda>net.
       let base_int = net + idx * 4
       in case (ipv4_text (base_int + 1), ipv4_text (base_int + 2)) of
            (Inr host_ip, Inr ns_ip) \<Rightarrow> ret (host_ip, ns_ip)
          | (Inl e, _) \<Rightarrow> raise e
          | (_, Inl e) \<Rightarrow> raise e))"

section \<open>The contract of a slot pool\<close>

text \<open>
  What provisioning relies on: a network holds one slot until it is dropped, two networks
  never hold the same one, and nothing else moves. The lemmas on whole runs follow from the
  laws alone.
\<close>

datatype 'io slot_op = Take 'io string | Drop 'io string

fun run_slots :: "('io \<Rightarrow> string \<Rightarrow> ('s, nat) act) \<Rightarrow> ('io \<Rightarrow> string \<Rightarrow> ('s, unit) act) \<Rightarrow>
    'io slot_op list \<Rightarrow> 's \<Rightarrow> 's" where
  "run_slots tk dr [] s = s"
| "run_slots tk dr (Take io n # ops) s = run_slots tk dr ops (snd (tk io n s))"
| "run_slots tk dr (Drop io n # ops) s = run_slots tk dr ops (snd (dr io n s))"

locale slot_pool =
  fixes take_slot :: "'io \<Rightarrow> string \<Rightarrow> ('s, nat) act"
    and drop_slot :: "'io \<Rightarrow> string \<Rightarrow> ('s, unit) act"
    and slot_of :: "'s \<Rightarrow> string \<Rightarrow> nat option"
    and pool_ok :: "'s \<Rightarrow> bool"
    and capacity :: "'s \<Rightarrow> nat"
  assumes take_keeps: "pool_ok s \<Longrightarrow> pool_ok (snd (take_slot io n s))"
    and drop_keeps: "pool_ok s \<Longrightarrow> pool_ok (snd (drop_slot io n s))"
    and take_returned: "take_slot io n s = (Inr i, s') \<Longrightarrow> slot_of s' n = Some i"
    and take_frame: "m \<noteq> n \<Longrightarrow> slot_of (snd (take_slot io n s)) m = slot_of s m"
    and take_held: "slot_of s n = Some i \<Longrightarrow> take_slot io n s = (Inr i, s)"
    and drop_gone: "slot_of (snd (drop_slot io n s)) = (slot_of s)(n := None)"
    and slots_differ: "pool_ok s \<Longrightarrow> slot_of s m = Some i \<Longrightarrow> slot_of s n = Some i \<Longrightarrow> m = n"
    and slot_bound: "pool_ok s \<Longrightarrow> slot_of s n = Some i \<Longrightarrow> i < capacity s"
begin

lemma run_keeps: "pool_ok s \<Longrightarrow> pool_ok (run_slots take_slot drop_slot ops s)"
proof (induction ops arbitrary: s)
  case (Cons op ops)
  then show ?case by (cases op) (simp_all add: take_keeps drop_keeps)
qed simp

lemma run_held:
  assumes "slot_of s n = Some i" and "\<forall>io. Drop io n \<notin> set ops"
  shows "slot_of (run_slots take_slot drop_slot ops s) n = Some i"
  using assms
proof (induction ops arbitrary: s)
  case (Cons op ops)
  show ?case
  proof (cases op)
    case (Take io m)
    then show ?thesis using Cons by (cases "m = n") (simp_all add: take_held take_frame)
  next
    case (Drop io m)
    then show ?thesis using Cons by (cases "m = n") (auto simp: drop_gone)
  qed
qed simp

lemma run_differ:
  assumes "pool_ok s" and "m \<noteq> n"
    and "slot_of (run_slots take_slot drop_slot ops s) m = Some i"
    and "slot_of (run_slots take_slot drop_slot ops s) n = Some j"
  shows "i \<noteq> j"
  using assms run_keeps slots_differ by blast

end

section \<open>The allocator is a slot pool\<close>

definition alloc_ok :: "allocator \<Rightarrow> bool" where
  "alloc_ok a \<longleftrightarrow>
     distinct (map fst (al_allocations a)) \<and> distinct (map snd (al_allocations a)) \<and>
     (\<forall>i \<in> snd ` set (al_allocations a). i < al_slots a) \<and>
     al_prefixlen a \<le> 30 \<and> al_slots a = 2 ^ (30 - al_prefixlen a) \<and>
     al_network a < 2 ^ 32 \<and> al_network a mod 2 ^ (32 - al_prefixlen a) = 0"

lemma save_run:
  assumes "save io a = (r, a')"
  shows "al_allocations a' = al_allocations a" "al_slots a' = al_slots a"
    "al_network a' = al_network a" "al_prefixlen a' = al_prefixlen a"
    "r = Inr () \<Longrightarrow> al_file a' = Document (to_json (al_allocations a))"
  using assms by (auto simp: save_def split: option.splits if_splits)

lemma save_frame [simp]:
  "al_allocations (snd (save io a)) = al_allocations a"
  "al_slots (snd (save io a)) = al_slots a"
  "al_network (snd (save io a)) = al_network a"
  "al_prefixlen (snd (save io a)) = al_prefixlen a"
  using save_run[of io a "fst (save io a)" "snd (save io a)"] by simp_all

lemma save_ok [simp]: "save fs_ok a = (Inr (), a\<lparr>al_file := Document (to_json (al_allocations a))\<rparr>)"
  by (simp add: save_def)

text \<open>The three ways \<^verbatim>\<open>allocate\<close> can go.\<close>

lemma allocate_cases:
  obtains (held) idx where "get a n = Some idx" "allocate io n a = (Inr idx, a)"
    | (fresh) idx r a' where "get a n = None" "idx < al_slots a"
        "idx \<notin> snd ` set (al_allocations a)" "\<forall>j<idx. j \<in> snd ` set (al_allocations a)"
        "save io (a\<lparr>al_allocations := al_allocations a @ [(n, idx)]\<rparr>) = (r, a')"
        "allocate io n a = (map_sum id (\<lambda>_. idx) r, a')"
    | (full) "get a n = None" "\<forall>j<al_slots a. j \<in> snd ` set (al_allocations a)"
        "allocate io n a = (Inl UnderlayPoolExhausted, a)"
proof (cases "map_of (al_allocations a) n")
  case (Some idx)
  then show thesis by (intro held[of idx]) (simp_all add: get_def allocate_def)
next
  case None
  show thesis
  proof (cases "find (\<lambda>idx. idx \<notin> snd ` set (al_allocations a)) [0..<al_slots a]")
    case None': None
    then have "\<forall>j<al_slots a. j \<in> snd ` set (al_allocations a)"
      by (simp add: find_None_iff)
    with None None' show thesis
      by (intro full) (simp_all add: get_def allocate_def Let_def)
  next
    case (Some idx)
    then have "idx < al_slots a" "idx \<notin> snd ` set (al_allocations a)"
        "\<forall>j<idx. j \<in> snd ` set (al_allocations a)"
      by (auto simp: find_Some_iff)
    moreover obtain r a' where
        sv: "save io (a\<lparr>al_allocations := al_allocations a @ [(n, idx)]\<rparr>) = (r, a')"
      by fastforce
    moreover have "allocate io n a = (map_sum id (\<lambda>_. idx) r, a')"
      using None Some sv
      by (cases r) (simp_all add: allocate_def Let_def map_sum.simps)
    ultimately show thesis using None by (intro fresh[of idx r a']) (simp_all add: get_def)
  qed
qed

lemma allocate_snd:
  "al_allocations (snd (allocate io n a)) = al_allocations a \<or>
   (\<exists>idx. get a n = None \<and> idx < al_slots a \<and> idx \<notin> snd ` set (al_allocations a) \<and>
      al_allocations (snd (allocate io n a)) = al_allocations a @ [(n, idx)])"
  by (cases rule: allocate_cases[of a n io]) (auto dest: save_run)

lemma allocate_frame [simp]:
  "al_slots (snd (allocate io n a)) = al_slots a"
  "al_network (snd (allocate io n a)) = al_network a"
  "al_prefixlen (snd (allocate io n a)) = al_prefixlen a"
  by (cases rule: allocate_cases[of a n io]; auto dest: save_run)+

lemma free_run:
  "al_allocations (snd (free io n a)) = filter (\<lambda>(k, _). k \<noteq> n) (al_allocations a)"
  "al_slots (snd (free io n a)) = al_slots a"
  "al_network (snd (free io n a)) = al_network a"
  "al_prefixlen (snd (free io n a)) = al_prefixlen a"
  by (auto simp: free_def intro!: filter_all[symmetric] image_eqI)

lemma get_None_iff: "get a n = None \<longleftrightarrow> n \<notin> fst ` set (al_allocations a)"
  by (simp add: get_def map_of_eq_None_iff)

lemma alloc_ok_allocate: "alloc_ok a \<Longrightarrow> alloc_ok (snd (allocate io n a))"
  using allocate_snd[of io n a] by (fastforce simp: alloc_ok_def get_None_iff)

lemma alloc_ok_free: "alloc_ok a \<Longrightarrow> alloc_ok (snd (free io n a))"
  by (auto simp: alloc_ok_def free_run distinct_map_filter)

lemma get_inj: "alloc_ok a \<Longrightarrow> get a m = Some i \<Longrightarrow> get a n = Some i \<Longrightarrow> m = n"
  by (fastforce simp: alloc_ok_def get_def distinct_map inj_on_def dest: map_of_SomeD)

lemma allocate_returned: "allocate io n a = (Inr i, a') \<Longrightarrow> get a' n = Some i"
proof (cases rule: allocate_cases[of a n io])
  case (fresh idx r a1)
  assume "allocate io n a = (Inr i, a')"
  with fresh(6) have "a' = a1" "i = idx" by (cases r; simp add: map_sum.simps)+
  then show ?thesis
    using fresh(1) save_run(1)[OF fresh(5)] by (simp add: get_def map_add_def)
qed simp_all

interpretation under: slot_pool allocate free get alloc_ok al_slots
proof
  show "get (snd (allocate io n a)) m = get a m" if "m \<noteq> n" for io n m a
    using allocate_snd[of io n a] that by (auto simp: get_def map_add_def split: option.splits)
  show "allocate io n a = (Inr i, a)" if "get a n = Some i" for io n i a
    using that by (cases rule: allocate_cases[of a n io]) simp_all
  show "get (snd (free io n a)) = (get a)(n := None)" for io n a
    by (rule ext) (simp add: get_def free_run map_of_filter_key)
  show "i < al_slots a" if "alloc_ok a" "get a n = Some i" for a n i
    using that by (auto simp: alloc_ok_def get_def dest!: map_of_SomeD)
qed (fact alloc_ok_allocate alloc_ok_free allocate_returned get_inj)+

section \<open>The constructor and the state file\<close>

lemma dict_set_keys: "map fst (dict_set d k v) = (if k \<in> fst ` set d then map fst d else map fst d @ [k])"
  by (simp add: dict_set_def case_prod_beta' comp_def)

lemma dict_of_distinct: "distinct (map fst d) \<Longrightarrow> distinct (map fst (dict_of d xs))"
  by (induction d xs rule: dict_of.induct) (simp_all add: dict_set_keys)

lemma dict_of_same: "distinct (map fst (d @ xs)) \<Longrightarrow> dict_of d xs = d @ xs"
proof (induction xs arbitrary: d)
  case (Cons x xs)
  obtain k v where x: "x = (k, v)" by fastforce
  have "k \<notin> fst ` set d" using Cons.prems x by auto
  moreover have "dict_of (d @ [(k, v)]) xs = (d @ [(k, v)]) @ xs"
    using Cons.prems x by (intro Cons.IH) auto
  ultimately show ?case by (simp add: x dict_set_def)
qed simp

lemma clean_idx_bound: "clean_idx slots v = Some i \<Longrightarrow> i < slots"
  by (auto simp: clean_idx_def Let_def split: option.splits if_splits)

lemma clean_items_keys: "fst ` set (clean_items slots xs) \<subseteq> fst ` set xs"
  by (induction slots xs rule: clean_items.induct) (auto split: option.splits)

lemma clean_items_distinct: "distinct (map fst xs) \<Longrightarrow> distinct (map fst (clean_items slots xs))"
proof (induction slots xs rule: clean_items.induct)
  case (2 slots k v xs)
  then show ?case using clean_items_keys[of slots xs] by (auto split: option.splits)
qed simp

lemma clean_items_bound: "\<forall>i \<in> snd ` set (clean_items slots xs). i < slots"
  by (induction slots xs rule: clean_items.induct) (auto split: option.splits dest: clean_idx_bound)

lemma load_wf:
  assumes "load slots file = Inr m"
  shows "distinct (map fst m)" and "\<forall>i \<in> snd ` set m. i < slots"
  using assms clean_items_bound
  by (fastforce simp: load_def dict_of_distinct clean_items_distinct
      split: state_file.splits json.splits)+

lemma init_Inr:
  assumes "init pool file = Inr a"
  shows "ip_network4 pool = Some (al_network a, al_prefixlen a)" "al_prefixlen a \<le> 30"
    "al_slots a = 2 ^ (30 - al_prefixlen a)" "load (al_slots a) file = Inr (al_allocations a)"
  using assms by (auto simp: init_def Let_def split: option.splits if_splits sum.splits)

lemma init_ok:
  assumes "init pool file = Inr a" and "distinct (map snd (al_allocations a))"
  shows "alloc_ok a"
proof -
  note i = init_Inr[OF assms(1)]
  show ?thesis
    unfolding alloc_ok_def
    by (intro conjI load_wf[OF i(4)] ip_network4_wf(2,3)[OF i(1)] i(2,3) assms(2))
qed

lemma load_to_json:
  assumes "distinct (map fst m)" and "\<forall>i \<in> snd ` set m. i < slots"
  shows "load slots (Document (to_json m)) = Inr (sort_key fst m)"
proof -
  let ?xs = "sort_key fst m"
  have "distinct (map fst (map (\<lambda>(k, i). (k, JInt (int i))) ?xs))"
    using assms(1) by (simp add: case_prod_beta' comp_def distinct_map)
  then have "dict_of [] (map (\<lambda>(k, i). (k, JInt (int i))) ?xs) = map (\<lambda>(k, i). (k, JInt (int i))) ?xs"
    by (simp add: dict_of_same)
  moreover have "clean_items slots (map (\<lambda>(k, i). (k, JInt (int i))) ys) = ys"
    if "\<forall>i \<in> snd ` set ys. i < slots" for ys :: "(string \<times> nat) list"
    using that by (induction ys) (auto simp: clean_idx_def)
  ultimately show ?thesis
    using assms(2) by (simp add: load_def to_json_def)
qed

lemma map_of_sort_key: "distinct (map fst m) \<Longrightarrow> map_of (sort_key fst m) = map_of m"
  by (rule map_of_inject_set[THEN iffD2]) (simp_all add: distinct_map)

definition synced :: "allocator \<Rightarrow> bool" where
  "synced a \<longleftrightarrow> (\<exists>m. load (al_slots a) (al_file a) = Inr m \<and> map_of m = get a)"

fun op_fs :: "'io slot_op \<Rightarrow> 'io" where
  "op_fs (Take io n) = io"
| "op_fs (Drop io n) = io"

lemma synced_saved:
  "alloc_ok a \<Longrightarrow> al_file a = Document (to_json (al_allocations a)) \<Longrightarrow> synced a"
  by (auto simp: synced_def alloc_ok_def get_def fun_eq_iff load_to_json map_of_sort_key)

lemma synced_allocate: "alloc_ok a \<Longrightarrow> synced a \<Longrightarrow> synced (snd (allocate fs_ok n a))"
proof (cases rule: allocate_cases[of a n fs_ok])
  case (fresh idx r a')
  assume "alloc_ok a"
  then have "alloc_ok a'" using alloc_ok_allocate[of a fs_ok n] fresh(6) by simp
  then show ?thesis using fresh(5,6) by (auto intro: synced_saved)
qed simp_all

lemma synced_free: "alloc_ok a \<Longrightarrow> synced a \<Longrightarrow> synced (snd (free fs_ok n a))"
proof (cases "n \<in> fst ` set (al_allocations a)")
  case True
  assume "alloc_ok a"
  then have "alloc_ok (snd (free fs_ok n a))" by (rule alloc_ok_free)
  then show ?thesis using True by (intro synced_saved) (simp_all add: free_def)
qed (simp add: free_def)

lemma run_synced:
  assumes "alloc_ok a" "synced a" "\<forall>op \<in> set ops. op_fs op = fs_ok"
  shows "synced (run_slots allocate free ops a)"
  using assms
proof (induction ops arbitrary: a)
  case (Cons op ops)
  then show ?case
    by (cases op) (simp_all add: alloc_ok_allocate alloc_ok_free synced_allocate synced_free)
qed simp

lemma run_frame:
  "al_slots (run_slots allocate free ops a) = al_slots a"
  "al_network (run_slots allocate free ops a) = al_network a"
  "al_prefixlen (run_slots allocate free ops a) = al_prefixlen a"
  by (induction allocate free ops a rule: run_slots.induct) (simp_all add: free_run)

section \<open>Addresses\<close>

lemma slot_in_pool:
  assumes "alloc_ok a" and "i < al_slots a"
  shows "al_network a + i * 4 + 3 < al_network a + 2 ^ (32 - al_prefixlen a)"
    and "al_network a + i * 4 + 3 < 2 ^ 32"
proof -
  have p: "al_prefixlen a \<le> 30" "al_slots a = 2 ^ (30 - al_prefixlen a)"
    using assms(1) by (simp_all add: alloc_ok_def)
  have "32 - al_prefixlen a = 2 + (30 - al_prefixlen a)" using p(1) by simp
  then have "(2::nat) ^ (32 - al_prefixlen a) = 4 * 2 ^ (30 - al_prefixlen a)"
    by (simp only: power_add) simp
  then show 1: "al_network a + i * 4 + 3 < al_network a + 2 ^ (32 - al_prefixlen a)"
    using assms(2) p(2) by simp
  have "al_network a + 2 ^ (32 - al_prefixlen a) \<le> 2 ^ 32"
    using assms(1) by (intro aligned_top) (simp_all add: alloc_ok_def)
  with 1 show "al_network a + i * 4 + 3 < 2 ^ 32" by linarith
qed

lemma addresses_run:
  assumes "alloc_ok a" and "allocate io n a = (Inr i, a')"
  shows "addresses io n a =
    (Inr (str_ipv4 (al_network a + i * 4 + 1), str_ipv4 (al_network a + i * 4 + 2)), a')"
proof -
  have "al_network a' = al_network a" "al_slots a' = al_slots a" "alloc_ok a'"
    using assms alloc_ok_allocate[of a io n] allocate_frame[where io = io and n = n and a = a]
    by simp_all
  moreover have "i < al_slots a'"
    using assms(2) \<open>alloc_ok a'\<close> allocate_returned under.slot_bound by blast
  ultimately show ?thesis
    using slot_in_pool(2)[of a i] assms by (simp add: addresses_def ipv4_text_def Let_def)
qed

section \<open>Properties\<close>

lemma used_full_iff:
  assumes "alloc_ok a"
  shows "(\<forall>j<al_slots a. j \<in> snd ` set (al_allocations a)) \<longleftrightarrow> length (al_allocations a) = al_slots a"
proof -
  let ?used = "snd ` set (al_allocations a)"
  have sub: "?used \<subseteq> {..<al_slots a}" and card: "card ?used = length (al_allocations a)"
    using assms distinct_card[of "map snd (al_allocations a)"] by (auto simp: alloc_ok_def)
  have "(\<forall>j<al_slots a. j \<in> ?used) \<longleftrightarrow> ?used = {..<al_slots a}" using sub by blast
  also have "\<dots> \<longleftrightarrow> length (al_allocations a) = al_slots a"
    using card sub card_subset_eq[OF _ sub] by auto
  finally show ?thesis .
qed

text \<open>
  C5. First fit, on every branch: a network that holds a slot gets it back and nothing changes;
  otherwise the least slot not in use is recorded and, when the save succeeds, returned; the
  pool is reported exhausted exactly when as many networks hold slots as the pool has.
\<close>

theorem allocate_first_fit:
  assumes "alloc_ok a"
  shows "(\<forall>i. get a n = Some i \<longrightarrow> allocate io n a = (Inr i, a))
    \<and> (get a n = None \<and> length (al_allocations a) = al_slots a \<longrightarrow>
        allocate io n a = (Inl UnderlayPoolExhausted, a))
    \<and> (get a n = None \<and> length (al_allocations a) \<noteq> al_slots a \<longrightarrow>
        (\<exists>i a'. i = (LEAST j. j \<notin> snd ` set (al_allocations a)) \<and> i < al_slots a
           \<and> al_allocations a' = al_allocations a @ [(n, i)]
           \<and> (allocate io n a = (Inr i, a') \<or> (\<exists>e. fst (save io a) = Inl e \<and> allocate io n a = (Inl e, a')))))"
proof -
  have full: "length (al_allocations a) = al_slots a"
    if "\<forall>j<al_slots a. j \<in> snd ` set (al_allocations a)"
    using that used_full_iff[OF assms] by blast
  show ?thesis
  proof (cases rule: allocate_cases[of a n io])
    case (fresh idx r a')
    have "idx = (LEAST j. j \<notin> snd ` set (al_allocations a))"
      using fresh(3,4) by (intro Least_equality[symmetric]) (auto simp: not_less[symmetric])
    moreover have "length (al_allocations a) \<noteq> al_slots a"
      using fresh(2,3) used_full_iff[OF assms] by blast
    moreover have "fst (save io a) = r"
      using fresh(5) by (auto simp: save_def split: option.splits if_splits)
    moreover have "allocate io n a = (Inr idx, a') \<or> (\<exists>e. r = Inl e \<and> allocate io n a = (Inl e, a'))"
      using fresh(6) by (cases r) (simp_all add: map_sum.simps)
    ultimately show ?thesis using fresh(1,2) save_run(1)[OF fresh(5)] by auto
  qed (simp_all add: full)
qed

lemma default_pool_net: "ip_network4 ''100.64.0.0/22'' = Some (1681915904, 22)"
  by (simp add: ip_network4_def parse_ipv4_def parse_octet_def parse_nat_def make_netmask_def
      is_digit_def digit_val_def)

definition pool22 :: allocator where
  "pool22 = \<lparr>al_network = 1681915904, al_prefixlen = 22, al_slots = 256,
             al_allocations = [(''net-a'', 0), (''net-b'', 2)], al_file = NoFile\<rparr>"

lemma pool22_ok: "alloc_ok pool22"
  by (simp add: alloc_ok_def pool22_def)

theorem allocate_first_fit_witness:
  "alloc_ok pool22 \<and> get pool22 ''net-c'' = None \<and> get pool22 ''net-b'' = Some 2
   \<and> allocate fs_ok ''net-b'' pool22 = (Inr 2, pool22)"
proof -
  have "get pool22 ''net-c'' = None" "get pool22 ''net-b'' = Some 2"
    by (simp_all add: get_def pool22_def)
  then show ?thesis
    using allocate_first_fit[OF pool22_ok, of "''net-b''" fs_ok] pool22_ok by simp
qed

text \<open>
  C6. Isolation over any history: starting from any pool and state file that give no slot to
  two networks, after any sequence of allocations and releases, whatever the file system
  answers, two networks never hold the same slot, every slot lies in the pool, and a network
  that was not released still holds the slot it had.
\<close>

theorem allocator_runs_disjoint:
  assumes "init pool file = Inr a" and "distinct (map snd (al_allocations a))"
    and "b = run_slots allocate free ops a"
  shows "(\<forall>m n i j. m \<noteq> n \<and> get b m = Some i \<and> get b n = Some j \<longrightarrow> i \<noteq> j)
    \<and> (\<forall>n i. get b n = Some i \<longrightarrow> i < al_slots a)
    \<and> (\<forall>n i. get a n = Some i \<and> (\<forall>io. Drop io n \<notin> set ops) \<longrightarrow> get b n = Some i)"
proof -
  have ok: "alloc_ok a" using assms(1,2) by (rule init_ok)
  then have "alloc_ok b" unfolding assms(3) by (rule under.run_keeps)
  then have "get b n = Some i \<Longrightarrow> i < al_slots a" for n i
    using under.slot_bound[of b n i] by (simp add: assms(3) run_frame)
  moreover have "get a n = Some i \<Longrightarrow> \<forall>io. Drop io n \<notin> set ops \<Longrightarrow> get b n = Some i" for n i
    unfolding assms(3) by (rule under.run_held)
  ultimately show ?thesis using \<open>alloc_ok b\<close> get_inj by blast
qed

theorem allocator_runs_disjoint_witness:
  "let a = \<lparr>al_network = 1681915904, al_prefixlen = 22, al_slots = 256,
            al_allocations = [(''x'', 7)], al_file = Document (JObj [(''x'', JInt 7), (''y'', JInt 999)])\<rparr>
   in init DEFAULT_UNDERLAY_EGRESS_CIDR (Document (JObj [(''x'', JInt 7), (''y'', JInt 999)])) = Inr a
      \<and> get (run_slots allocate free [Take fs_ok ''y'', Drop fs_ok ''z''] a) ''x'' = Some 7"
proof -
  let ?f = "Document (JObj [(''x'', JInt 7), (''y'', JInt 999)])"
  let ?a = "\<lparr>al_network = 1681915904, al_prefixlen = 22, al_slots = 256,
            al_allocations = [(''x'', 7)], al_file = ?f\<rparr>"
  note n = default_pool_net
  have i: "init DEFAULT_UNDERLAY_EGRESS_CIDR ?f = Inr ?a"
    by (simp add: init_def n const_defs load_def dict_set_def clean_idx_def)
  have d: "distinct (map snd (al_allocations ?a))" by simp
  have "get ?a ''x'' = Some 7 \<and> (\<forall>io. Drop io ''x'' \<notin> set [Take fs_ok ''y'', Drop fs_ok ''z''])"
    by (simp add: get_def)
  then have "get (run_slots allocate free [Take fs_ok ''y'', Drop fs_ok ''z''] ?a) ''x'' = Some 7"
    using allocator_runs_disjoint[OF i d refl, THEN conjunct2, THEN conjunct2] by blast
  with i show ?thesis unfolding Let_def by (rule conjI)
qed

text \<open>
  Addresses: the only way \<^verbatim>\<open>addresses\<close> raises is that the allocation raised; otherwise it
  returns the texts of the first two host addresses of the network's /30, both lie in the
  pool, and the addresses of two networks are four different texts.
\<close>

theorem addresses_disjoint_in_pool:
  assumes "alloc_ok a" and "m \<noteq> n" and "allocate io m a = (Inr i, a1)"
    and "allocate io' n a1 = (Inr j, a2)"
  shows "addresses io m a = (Inr (str_ipv4 (al_network a + 4 * i + 1), str_ipv4 (al_network a + 4 * i + 2)), a1)
    \<and> addresses io' n a1 = (Inr (str_ipv4 (al_network a + 4 * j + 1), str_ipv4 (al_network a + 4 * j + 2)), a2)
    \<and> distinct [str_ipv4 (al_network a + 4 * i + 1), str_ipv4 (al_network a + 4 * i + 2),
               str_ipv4 (al_network a + 4 * j + 1), str_ipv4 (al_network a + 4 * j + 2)]
    \<and> al_network a + 4 * i + 3 < al_network a + 2 ^ (32 - al_prefixlen a)
    \<and> al_network a + 4 * j + 3 < al_network a + 2 ^ (32 - al_prefixlen a)"
proof -
  have ok1: "alloc_ok a1" and f1: "al_network a1 = al_network a" "al_slots a1 = al_slots a"
    using assms(1,3) alloc_ok_allocate[of a io m] allocate_frame[where a = a and io = io and n = m]
    by simp_all
  have ok2: "alloc_ok a2" and f2: "al_slots a2 = al_slots a"
    using ok1 assms(4) f1 alloc_ok_allocate[of a1 io' n] allocate_frame[where a = a1 and io = io' and n = n]
    by simp_all
  have "get a2 n = Some j" using assms(4) by (rule allocate_returned)
  moreover have "get a2 m = Some i"
    using under.take_frame[OF assms(2), of io' a1] allocate_returned[OF assms(3)] assms(4) by simp
  ultimately have ij: "i \<noteq> j" "i < al_slots a" "j < al_slots a"
    using assms(2) get_inj[OF ok2] under.slot_bound[OF ok2] f2 by auto
  note bnd = slot_in_pool[OF assms(1) ij(2)] slot_in_pool[OF assms(1) ij(3)]
  then show ?thesis
    using ij(1) addresses_run[OF assms(1,3)] addresses_run[OF ok1 assms(4)] f1
    by (simp add: str_ipv4_inj mult.commute)
qed

theorem addresses_disjoint_in_pool_witness:
  "alloc_ok pool22 \<and> ''net-a'' \<noteq> ''net-b''
   \<and> addresses fs_ok ''net-a'' pool22 = (Inr (str_ipv4 1681915905, str_ipv4 1681915906), pool22)
   \<and> addresses fs_ok ''net-b'' pool22 = (Inr (str_ipv4 1681915913, str_ipv4 1681915914), pool22)"
proof -
  have a: "allocate fs_ok ''net-a'' pool22 = (Inr 0, pool22)"
    "allocate fs_ok ''net-b'' pool22 = (Inr 2, pool22)"
    by (simp_all add: allocate_def pool22_def)
  show ?thesis
    using addresses_disjoint_in_pool[OF pool22_ok _ a] pool22_ok by (simp add: pool22_def)
qed

text \<open>
  Durability: after any sequence of allocations and releases whose saves succeed, an agent
  restarted on the state file left behind finds every network with the slot it held.
\<close>

theorem restart_keeps_allocations:
  assumes "init pool file = Inr a" and "distinct (map snd (al_allocations a))"
    and "\<forall>op \<in> set ops. op_fs op = fs_ok" and "b = run_slots allocate free ops a"
  shows "\<exists>c. init pool (al_file b) = Inr c \<and> get c = get b \<and> al_slots c = al_slots b
    \<and> al_network c = al_network b"
proof -
  note i = init_Inr[OF assms(1)]
  have "al_file a = file"
    using assms(1) by (auto simp: init_def Let_def split: option.splits if_splits sum.splits)
  then have "synced a" using i(4) by (auto simp: synced_def get_def fun_eq_iff)
  then have "synced b"
    unfolding assms(4) by (rule run_synced[OF init_ok[OF assms(1,2)] _ assms(3)])
  then obtain m where m: "load (al_slots a) (al_file b) = Inr m" "map_of m = get b"
    by (auto simp: synced_def assms(4) run_frame)
  define c where "c = \<lparr>al_network = al_network a, al_prefixlen = al_prefixlen a,
    al_slots = al_slots a, al_allocations = m, al_file = al_file b\<rparr>"
  have "init pool (al_file b) = Inr c"
    using i m(1) by (simp add: init_def c_def)
  moreover have "get c = get b" using m(2) by (simp add: c_def get_def fun_eq_iff)
  ultimately show ?thesis by (auto simp: c_def assms(4) run_frame)
qed

theorem restart_keeps_allocations_witness:
  "\<exists>a. init DEFAULT_UNDERLAY_EGRESS_CIDR NoFile = Inr a \<and>
     (\<exists>c. init DEFAULT_UNDERLAY_EGRESS_CIDR
          (al_file (run_slots allocate free [Take fs_ok ''x'', Take fs_ok ''y'', Drop fs_ok ''x''] a)) = Inr c
        \<and> get c = get (run_slots allocate free [Take fs_ok ''x'', Take fs_ok ''y'', Drop fs_ok ''x''] a))"
proof -
  let ?a = "\<lparr>al_network = 1681915904, al_prefixlen = 22, al_slots = 256,
            al_allocations = [], al_file = NoFile\<rparr>"
  note n = default_pool_net
  have i: "init DEFAULT_UNDERLAY_EGRESS_CIDR NoFile = Inr ?a"
    by (simp add: init_def n const_defs load_def)
  have "\<forall>op \<in> set [Take fs_ok ''x'', Take fs_ok ''y'', Drop fs_ok ''x'']. op_fs op = fs_ok"
    "distinct (map snd (al_allocations ?a))" by simp_all
  then show ?thesis
    using restart_keeps_allocations[OF i _ _ refl] i by blast
qed

text \<open>
  C7. Capacity of the default pool: whatever the state file, the allocator built on the default
  \<^verbatim>\<open>100.64.0.0/22\<close> has 256 slots, and with 256 networks allocated every further network is
  refused.
\<close>

theorem default_pool_capacity:
  assumes "init DEFAULT_UNDERLAY_EGRESS_CIDR file = Inr a" and "distinct (map snd (al_allocations a))"
    and "length (al_allocations a) = 256" and "get a n = None"
  shows "al_slots a = 256 \<and> allocate io n a = (Inl UnderlayPoolExhausted, a)"
proof -
  note i = init_Inr[OF assms(1)]
  have "al_slots a = 256" using i(1,3) by (simp add: const_defs default_pool_net)
  moreover have "alloc_ok a" using assms(1,2) by (rule init_ok)
  ultimately show ?thesis
    using assms(3,4) used_full_iff[of a] by (cases rule: allocate_cases[of a n io]) auto
qed

definition full_file :: state_file where
  "full_file = Document (to_json (map (\<lambda>i. (replicate i CHR ''n'', i)) [0..<256]))"

theorem default_pool_capacity_witness:
  "\<exists>a. init DEFAULT_UNDERLAY_EGRESS_CIDR full_file = Inr a
     \<and> allocate fs_ok ''other'' a = (Inl UnderlayPoolExhausted, a)"
proof -
  let ?m = "map (\<lambda>i. (replicate i CHR ''n'', i)) [0..<256]"
  let ?a = "\<lparr>al_network = 1681915904, al_prefixlen = 22, al_slots = 256,
             al_allocations = sort_key fst ?m, al_file = full_file\<rparr>"
  note n = default_pool_net
  have "distinct (map fst ?m)"
    by (simp add: distinct_map comp_def inj_on_def del: upt_rec_numeral)
  then have "load 256 full_file = Inr (sort_key fst ?m)"
    unfolding full_file_def by (rule load_to_json) auto
  then have i: "init DEFAULT_UNDERLAY_EGRESS_CIDR full_file = Inr ?a"
    by (simp add: init_def n const_defs del: upt_rec_numeral)
  have d: "distinct (map snd (al_allocations ?a))"
    by (simp add: distinct_map comp_def inj_on_def del: upt_rec_numeral) 
  have l: "length (al_allocations ?a) = 256" by (simp del: upt_rec_numeral)
  have "''other'' \<notin> fst ` set ?m"
  proof
    assume "''other'' \<in> fst ` set ?m"
    then obtain i where "''other'' = replicate i CHR ''n''" by auto
    then have "CHR ''o'' \<in> set (replicate i CHR ''n'')" by (metis list.set_intros(1))
    then show False by (auto split: if_splits)
  qed
  then have g: "get ?a ''other'' = None" by (simp add: get_None_iff del: upt_rec_numeral)
  show ?thesis using default_pool_capacity[OF i d l g] i by blast
qed

end
