(* ===== verification/Plugins.thy ===== *)
theory Plugins
  imports Constants CatalogDB Allocator
begin

text \<open>
  The exposure plugins as the agent sees them (\<^verbatim>\<open>agent/plugins/base.py\<close>): an instance has a name, brings
  a namespace in line with a list of services and tears it down; the registry maps names to
  instances. Plugins act on the machine, whose state is \<open>'k\<close>.
\<close>

section \<open>Definitions\<close>

record 'k plugin =
  pl_name :: string
  pl_apply_config :: "string \<Rightarrow> service_dict list \<Rightarrow> ('k, unit) act"
  pl_teardown :: "string \<Rightarrow> ('k, unit) act"

text \<open>\<^verbatim>\<open>_REGISTRY\<close>: a dictionary keeps the position of a key that is set again.\<close>

type_synonym 'k registry = "(string \<times> 'k plugin) list"

definition register :: "'k plugin \<Rightarrow> 'k registry \<Rightarrow> exc + 'k registry" where
  "register plugin reg =
     (if pl_name plugin = [] then Inl ValueError
      else if pl_name plugin \<notin> set EXPOSURE_PLUGINS then Inl ValueError
      else Inr (dict_set reg (pl_name plugin) plugin))"

definition get_plugin :: "string \<Rightarrow> 'k registry \<Rightarrow> 'k plugin option" where
  "get_plugin name reg = map_of reg name"

definition all_plugins :: "'k registry \<Rightarrow> 'k plugin list" where
  "all_plugins reg = map snd reg"

text \<open>
  The grouping loop of \<^verbatim>\<open>reconcile_network\<close>: one list per loaded plugin, a service goes to the
  list of the plugin it names, \<^verbatim>\<open>nat\<close> by default, and is skipped when that plugin is not loaded.
\<close>

definition plugin_of :: "service_dict \<Rightarrow> string" where
  "plugin_of svc = (if truthy_str (sd_exposure_plugin svc) then the (sd_exposure_plugin svc) else EXPOSURE_NAT)"

fun group_services :: "service_dict list \<Rightarrow> (string \<times> service_dict list) list \<Rightarrow> (string \<times> service_dict list) list" where
  "group_services [] by_plugin = by_plugin"
| "group_services (svc # svcs) by_plugin =
     (case map_of by_plugin (plugin_of svc) of
        None \<Rightarrow> group_services svcs by_plugin
      | Some members \<Rightarrow> group_services svcs (dict_set by_plugin (plugin_of svc) (members @ [svc])))"

section \<open>Lemmas\<close>

definition registry_ok :: "'k registry \<Rightarrow> bool" where
  "registry_ok reg \<longleftrightarrow> distinct (map fst reg) \<and> (\<forall>(n, p) \<in> set reg. n = pl_name p \<and> n \<in> set EXPOSURE_PLUGINS)"

lemma registry_names: "registry_ok reg \<Longrightarrow> map pl_name (all_plugins reg) = map fst reg"
  by (auto simp: registry_ok_def all_plugins_def intro!: map_cong)

lemma register_ok: "registry_ok reg \<Longrightarrow> register p reg = Inr reg' \<Longrightarrow> registry_ok reg'"
  by (auto simp: register_def registry_ok_def dict_set_def split: if_splits) (auto simp: comp_def case_prod_beta)

lemma map_of_dict_set: "map_of (dict_set d k v) k' = (if k' = k then Some v else map_of d k')"
proof (cases "k \<in> fst ` set d")
  case True
  have "map_of (map (\<lambda>(k', w). (k', if k' = k then v else w)) d) k' = (if k' = k then Some v else map_of d k')"
    if "map_of d k' \<noteq> None \<or> k' \<noteq> k"
    using that by (induction d) (auto split: if_splits)
  moreover have "map_of d k \<noteq> None" using True by (simp add: map_of_eq_None_iff)
  ultimately show ?thesis using True by (cases "k' = k") (simp_all add: dict_set_def)
next
  case False
  then have "map_of d k = None" by (simp add: map_of_eq_None_iff)
  then show ?thesis using False by (simp add: dict_set_def map_add_def split: option.split)
qed

lemma group_services_lookup: "map_of (group_services svcs by) name =
  map_option (\<lambda>members. members @ filter (\<lambda>s. plugin_of s = name) svcs) (map_of by name)"
proof (induction svcs arbitrary: "by")
  case Nil
  then show ?case by (simp add: option.map_ident)
next
  case (Cons svc svcs)
  then show ?case by (cases "map_of by (plugin_of svc)") (auto simp: map_of_dict_set option.map_comp comp_def)
qed

end
