(* ===== verification/RegistryClient.thy ===== *)
theory RegistryClient
  imports HostRoutes
begin

text \<open>
  The agent's client of the REST API (\<^verbatim>\<open>agent/registry_client.py\<close>): how it composes the desired state
  of a network from four kinds of requests, and which exceptions leave it. The Keystone session
  and the HTTP transport (keystoneauth1) are not part of the repository: \<open>transport\<close> is the
  record of the calls the client makes, over an abstract state. A request is a constructor of
  \<open>request\<close>; \<open>path_of\<close> is the URL path the source writes for it. A decoded body is the value of the
  one key the client reads; \<open>NotJson\<close> is a body that \<^verbatim>\<open>resp.json()\<close> rejects.
\<close>

section \<open>Definitions\<close>

datatype request =
    GetBindings string
  | GetService string
  | GetOptOut
  | GetBackends string

fun path_of :: "request \<Rightarrow> string" where
  "path_of (GetBindings n) = ''/v2.0/local_service_bindings?network_id='' @ n"
| "path_of (GetService i) = ''/v2.0/local_services/'' @ i"
| "path_of GetOptOut = ''/v2.0/local_services?attachment_policy=opt-out&enabled=True''"
| "path_of (GetBackends i) = ''/v2.0/local_service_backends?service_id='' @ i @ ''&enabled=True''"

datatype body =
    Bindings "binding_dict list"
  | ServiceBody service_dict
  | Services "service_dict list"
  | Backends "backend_dict list"
  | OtherJson
  | NotJson

record response =
  status_code :: nat
  resp_body :: body

record 'h transport =
  tr_load_session :: "('h, unit) act"
  tr_get_endpoint :: "('h, string) act"
  tr_get :: "string \<Rightarrow> ('h, response) act"

record 'h client =
  cl_session :: bool
  cl_endpoint :: "string option"
  cl_net :: 'h

definition on_net :: "('h, 'a) act \<Rightarrow> ('h client, 'a) act" where
  "on_net m c = (case m (cl_net c) of (r, h) \<Rightarrow> (r, c\<lparr>cl_net := h\<rparr>))"

definition get_session :: "'h transport \<Rightarrow> ('h client, unit) act" where
  "get_session tr =
     bnd (gets cl_session) (\<lambda>cached.
       if cached then ret ()
       else andthen (on_net (tr_load_session tr)) (modify (\<lambda>c. c\<lparr>cl_session := True\<rparr>)))"

text \<open>Only \<^verbatim>\<open>EndpointNotFound\<close> is translated; every other exception of Keystone leaves as it is.\<close>

definition get_endpoint :: "'h transport \<Rightarrow> ('h client, string) act" where
  "get_endpoint tr =
     bnd (gets cl_endpoint) (\<lambda>cached.
       case cached of
         Some e \<Rightarrow> ret e
       | None \<Rightarrow>
           bnd (attempt (andthen (get_session tr) (on_net (tr_get_endpoint tr)))
                  (\<lambda>e. if e = Foreign ''EndpointNotFound'' then raise RegistryFetchError else raise e))
             (\<lambda>endpoint. andthen (modify (\<lambda>c. c\<lparr>cl_endpoint := Some endpoint\<rparr>)) (ret endpoint)))"

definition get_json :: "'h transport \<Rightarrow> request \<Rightarrow> ('h client, body) act" where
  "get_json tr req =
     bnd (get_endpoint tr) (\<lambda>endpoint.
     bnd (attempt (andthen (get_session tr) (on_net (tr_get tr (endpoint @ path_of req))))
            (\<lambda>_. raise RegistryFetchError)) (\<lambda>resp.
       if status_code resp \<noteq> 200 then raise RegistryFetchError
       else case resp_body resp of NotJson \<Rightarrow> raise ValueError | b \<Rightarrow> ret b))"

text \<open>\<^verbatim>\<open>resp.get(key) or []\<close> and \<^verbatim>\<open>resp.get(key) or {}\<close>.\<close>

definition body_bindings :: "body \<Rightarrow> binding_dict list" where
  "body_bindings b = (case b of Bindings bs \<Rightarrow> bs | _ \<Rightarrow> [])"

definition body_services :: "body \<Rightarrow> service_dict list" where
  "body_services b = (case b of Services ss \<Rightarrow> ss | _ \<Rightarrow> [])"

definition body_backends :: "body \<Rightarrow> backend_dict list" where
  "body_backends b = (case b of Backends bs \<Rightarrow> bs | _ \<Rightarrow> [])"

definition empty_service_dict :: service_dict where
  "empty_service_dict =
     \<lparr>sd_id = None, sd_project_id = None, sd_name = None, sd_description = None, sd_local_ipv4 = None,
      sd_local_ipv6 = None, sd_protocol = None, sd_port = None, sd_attachment_policy = None,
      sd_distribution_policy = None, sd_exposure_plugin = None, sd_health_check_type = None,
      sd_health_check_config = None, sd_enabled = None, sd_backends = None\<rparr>"

definition body_service :: "body \<Rightarrow> service_dict" where
  "body_service b = (case b of ServiceBody s \<Rightarrow> s | _ \<Rightarrow> empty_service_dict)"

definition fetch_backends :: "'h transport \<Rightarrow> string \<Rightarrow> ('h client, backend_dict list) act" where
  "fetch_backends tr service_id =
     bnd (get_json tr (GetBackends service_id)) (\<lambda>resp.
       ret (filter (\<lambda>b. get_enabled (bd_enabled b)) (body_backends resp)))"

definition fetch_service :: "'h transport \<Rightarrow> string \<Rightarrow> ('h client, service_dict option) act" where
  "fetch_service tr service_id =
     bnd (get_json tr (GetService service_id)) (\<lambda>resp.
       let svc = body_service resp
       in if \<not> get_enabled (sd_enabled svc) then ret None
          else bnd (fetch_backends tr service_id) (\<lambda>bs. ret (Some (svc\<lparr>sd_backends := Some bs\<rparr>))))"

fun fetch_explicit :: "'h transport \<Rightarrow> string list \<Rightarrow> service_dict list \<times> string list \<Rightarrow>
    ('h client, service_dict list \<times> string list) act" where
  "fetch_explicit tr [] acc = ret acc"
| "fetch_explicit tr (sid # sids) (services, seen) =
     bnd (fetch_service tr sid) (\<lambda>svc.
       case svc of
         Some s \<Rightarrow>
           if sid \<notin> set seen then fetch_explicit tr sids (services @ [s], sid # seen)
           else fetch_explicit tr sids (services, seen)
       | None \<Rightarrow> fetch_explicit tr sids (services, seen))"

fun fetch_implicit :: "'h transport \<Rightarrow> string list \<Rightarrow> service_dict list \<Rightarrow> service_dict list \<times> string list \<Rightarrow>
    ('h client, service_dict list) act" where
  "fetch_implicit tr excluded [] (services, seen) = ret services"
| "fetch_implicit tr excluded (svc # svcs) (services, seen) =
     (if \<not> truthy_str (sd_id svc) \<or> the (sd_id svc) \<in> set seen \<or> the (sd_id svc) \<in> set excluded
      then fetch_implicit tr excluded svcs (services, seen)
      else if \<not> get_enabled (sd_enabled svc) then fetch_implicit tr excluded svcs (services, seen)
      else bnd (fetch_backends tr (the (sd_id svc))) (\<lambda>bs.
             fetch_implicit tr excluded svcs (services @ [svc\<lparr>sd_backends := Some bs\<rparr>], the (sd_id svc) # seen)))"

definition desired_state_for_network :: "(string list \<Rightarrow> string list) \<Rightarrow> 'h transport \<Rightarrow> string \<Rightarrow>
    ('h client, service_dict list) act" where
  "desired_state_for_network set_order tr network_id =
     bnd (get_json tr (GetBindings network_id)) (\<lambda>bindings_resp.
       let bindings = filter (\<lambda>b. truthy_str (nd_service_id b)) (body_bindings bindings_resp);
           enabled_svc_ids = set_order (map bound_service (filter (\<lambda>b. get_enabled (nd_enabled b)) bindings));
           excluded_svc_ids = map bound_service (filter (\<lambda>b. \<not> get_enabled (nd_enabled b)) bindings)
       in bnd (fetch_explicit tr enabled_svc_ids ([], [])) (\<lambda>acc.
          bnd (get_json tr GetOptOut) (\<lambda>opt_out_resp.
            fetch_implicit tr excluded_svc_ids (body_services opt_out_resp) acc)))"

text \<open>The result is a set; the list may repeat an element.\<close>

definition desired_vips_for_network :: "(string list \<Rightarrow> string list) \<Rightarrow> 'h transport \<Rightarrow> string \<Rightarrow>
    ('h client, string list) act" where
  "desired_vips_for_network set_order tr network_id =
     bnd (desired_state_for_network set_order tr network_id) (\<lambda>services.
       ret (map (\<lambda>s. the (sd_local_ipv4 s) @ ''/32'') (filter (\<lambda>s. truthy_str (sd_local_ipv4 s)) services)))"

section \<open>A server that answers from the catalog\<close>

text \<open>
  Neutron's API layer is not part of the repository. What the client relies on is that each
  request is answered with the rows the catalog's readers give an administrator, and that a
  service that does not exist is a 404. The predicate says so of a transport whose client has
  its session and endpoint.
\<close>

definition answer :: "db \<Rightarrow> request \<Rightarrow> response" where
  "answer d req =
     (case req of
        GetBindings n \<Rightarrow> \<lparr>status_code = 200, resp_body = Bindings (get_local_service_bindings (\<lambda>_. True)
            \<lparr>nf_service_id = None, nf_network_id = Some [n], nf_enabled = None\<rparr> d)\<rparr>
      | GetService i \<Rightarrow>
          (case get_local_service d i of
             Inr s \<Rightarrow> \<lparr>status_code = 200, resp_body = ServiceBody s\<rparr>
           | Inl _ \<Rightarrow> \<lparr>status_code = 404, resp_body = OtherJson\<rparr>)
      | GetOptOut \<Rightarrow> \<lparr>status_code = 200, resp_body = Services (get_local_services (\<lambda>_. True)
            \<lparr>sf_attachment_policy = Some [ATTACH_OPT_OUT], sf_enabled = Some [True]\<rparr> d)\<rparr>
      | GetBackends i \<Rightarrow> \<lparr>status_code = 200, resp_body = Backends (get_local_service_backends (\<lambda>_. True)
            \<lparr>bf_service_id = Some [i], bf_enabled = Some [True]\<rparr> d)\<rparr>)"

definition serves :: "db \<Rightarrow> 'h transport \<Rightarrow> string \<Rightarrow> bool" where
  "serves d tr endpoint \<longleftrightarrow> (\<forall>req h. tr_get tr (endpoint @ path_of req) h = (Inr (answer d req), h))"

definition ready :: "string \<Rightarrow> 'h client \<Rightarrow> bool" where
  "ready endpoint c \<longleftrightarrow> cl_session c \<and> cl_endpoint c = Some endpoint"

definition with_backends :: "db \<Rightarrow> service_dict \<Rightarrow> service_dict" where
  "with_backends d svc = svc\<lparr>sd_backends := Some (get_local_service_backends (\<lambda>_. True)
     \<lparr>bf_service_id = Some [the (sd_id svc)], bf_enabled = Some [True]\<rparr> d)\<rparr>"

section \<open>Lemmas\<close>

lemma get_session_ready [simp]: "cl_session c \<Longrightarrow> get_session tr c = (Inr (), c)"
  by (simp add: get_session_def)

lemma get_endpoint_ready [simp]: "cl_endpoint c = Some e \<Longrightarrow> get_endpoint tr c = (Inr e, c)"
  by (simp add: get_endpoint_def)

lemma get_json_serves:
  assumes "ready e c" "serves d tr e"
  shows "get_json tr req c =
    (if status_code (answer d req) = 200 then Inr (resp_body (answer d req)) else Inl RegistryFetchError, c)"
proof -
  have "resp_body (answer d req) \<noteq> NotJson"
    by (simp add: answer_def split: request.split sum.split)
  then have "(case resp_body (answer d req) of NotJson \<Rightarrow> raise ValueError | b \<Rightarrow> ret b) c = (Inr (resp_body (answer d req)), c)"
    by (cases "resp_body (answer d req)") simp_all
  then show ?thesis
    using assms unfolding ready_def serves_def get_json_def
    by (simp add: on_net_def)
qed

lemma fetch_backends_serves:
  assumes "ready e c" "serves d tr e"
  shows "fetch_backends tr i c = (Inr (get_local_service_backends (\<lambda>_. True)
      \<lparr>bf_service_id = Some [i], bf_enabled = Some [True]\<rparr> d), c)"
proof -
  have "filter (\<lambda>b. get_enabled (bd_enabled b)) (get_local_service_backends (\<lambda>_. True)
      \<lparr>bf_service_id = Some [i], bf_enabled = Some [True]\<rparr> d) = get_local_service_backends (\<lambda>_. True)
      \<lparr>bf_service_id = Some [i], bf_enabled = Some [True]\<rparr> d"
    by (rule filter_all) (auto simp: get_local_service_backends_def collection_query_def among_def make_backend_dict_def)
  then show ?thesis
    by (simp add: fetch_backends_def get_json_serves[OF assms] answer_def body_backends_def)
qed

lemma fetch_service_serves:
  assumes "ready e c" "serves d tr e" "db_wf d" "s \<in> set (db_services d)"
  shows "fetch_service tr (svc_id s) c =
    (Inr (if svc_enabled s then Some (with_backends d (make_service_dict s)) else None), c)"
proof -
  have "get_local_service d (svc_id s) = Inr (make_service_dict s)"
    using get_local_service_iff[OF assms(3)] assms(4) by blast
  then show ?thesis
    by (simp add: fetch_service_def get_json_serves[OF assms(1,2)] answer_def body_service_def Let_def
        fetch_backends_serves[OF assms(1,2)] with_backends_def)
qed

text \<open>The loops of the client follow those of the server, with the backends filled in.\<close>

lemma fetch_explicit_serves:
  assumes "ready e c" "serves d tr e" "db_wf d" "set sids \<subseteq> svc_id ` set (db_services d)"
  shows "fetch_explicit tr sids (map (with_backends d) svs, seen) c =
    (Inr (map (with_backends d) (fst (explicit_services d sids (svs, seen))), snd (explicit_services d sids (svs, seen))), c)"
  using assms(4)
proof (induction sids arbitrary: svs seen)
  case (Cons sid sids)
  then obtain s where s: "s \<in> set (db_services d)" "svc_id s = sid" by auto
  have found: "get_local_service d sid = Inr (make_service_dict s)"
    using get_local_service_iff[OF assms(3)] s by blast
  have fetched: "fetch_service tr sid c = (Inr (if svc_enabled s then Some (with_backends d (make_service_dict s)) else None), c)"
    using fetch_service_serves[OF assms(1-3) s(1)] s(2) by simp
  have ids: "set sids \<subseteq> svc_id ` set (db_services d)" using Cons.prems by simp
  show ?case
    using Cons.IH[OF ids, of "svs @ [make_service_dict s]" "sid # seen"] Cons.IH[OF ids, of svs seen]
    by (simp add: found fetched)
qed simp

lemma fetch_implicit_serves:
  assumes "ready e c" "serves d tr e" "\<And>s. s \<in> set svcs \<Longrightarrow> svc_enabled s \<and> svc_id s \<noteq> []"
  shows "fetch_implicit tr ex (map make_service_dict svcs) (map (with_backends d) svs, seen) c =
    (Inr (map (with_backends d) (implicit_services ex (map make_service_dict svcs) (svs, seen))), c)"
  using assms(3)
proof (induction svcs arbitrary: svs seen)
  case (Cons s svcs)
  have s: "svc_enabled s" "svc_id s \<noteq> []" using Cons.prems by simp_all
  have fetched: "fetch_backends tr (svc_id s) c = (Inr (get_local_service_backends (\<lambda>_. True)
      \<lparr>bf_service_id = Some [svc_id s], bf_enabled = Some [True]\<rparr> d), c)"
    by (rule fetch_backends_serves[OF assms(1,2)])
  show ?case
    using Cons.IH[of "svs @ [make_service_dict s]" "svc_id s # seen"] Cons.IH[of svs seen] Cons.prems s
    by (auto simp: fetched with_backends_def)
qed simp

lemma desired_state_serves:
  assumes "ready e c" "serves d tr e" "db_wf d" "set_order_ok set_order" "[] \<notin> svc_id ` set (db_services d)"
  shows "desired_state_for_network set_order tr n c =
    (Inr (map (with_backends d) (enabled_services_for_network set_order (\<lambda>_. True) d n)), c)"
proof -
  define B where "B = get_local_service_bindings (\<lambda>_. True)
      \<lparr>nf_service_id = None, nf_network_id = Some [n], nf_enabled = None\<rparr> d"
  define on where "on = set_order (map bound_service (filter (\<lambda>b. get_enabled (nd_enabled b)) B))"
  define off where "off = map bound_service (filter (\<lambda>b. \<not> get_enabled (nd_enabled b)) B)"
  define outs where "outs = filter (\<lambda>s. svc_attachment_policy s = ATTACH_OPT_OUT \<and> svc_enabled s) (db_services d)"
  have refs: "bi_service_id b \<in> svc_id ` set (db_services d)" if "b \<in> set (db_bindings d)" for b
    using that assms(3) by (auto simp: db_wf_def table_wf_def)
  have nonempty: "bi_service_id b \<noteq> []" if "b \<in> set (db_bindings d)" for b
    using refs[OF that] assms(5) by auto
  have B: "filter (\<lambda>b. truthy_str (nd_service_id b)) B = B"
    using nonempty by (intro filter_all)
      (auto simp: B_def get_local_service_bindings_def collection_query_def among_def)
  have on: "set on \<subseteq> svc_id ` set (db_services d)"
    using assms(4) bound_ids(1)[of "\<lambda>_. True" n d] refs by (auto simp: on_def B_def set_order_ok_def)
  have outs: "get_local_services (\<lambda>_. True) \<lparr>sf_attachment_policy = Some [ATTACH_OPT_OUT], sf_enabled = Some [True]\<rparr> d
      = map make_service_dict outs"
    by (simp add: opt_out_services outs_def)
  have server: "enabled_services_for_network set_order (\<lambda>_. True) d n =
      implicit_services off (map make_service_dict outs) (explicit_services d on ([], []))"
    unfolding enabled_services_for_network_def B_def[symmetric] Let_def on_def[symmetric] off_def[symmetric] outs ..
  have ex: "fetch_explicit tr on ([], []) c =
      (Inr (map (with_backends d) (fst (explicit_services d on ([], []))), snd (explicit_services d on ([], []))), c)"
    using fetch_explicit_serves[OF assms(1-3) on, of "[]" "[]"] by simp
  have im: "fetch_implicit tr off (map make_service_dict outs)
      (map (with_backends d) (fst (explicit_services d on ([], []))), snd (explicit_services d on ([], []))) c =
      (Inr (map (with_backends d) (enabled_services_for_network set_order (\<lambda>_. True) d n)), c)"
    using fetch_implicit_serves[OF assms(1,2), of outs] assms(5) unfolding server
    by (force simp: outs_def image_iff)
  have g1: "get_json tr (GetBindings n) c = (Inr (Bindings B), c)" "get_json tr GetOptOut c = (Inr (Services (map make_service_dict outs)), c)"
    by (simp_all add: get_json_serves[OF assms(1,2)] answer_def B_def outs)
  show ?thesis
    using ex im unfolding desired_state_for_network_def
    by (simp add: g1 body_bindings_def body_services_def B Let_def on_def[symmetric] off_def[symmetric]
        del: filter_filter)
qed

text \<open>A call of a ready client that leaves it ready and raises nothing but \<open>RegistryFetchError\<close>.\<close>

definition tame :: "string \<Rightarrow> ('h client, 'a) act \<Rightarrow> bool" where
  "tame e m \<longleftrightarrow> (\<forall>c r c'. ready e c \<and> m c = (r, c') \<longrightarrow> ready e c' \<and> (\<forall>x. r = Inl x \<longrightarrow> x = RegistryFetchError))"

lemma tame_ret: "tame e (ret x)"
  by (simp add: tame_def)

lemma tame_bnd:
  assumes "tame e m" "\<And>x. tame e (f x)"
  shows "tame e (bnd m f)"
  unfolding tame_def
proof (intro allI impI, elim conjE)
  fix c r c' assume "ready e c" "bnd m f c = (r, c')"
  from this(2) show "ready e c' \<and> (\<forall>x. r = Inl x \<longrightarrow> x = RegistryFetchError)"
  proof (cases rule: bnd_cases)
    case (raised x)
    then show ?thesis using assms(1) \<open>ready e c\<close> unfolding tame_def by blast
  next
    case (returned x c1)
    then have "ready e c1" using assms(1) \<open>ready e c\<close> unfolding tame_def by blast
    then show ?thesis using assms(2)[of x] returned(2) unfolding tame_def by blast
  qed
qed

definition answers_json :: "'h transport \<Rightarrow> bool" where
  "answers_json tr \<longleftrightarrow> (\<forall>url h r h'. tr_get tr url h = (Inr r, h') \<longrightarrow> resp_body r \<noteq> NotJson)"

lemma tame_get_json:
  assumes "answers_json tr"
  shows "tame e (get_json tr req)"
  unfolding tame_def
proof (intro allI impI, elim conjE)
  fix c r c' assume c: "ready e c" and run: "get_json tr req c = (r, c')"
  obtain a h where a: "tr_get tr (e @ path_of req) (cl_net c) = (a, h)" by fastforce
  show "ready e c' \<and> (\<forall>x. r = Inl x \<longrightarrow> x = RegistryFetchError)"
  proof (cases a)
    case (Inl x)
    then show ?thesis using c run a by (auto simp: get_json_def ready_def on_net_def bnd_def attempt_def)
  next
    case (Inr resp)
    then have "resp_body resp \<noteq> NotJson" using assms a by (auto simp: answers_json_def)
    then show ?thesis using c run a Inr
      by (auto simp: get_json_def ready_def on_net_def split: if_splits body.splits)
  qed
qed

lemma tame_fetches:
  assumes "answers_json tr"
  shows "tame e (fetch_backends tr i)" "tame e (fetch_service tr i)"
    "tame e (fetch_explicit tr sids acc)" "tame e (fetch_implicit tr ex svcs acc)"
proof -
  show b: "tame e (fetch_backends tr i)" for i
    unfolding fetch_backends_def by (intro tame_bnd tame_get_json[OF assms] tame_ret)
  show s: "tame e (fetch_service tr i)" for i
    unfolding fetch_service_def Let_def
    by (intro tame_bnd tame_get_json[OF assms]) (auto intro: tame_bnd b tame_ret)
  show "tame e (fetch_explicit tr sids acc)"
  proof (induction sids arbitrary: acc)
    case (Cons sid sids)
    then show ?case by (cases acc) (auto intro!: tame_bnd s split: option.split simp del: ret_run)
  qed (simp add: tame_ret del: ret_run)
  show "tame e (fetch_implicit tr ex svcs acc)"
  proof (induction svcs arbitrary: acc)
    case (Cons svc svcs)
    then show ?case by (cases acc) (auto intro!: tame_bnd b simp del: ret_run)
  next
    case Nil
    show ?case by (cases acc) (simp add: tame_ret del: ret_run)
  qed
qed

section \<open>Properties\<close>

text \<open>An API in memory: it reads the request back from the path.\<close>

definition request_of :: "string \<Rightarrow> request" where
  "request_of p =
     (if startswith p ''/v2.0/local_service_bindings?network_id=''
      then GetBindings (drop (length ''/v2.0/local_service_bindings?network_id='') p)
      else if startswith p ''/v2.0/local_services/'' then GetService (drop (length ''/v2.0/local_services/'') p)
      else if startswith p ''/v2.0/local_service_backends?service_id=''
      then GetBackends (take (length p - length ''/v2.0/local_service_backends?service_id='' - length ''&enabled=True'')
             (drop (length ''/v2.0/local_service_backends?service_id='') p))
      else GetOptOut)"

lemma request_of_path: "request_of (path_of req) = req"
  by (cases req) (simp_all add: request_of_def startswith_def)

definition demo_transport :: "unit transport" where
  "demo_transport = \<lparr>tr_load_session = ret (), tr_get_endpoint = raise (Foreign ''ConnectFailure''),
     tr_get = (\<lambda>url h. (Inr (answer demo_db (request_of url)), h))\<rparr>"

definition demo_client :: "unit client" where
  "demo_client = \<lparr>cl_session = True, cl_endpoint = Some [], cl_net = ()\<rparr>"

lemma demo_serves: "serves demo_db demo_transport []" "ready [] demo_client" "answers_json demo_transport"
  by (auto simp: serves_def demo_transport_def request_of_path ready_def demo_client_def answers_json_def answer_def
      split: request.splits sum.splits)

lemma demo_ids: "[] \<notin> svc_id ` set (db_services demo_db)"
  by (simp add: demo_db_def demo_service_def)

text \<open>
  The agent's view is the server's: against an API that answers from the catalog, the
  desired state of a network is the list of services the server computes for it, in the order
  the client walks its own set, each with its enabled backends; the client is left as it was.
\<close>

theorem client_mirrors_server:
  assumes "ready e c" and "serves d tr e" and "db_wf d" and "set_order_ok set_order"
    and "[] \<notin> svc_id ` set (db_services d)"
  shows "desired_state_for_network set_order tr n c =
    (Inr (map (with_backends d) (enabled_services_for_network set_order (\<lambda>_. True) d n)), c)"
  using assms by (rule desired_state_serves)

theorem client_mirrors_server_witness:
  "desired_state_for_network remdups demo_transport ''n1'' demo_client =
     (Inr [with_backends demo_db (make_service_dict demo_service)], demo_client)"
  using client_mirrors_server[OF demo_serves(2,1) demo_db_wf remdups_order demo_ids, of "''n1''"]
  by (simp add: demo_services)

text \<open>
  A failed fetch is never a partial answer: once the client has its session and endpoint, and
  as long as bodies are JSON, the only exception that leaves it is \<open>RegistryFetchError\<close>,
  whichever request failed and however; the client stays ready.
\<close>

theorem fetch_errors_uniform:
  assumes "ready e c" and "answers_json tr" and "desired_state_for_network set_order tr n c = (r, c')"
  shows "ready e c' \<and> (\<forall>x. r = Inl x \<longrightarrow> x = RegistryFetchError)"
proof -
  have "tame e (desired_state_for_network set_order tr n)"
    unfolding desired_state_for_network_def Let_def
    by (intro tame_bnd tame_get_json[OF assms(2)] tame_fetches[OF assms(2)])
  then show ?thesis using assms(1,3) unfolding tame_def by blast
qed

text \<open>The API of the witness answers every request with a server error.\<close>

theorem fetch_errors_uniform_witness:
  "\<exists>c'. desired_state_for_network remdups
        (demo_transport\<lparr>tr_get := (\<lambda>url h. (Inr \<lparr>status_code = 500, resp_body = OtherJson\<rparr>, h))\<rparr>) ''n1'' demo_client
      = (Inl RegistryFetchError, c')"
proof -
  let ?tr = "demo_transport\<lparr>tr_get := (\<lambda>url h. (Inr \<lparr>status_code = 500, resp_body = OtherJson\<rparr>, h))\<rparr>"
  have j: "answers_json ?tr" by (simp add: answers_json_def)
  obtain c' where "desired_state_for_network remdups ?tr ''n1'' demo_client = (Inl RegistryFetchError, c')"
    by (simp add: desired_state_for_network_def get_json_def demo_client_def on_net_def)
  then show ?thesis using fetch_errors_uniform[OF demo_serves(2) j, of remdups "''n1''"] by auto
qed

text \<open>
  Before that it is not so: a client without an endpoint passes every Keystone exception but
  \<^verbatim>\<open>EndpointNotFound\<close> on as it is, so a Keystone that cannot be reached does not look like a
  failed fetch to the caller.
\<close>

theorem keystone_errors_escape:
  assumes "cl_endpoint c = None" and "cl_session c"
    and "tr_get_endpoint tr (cl_net c) = (Inl x, h)" and "x \<noteq> Foreign ''EndpointNotFound''"
  shows "desired_state_for_network set_order tr n c = (Inl x, c\<lparr>cl_net := h\<rparr>)"
proof -
  have "get_endpoint tr c = (Inl x, c\<lparr>cl_net := h\<rparr>)"
    using assms by (simp add: get_endpoint_def on_net_def)
  then show ?thesis by (simp add: desired_state_for_network_def get_json_def)
qed

theorem keystone_errors_escape_witness:
  "\<exists>c'. desired_state_for_network remdups demo_transport ''n1'' (demo_client\<lparr>cl_endpoint := None\<rparr>)
     = (Inl (Foreign ''ConnectFailure''), c')"
  using keystone_errors_escape[of "demo_client\<lparr>cl_endpoint := None\<rparr>" demo_transport "Foreign ''ConnectFailure''" "()"
      remdups "''n1''"]
  by (simp add: demo_client_def demo_transport_def)

end
