(* ===== verification/Kernel.thy ===== *)
theory Kernel
  imports Names
begin

text \<open>
  What the agent asks of the machine it runs on: Neutron's \<^verbatim>\<open>ip_lib\<close> (namespaces, veth pairs,
  addresses), the execution of commands as root, and the OVS database. None of it is part of
  the repository: \<open>kernel\<close> is the record of the calls, over an abstract state \<open>'k\<close>; every call may
  raise. A device is named by its namespace (\<open>None\<close>: the root namespace) and its name.

  Python's \<^verbatim>\<open>int()\<close> on strings, which the parsers of this layer use, is modelled here too.
\<close>

type_synonym device = "string option \<times> string"

record 'k kernel =
  k_ns_exists :: "string \<Rightarrow> ('k, bool) act"
  k_list_ns :: "('k, string list) act"
  k_gc_ns :: "string \<Rightarrow> ('k, unit) act"
  k_device_exists :: "device \<Rightarrow> ('k, bool) act"
  k_add_veth :: "string \<Rightarrow> device \<Rightarrow> ('k, unit) act"
  k_del_veth :: "string \<Rightarrow> ('k, unit) act"
  k_link_delete :: "string \<Rightarrow> ('k, unit) act"
  k_set_address :: "device \<Rightarrow> string \<Rightarrow> ('k, unit) act"
  k_set_mtu :: "device \<Rightarrow> int \<Rightarrow> ('k, unit) act"
  k_set_up :: "device \<Rightarrow> ('k, unit) act"
  k_addr_list :: "device \<Rightarrow> ('k, string list) act"
  k_addr_add :: "device \<Rightarrow> string \<Rightarrow> ('k, unit) act"
  k_addr_add_multiple :: "device \<Rightarrow> string list \<Rightarrow> ('k, unit) act"
  k_addr_delete_multiple :: "device \<Rightarrow> string list \<Rightarrow> ('k, unit) act"
  k_exec :: "string option \<Rightarrow> string list \<Rightarrow> ('k, unit) act"
  k_ovs_add_port :: "string \<Rightarrow> string \<Rightarrow> ('k, unit) act"
  k_ovs_set_iface_id :: "string \<Rightarrow> string \<Rightarrow> ('k, unit) act"
  k_ovs_del_port :: "string \<Rightarrow> ('k, unit) act"

section \<open>Integers as Python reads them\<close>

text \<open>
  \<^verbatim>\<open>int(s)\<close> for ASCII input: surrounding white space, a sign, digits with single underscores
  between them; \<open>None\<close> is the \<^verbatim>\<open>ValueError\<close>.
\<close>

definition is_space :: "char \<Rightarrow> bool" where
  "is_space c = ((of_char c :: nat) \<in> {9, 10, 11, 12, 13, 28, 29, 30, 31, 32})"

definition strip :: "string \<Rightarrow> string" where
  "strip s = rev (dropWhile is_space (rev (dropWhile is_space s)))"

definition parse_digits :: "string \<Rightarrow> nat option" where
  "parse_digits s =
     (if s \<noteq> [] \<and> is_digit (hd s) \<and> is_digit (last s) \<and> \<not> contains s ''__''
         \<and> list_all (\<lambda>c. is_digit c \<or> c = CHR ''_'') s
      then Some (nat_of_digits 0 (filter (\<lambda>c. c \<noteq> CHR ''_'') s)) else None)"

definition py_int :: "string \<Rightarrow> int option" where
  "py_int s =
     (case strip s of
        [] \<Rightarrow> None
      | c # cs \<Rightarrow>
          if c = CHR ''-'' then map_option (\<lambda>n. - int n) (parse_digits cs)
          else if c = CHR ''+'' then map_option int (parse_digits cs)
          else map_option int (parse_digits (c # cs)))"

text \<open>\<^verbatim>\<open>s.rsplit(c, 1)[1]\<close> for a string that contains \<open>c\<close>: what stands after the last \<open>c\<close>.\<close>

definition after_last :: "char \<Rightarrow> string \<Rightarrow> string" where
  "after_last c s = rev (takeWhile (\<lambda>x. x \<noteq> c) (rev s))"

lemma after_last_append: "c \<notin> set t \<Longrightarrow> after_last c (s @ c # t) = t"
proof -
  assume "c \<notin> set t"
  then have "takeWhile (\<lambda>x. x \<noteq> c) (rev t @ c # rev s) = rev t"
    by (subst takeWhile_append2) auto
  then show ?thesis by (simp add: after_last_def)
qed

lemma py_int_32: "py_int ''32'' = Some 32"
  by (simp add: py_int_def strip_def is_space_def parse_digits_def is_digit_def contains_def startswith_def digit_val_def)

section \<open>Addresses of a device\<close>

text \<open>
  What the code relies on of the address calls: listing does not change anything, adding and
  deleting do what they say to that device, and no other call of the agent touches an address
  (a fresh veth end has none the caller knows of: its addresses are unspecified).
\<close>

definition addr_ok :: "'k kernel \<Rightarrow> ('k \<Rightarrow> device \<Rightarrow> string set) \<Rightarrow> bool" where
  "addr_ok kn addrs \<longleftrightarrow>
     (\<forall>dev k r k'. k_addr_list kn dev k = (r, k') \<longrightarrow> k' = k \<and> (\<forall>cs. r = Inr cs \<longrightarrow> set cs = addrs k dev))
     \<and> (\<forall>dev cs k k'. k_addr_add_multiple kn dev cs k = (Inr (), k') \<longrightarrow>
          addrs k' = (addrs k)(dev := addrs k dev \<union> set cs))
     \<and> (\<forall>dev cs k k'. k_addr_delete_multiple kn dev cs k = (Inr (), k') \<longrightarrow>
          addrs k' = (addrs k)(dev := addrs k dev - set cs))"

lemma addr_list_ok:
  assumes "addr_ok kn addrs" "k_addr_list kn dev k = (Inr cs, k')"
  shows "k' = k" "set cs = addrs k dev"
  using assms unfolding addr_ok_def by blast+

lemma addr_change_ok:
  assumes "addr_ok kn addrs"
  shows "k_addr_add_multiple kn dev cs k = (Inr (), k') \<Longrightarrow> addrs k' = (addrs k)(dev := addrs k dev \<union> set cs)"
    and "k_addr_delete_multiple kn dev cs k = (Inr (), k') \<Longrightarrow> addrs k' = (addrs k)(dev := addrs k dev - set cs)"
  using assms unfolding addr_ok_def by blast+

text \<open>The calls that have nothing to do with addresses.\<close>

definition addr_frame :: "'k kernel \<Rightarrow> ('k \<Rightarrow> device \<Rightarrow> string set) \<Rightarrow> bool" where
  "addr_frame kn addrs \<longleftrightarrow>
     (\<forall>dev. keeps addrs (k_device_exists kn dev)) \<and> (\<forall>ns. keeps addrs (k_ns_exists kn ns))
     \<and> (\<forall>dev m. keeps addrs (k_set_address kn dev m)) \<and> (\<forall>dev m. keeps addrs (k_set_mtu kn dev m))
     \<and> (\<forall>dev. keeps addrs (k_set_up kn dev))
     \<and> (\<forall>br p. keeps addrs (k_ovs_add_port kn br p)) \<and> (\<forall>p l. keeps addrs (k_ovs_set_iface_id kn p l))"

section \<open>An instance in memory\<close>

text \<open>
  For evaluation at concrete inputs: the state is the address list of each device and the trail
  of the other calls that change something; every device exists.
\<close>

record mem_kernel =
  mk_addrs :: "device \<Rightarrow> string list"
  mk_trail :: "string list list"

definition trail :: "string list \<Rightarrow> (mem_kernel, unit) act" where
  "trail call = modify (\<lambda>k. k\<lparr>mk_trail := mk_trail k @ [call]\<rparr>)"

definition mem_kn :: "string list \<Rightarrow> mem_kernel kernel" where
  "mem_kn nss =
     \<lparr>k_ns_exists = (\<lambda>ns. ret (ns \<in> set nss)), k_list_ns = ret nss, k_gc_ns = (\<lambda>ns. trail [''gc'', ns]),
      k_device_exists = (\<lambda>_. ret True), k_add_veth = (\<lambda>r d. trail [''add_veth'', r, snd d]),
      k_del_veth = (\<lambda>r. trail [''del_veth'', r]), k_link_delete = (\<lambda>r. trail [''link_delete'', r]),
      k_set_address = (\<lambda>d m. trail [''set_address'', snd d, m]), k_set_mtu = (\<lambda>d m. trail [''set_mtu'', snd d]),
      k_set_up = (\<lambda>d. trail [''set_up'', snd d]),
      k_addr_list = (\<lambda>d. gets (\<lambda>k. mk_addrs k d)),
      k_addr_add = (\<lambda>d c. modify (\<lambda>k. k\<lparr>mk_addrs := (mk_addrs k)(d := mk_addrs k d @ [c])\<rparr>)),
      k_addr_add_multiple = (\<lambda>d cs. modify (\<lambda>k. k\<lparr>mk_addrs := (mk_addrs k)(d := mk_addrs k d @ cs)\<rparr>)),
      k_addr_delete_multiple =
        (\<lambda>d cs. modify (\<lambda>k. k\<lparr>mk_addrs := (mk_addrs k)(d := filter (\<lambda>c. c \<notin> set cs) (mk_addrs k d))\<rparr>)),
      k_exec = (\<lambda>ns cmd. trail cmd), k_ovs_add_port = (\<lambda>b p. trail [''ovs_add_port'', b, p]),
      k_ovs_set_iface_id = (\<lambda>p l. trail [''ovs_iface_id'', p, l]), k_ovs_del_port = (\<lambda>p. trail [''ovs_del_port'', p])\<rparr>"

definition mem_addrs :: "mem_kernel \<Rightarrow> device \<Rightarrow> string set" where
  "mem_addrs k d = set (mk_addrs k d)"

lemma trail_run [simp]: "trail call k = (Inr (), k\<lparr>mk_trail := mk_trail k @ [call]\<rparr>)"
  by (simp add: trail_def)

lemma mem_kn_sel [simp]:
  "k_ns_exists (mem_kn nss) ns k = (Inr (ns \<in> set nss), k)" "k_list_ns (mem_kn nss) k = (Inr nss, k)"
  "k_gc_ns (mem_kn nss) ns k = trail [''gc'', ns] k"
  "k_device_exists (mem_kn nss) d k = (Inr True, k)" "k_addr_list (mem_kn nss) d k = (Inr (mk_addrs k d), k)"
  "k_del_veth (mem_kn nss) r k = trail [''del_veth'', r] k"
  "k_set_address (mem_kn nss) d m k = trail [''set_address'', snd d, m] k" "k_set_mtu (mem_kn nss) d i k = trail [''set_mtu'', snd d] k"
  "k_set_up (mem_kn nss) d k = trail [''set_up'', snd d] k"
  "k_addr_add_multiple (mem_kn nss) d cs k = (Inr (), k\<lparr>mk_addrs := (mk_addrs k)(d := mk_addrs k d @ cs)\<rparr>)"
  "k_addr_delete_multiple (mem_kn nss) d cs k =
     (Inr (), k\<lparr>mk_addrs := (mk_addrs k)(d := filter (\<lambda>c. c \<notin> set cs) (mk_addrs k d))\<rparr>)"
  "k_ovs_add_port (mem_kn nss) b p k = trail [''ovs_add_port'', b, p] k"
  "k_ovs_set_iface_id (mem_kn nss) p l k = trail [''ovs_iface_id'', p, l] k" "k_ovs_del_port (mem_kn nss) p k = trail [''ovs_del_port'', p] k"
  by (simp_all add: mem_kn_def)

lemma mem_kn_ok: "addr_ok (mem_kn nss) mem_addrs" "addr_frame (mem_kn nss) mem_addrs"
  by (auto simp: addr_ok_def addr_frame_def keeps_def mem_addrs_def fun_eq_iff)

end
