(* ===== verification/Netns.thy ===== *)
theory Netns
  imports Kernel
begin

text \<open>
  The per-network namespace (\<^verbatim>\<open>agent/netns.py\<close>): parsing a \<^verbatim>\<open>Port_Binding\<close> row, provisioning the
  namespace and its veth, reconciling the VIPs on it, teardown, and the sync of the agent's
  start. Two operations own the addresses of the same device; the locale \<open>address_owner\<close> states
  the contract that keeps them apart, and it is interpreted for each of them.
\<close>

section \<open>Definitions\<close>

definition is_ipv4 :: "string \<Rightarrow> bool" where
  "is_ipv4 cidr = (CHR '':'' \<notin> set cidr)"

definition is_on_subnet_cidr :: "string \<Rightarrow> bool" where
  "is_on_subnet_cidr cidr =
     (if \<not> is_ipv4 cidr then False
      else if CHR ''/'' \<notin> set cidr then False
      else case py_int (after_last (CHR ''/'') cidr) of None \<Rightarrow> False | Some prefix \<Rightarrow> prefix < 32)"

definition is_vip_cidr :: "string \<Rightarrow> bool" where
  "is_vip_cidr cidr = (if \<not> is_ipv4 cidr then False else endswith cidr ''/32'')"

text \<open>\<^verbatim>\<open>s.split(' ')\<close>.\<close>

fun split_spaces :: "string \<Rightarrow> string \<Rightarrow> string list" where
  "split_spaces cur [] = [cur]"
| "split_spaces cur (c # cs) =
     (if c = CHR '' '' then cur # split_spaces [] cs else split_spaces (cur @ [c]) cs)"

definition parse_port_binding :: "ovn_const \<Rightarrow> pb_row \<Rightarrow> string option \<times> string list \<times> string \<times> int" where
  "parse_port_binding oc row =
     (case pb_mac row of
        None \<Rightarrow> (None, [], pb_logical_port row, 0)
      | Some mac \<Rightarrow>
          (let cidr_blob = (case pb_external_ids row (OVN_CIDRS_EXT_ID_KEY oc) of None \<Rightarrow> [] | Some b \<Rightarrow> b);
               ipv4_cidrs = filter (\<lambda>c. c \<noteq> [] \<and> CHR '':'' \<notin> set c) (split_spaces [] cidr_blob);
               mtu_raw = (case or_str (pb_external_ids row (OVN_NETWORK_MTU_EXT_ID_KEY oc)) (Some ''0'') of
                            Some m \<Rightarrow> m | None \<Rightarrow> ''0'');
               mtu = (case py_int mtu_raw of None \<Rightarrow> 0 | Some m \<Rightarrow> m)
           in (Some mac, ipv4_cidrs, pb_logical_port row, mtu)))"

text \<open>
  The diff both address reconcilers apply: the addresses of the device that are \<open>mine\<close> against
  the desired ones that are. Deletions go first; empty changes make no call. The sets are
  lists without duplicates, in an order \<open>set_order\<close> chooses.
\<close>

definition diff_addrs :: "(string list \<Rightarrow> string list) \<Rightarrow> 'k kernel \<Rightarrow> (string \<Rightarrow> bool) \<Rightarrow> device \<Rightarrow> string list \<Rightarrow>
    ('k, string list \<times> string list) act" where
  "diff_addrs set_order kn mine dev wanted =
     bnd (k_addr_list kn dev) (\<lambda>listed.
       let current = filter mine listed;
           desired = filter mine wanted;
           to_add = set_order (filter (\<lambda>c. c \<notin> set current) desired);
           to_del = set_order (filter (\<lambda>c. c \<notin> set desired) current)
       in andthen (doif (to_del \<noteq> []) (k_addr_delete_multiple kn dev to_del))
            (andthen (doif (to_add \<noteq> []) (k_addr_add_multiple kn dev to_add))
               (ret (to_add, to_del))))"

text \<open>The veth pair of the namespace: reused when the inner end exists, otherwise made anew.\<close>

definition ensure_veth :: "'k kernel \<Rightarrow> string \<Rightarrow> device \<Rightarrow> ('k, unit) act" where
  "ensure_veth kn root_veth ns_dev =
     bnd (k_device_exists kn ns_dev) (\<lambda>there.
       if there then ret ()
       else
         bnd (k_device_exists kn (None, root_veth)) (\<lambda>stale.
           andthen (doif stale (k_link_delete kn root_veth)) (k_add_veth kn root_veth ns_dev)))"

definition provision :: "(string list \<Rightarrow> string list) \<Rightarrow> ovn_const \<Rightarrow> 'k kernel \<Rightarrow> string \<Rightarrow> pb_row \<Rightarrow> ('k, string option) act" where
  "provision set_order oc kn ovn_bridge row =
     (case split1_snd (device_id oc row) DEVICE_ID_MARKER of
        None \<Rightarrow> ret None
      | Some network_id \<Rightarrow>
          (case parse_port_binding oc row of
             (mac, ipv4_cidrs, logical_port, mtu) \<Rightarrow>
               if \<not> truthy_str mac then ret None
               else if ipv4_cidrs = [] then ret None
               else
                 (let ns = netns_name network_id;
                      root_veth = fst (veth_names network_id);
                      root_dev = (None, root_veth);
                      ns_dev = (Some ns, snd (veth_names network_id))
                  in andthen (ensure_veth kn root_veth ns_dev)
                     (andthen (k_set_address kn ns_dev (the mac))
                     (andthen (doif (mtu \<noteq> 0) (andthen (k_set_mtu kn root_dev mtu) (k_set_mtu kn ns_dev mtu)))
                     (andthen (k_set_up kn root_dev)
                     (andthen (k_set_up kn ns_dev)
                     (bnd (diff_addrs set_order kn is_on_subnet_cidr ns_dev ipv4_cidrs) (\<lambda>_.
                        andthen (k_ovs_add_port kn ovn_bridge root_veth)
                          (andthen (k_ovs_set_iface_id kn root_veth logical_port)
                             (ret (Some ns)))))))))))) "

definition reconcile_vips :: "(string list \<Rightarrow> string list) \<Rightarrow> 'k kernel \<Rightarrow> string \<Rightarrow> string list \<Rightarrow>
    ('k, string list \<times> string list) act" where
  "reconcile_vips set_order kn network_id desired_vips =
     (let ns = netns_name network_id;
          ns_dev = (Some ns, snd (veth_names network_id))
      in bnd (k_ns_exists kn ns) (\<lambda>there.
           if \<not> there then ret ([], [])
           else
             bnd (k_device_exists kn ns_dev) (\<lambda>dev.
               if \<not> dev then ret ([], [])
               else diff_addrs set_order kn is_vip_cidr ns_dev desired_vips)))"

text \<open>The two branches of the source differ in the log line, the last call and the result.\<close>

definition teardown :: "'k kernel \<Rightarrow> string \<Rightarrow> ('k, bool) act" where
  "teardown kn network_id =
     (let ns = netns_name network_id;
          root_veth = fst (veth_names network_id)
      in bnd (k_ns_exists kn ns) (\<lambda>there.
         andthen (k_ovs_del_port kn root_veth)
         (bnd (k_device_exists kn (None, root_veth)) (\<lambda>dev.
         andthen (doif dev (k_del_veth kn root_veth))
         (if there then andthen (k_gc_ns kn ns) (ret True) else ret False)))))"

text \<open>The provisioning loop of \<open>sync\<close>; the result is the set of networks provisioned.\<close>

fun sync_rows :: "(string list \<Rightarrow> string list) \<Rightarrow> ovn_const \<Rightarrow> 'k kernel \<Rightarrow> string \<Rightarrow> pb_row list \<Rightarrow> string list \<Rightarrow>
    ('k, string list) act" where
  "sync_rows set_order oc kn ovn_bridge [] desired = ret desired"
| "sync_rows set_order oc kn ovn_bridge (row # rows) desired =
     (if \<not> is_our_localport oc row then sync_rows set_order oc kn ovn_bridge rows desired
      else
        bnd (attempt (provision set_order oc kn ovn_bridge row) (\<lambda>_. ret None)) (\<lambda>ns.
          sync_rows set_order oc kn ovn_bridge rows
            (if truthy_str ns then the (split1_snd (device_id oc row) DEVICE_ID_MARKER) # desired else desired)))"

definition collect_orphan :: "'k kernel \<Rightarrow> string list \<Rightarrow> string \<Rightarrow> ('k, unit) act" where
  "collect_orphan kn desired ns =
     (if \<not> startswith ns NETNS_PREFIX then ret ()
      else
        (let net_id = drop (length NETNS_PREFIX) ns
         in if net_id \<notin> set desired then swallow (bnd (teardown kn net_id) (\<lambda>_. ret ())) else ret ()))"

definition sync :: "(string list \<Rightarrow> string list) \<Rightarrow> ovn_const \<Rightarrow> 'k kernel \<Rightarrow> string \<Rightarrow> ('k, pb_row list) act \<Rightarrow> ('k, unit) act" where
  "sync set_order oc kn ovn_bridge port_bindings =
     bnd port_bindings (\<lambda>rows.
     bnd (sync_rows set_order oc kn ovn_bridge rows []) (\<lambda>desired.
     bnd (k_list_ns kn) (\<lambda>nss.
       each (collect_orphan kn desired) nss)))"

section \<open>Two owners of one device\<close>

lemma diff_addrs_run:
  assumes kn: "addr_ok kn addrs" and so: "set_order_ok set_order"
    and run: "diff_addrs set_order kn mine dev wanted k = (Inr (added, removed), k')"
  shows "addrs k' = (addrs k)(dev := {c \<in> addrs k dev. \<not> mine c} \<union> {c \<in> set wanted. mine c})"
    and "set added = {c \<in> set wanted. mine c} - addrs k dev"
    and "set removed = {c \<in> addrs k dev. mine c} - set wanted"
proof -
  obtain listed k1 where l: "k_addr_list kn dev k = (Inr listed, k1)"
    using run by (auto simp: diff_addrs_def elim!: bnd_cases)
  note l = l[unfolded addr_list_ok(1)[OF kn l]] addr_list_ok(2)[OF kn l]
  define to_add where "to_add = set_order (filter (\<lambda>c. c \<notin> set (filter mine listed)) (filter mine wanted))"
  define to_del where "to_del = set_order (filter (\<lambda>c. c \<notin> set (filter mine wanted)) (filter mine listed))"
  have ad: "set to_add = {c \<in> set wanted. mine c} - addrs k dev" "set to_del = {c \<in> addrs k dev. mine c} - set wanted"
    using so l(2) by (auto simp: to_add_def to_del_def set_order_set)
  have "andthen (doif (to_del \<noteq> []) (k_addr_delete_multiple kn dev to_del))
      (andthen (doif (to_add \<noteq> []) (k_addr_add_multiple kn dev to_add)) (ret (to_add, to_del))) k = (Inr (added, removed), k')"
    using run l(1) by (simp add: diff_addrs_def to_add_def to_del_def Let_def)
  then obtain k2 where k2: "doif (to_del \<noteq> []) (k_addr_delete_multiple kn dev to_del) k = (Inr (), k2)"
      "doif (to_add \<noteq> []) (k_addr_add_multiple kn dev to_add) k2 = (Inr (), k')" and res: "added = to_add" "removed = to_del"
    by (auto elim!: andthen_cases)
  have "addrs k2 = (addrs k)(dev := addrs k dev - set to_del)"
    using k2(1) addr_change_ok(2)[OF kn] by (cases "to_del = []") (auto simp: doif_def)
  moreover have "addrs k' = (addrs k2)(dev := addrs k2 dev \<union> set to_add)"
    using k2(2) addr_change_ok(1)[OF kn] by (cases "to_add = []") (auto simp: doif_def)
  moreover have "(addrs k dev - set to_del) \<union> set to_add = {c \<in> addrs k dev. \<not> mine c} \<union> {c \<in> set wanted. mine c}"
    using ad by blast
  ultimately show "addrs k' = (addrs k)(dev := {c \<in> addrs k dev. \<not> mine c} \<union> {c \<in> set wanted. mine c})"
    by simp
  show "set added = {c \<in> set wanted. mine c} - addrs k dev" "set removed = {c \<in> addrs k dev. mine c} - set wanted"
    using res ad by simp_all
qed

text \<open>
  An owner of the addresses that are \<open>mine\<close>, beside an owner of the \<open>other\<close> ones: its diff makes
  its own part exact and leaves the other part alone, so neither ever undoes the other.
\<close>

locale address_owner =
  fixes mine :: "string \<Rightarrow> bool" and other :: "string \<Rightarrow> bool"
  assumes apart: "mine c \<Longrightarrow> \<not> other c"
begin

lemma owner_exact:
  assumes "addr_ok kn addrs" "set_order_ok set_order"
    and "diff_addrs set_order kn mine dev wanted k = (Inr r, k')"
  shows "{c \<in> addrs k' dev. mine c} = {c \<in> set wanted. mine c}"
    and "{c \<in> addrs k' dev. other c} = {c \<in> addrs k dev. other c}"
    and "dev' \<noteq> dev \<Longrightarrow> addrs k' dev' = addrs k dev'"
  using diff_addrs_run(1)[OF assms(1,2), of mine dev wanted k "fst r" "snd r" k'] assms(3) apart by auto

text \<open>Running it again with the same wishes finds nothing to do and makes no call that changes anything.\<close>

lemma owner_settled:
  assumes kn: "addr_ok kn addrs" and so: "set_order_ok set_order"
    and l: "\<exists>cs. k_addr_list kn dev k = (Inr cs, k)" and e: "{c \<in> addrs k dev. mine c} = {c \<in> set wanted. mine c}"
  shows "diff_addrs set_order kn mine dev wanted k = (Inr ([], []), k)"
proof -
  obtain cs where cs: "k_addr_list kn dev k = (Inr cs, k)" using l by blast
  have "set cs = addrs k dev" using addr_list_ok(2)[OF kn cs] .
  then have "filter (\<lambda>c. c \<notin> set (filter mine cs)) (filter mine wanted) = []"
      "filter (\<lambda>c. c \<notin> set (filter mine wanted)) (filter mine cs) = []"
    using e by (auto simp: filter_empty_conv)
  moreover have "set_order [] = []" using set_order_Nil[OF so] by blast
  ultimately show ?thesis by (simp only: diff_addrs_def bnd_Inr[where m = "k_addr_list kn dev", OF cs] Let_def) (simp add: doif_def andthen_def bnd_def)
qed

end

lemma vip_not_on_subnet: "is_vip_cidr c \<Longrightarrow> \<not> is_on_subnet_cidr c"
proof -
  assume "is_vip_cidr c"
  then obtain t where t: "c = t @ ''/32''" by (auto simp: is_vip_cidr_def endswith_iff split: if_splits)
  have "after_last (CHR ''/'') c = ''32''"
    using after_last_append[of "CHR ''/''" "''32''" t] by (simp add: t)
  then show ?thesis by (simp add: is_on_subnet_cidr_def py_int_32)
qed

interpretation subnet_owner: address_owner is_on_subnet_cidr is_vip_cidr
  by unfold_locales (use vip_not_on_subnet in blast)

interpretation vip_owner: address_owner is_vip_cidr is_on_subnet_cidr
  by unfold_locales (rule vip_not_on_subnet)

section \<open>Provisioning\<close>

text \<open>
  A call that provisioned a namespace whose inner veth end existed: up to the address diff, and
  after it, no address changed.
\<close>

lemma provision_diff:
  assumes fr: "addr_frame kn addrs" and run: "provision set_order oc kn br row k = (Inr (Some ns), k')"
    and id: "split1_snd (device_id oc row) DEVICE_ID_MARKER = Some n"
    and row: "parse_port_binding oc row = (mac, cidrs, lport, mtu)"
    and dev: "k_device_exists kn (Some (netns_name n), snd (veth_names n)) k = (Inr True, k0)"
  obtains k1 k2 r where "addrs k1 = addrs k" "addrs k' = addrs k2" "ns = netns_name n"
    "diff_addrs set_order kn is_on_subnet_cidr (Some (netns_name n), snd (veth_names n)) cidrs k1 = (Inr r, k2)"
proof -
  let ?dev = "(Some (netns_name n), snd (veth_names n))" and ?root = "fst (veth_names n)"
  let ?pre = "andthen (k_set_address kn ?dev (the mac))
      (andthen (doif (mtu \<noteq> 0) (andthen (k_set_mtu kn (None, ?root) mtu) (k_set_mtu kn ?dev mtu)))
      (andthen (k_set_up kn (None, ?root)) (k_set_up kn ?dev)))"
  let ?post = "andthen (k_ovs_add_port kn br ?root) (andthen (k_ovs_set_iface_id kn ?root lport) (ret (Some (netns_name n))))"
  have pre: "keeps addrs ?pre" and post: "keeps addrs ?post"
    using fr by (auto simp: addr_frame_def intro!: keeps_intros)
  have assoc: "andthen (andthen a b) c = andthen a (andthen b c)" for a b :: "('k, unit) act" and c :: "('k, 'x) act"
    by (rule ext) (auto simp: andthen_def bnd_def split: prod.split sum.split)
  have ne: "truthy_str mac" "cidrs \<noteq> []"
    using run id row by (auto simp: provision_def split: if_splits)
  have "ensure_veth kn ?root ?dev k = (Inr (), k0)" using dev by (simp add: ensure_veth_def)
  then have "andthen ?pre (bnd (diff_addrs set_order kn is_on_subnet_cidr ?dev cidrs) (\<lambda>_. ?post)) k0 = (Inr (Some ns), k')"
    using run ne by (simp add: provision_def id row Let_def assoc)
  then obtain k1 r k2 where k1: "?pre k0 = (Inr (), k1)" "diff_addrs set_order kn is_on_subnet_cidr ?dev cidrs k1 = (Inr r, k2)"
      "?post k2 = (Inr (Some ns), k')"
    by (cases rule: andthen_cases) (auto elim!: bnd_cases)
  have "addrs k0 = addrs k" using fr dev by (auto simp: addr_frame_def intro: keepsD)
  then have "addrs k1 = addrs k" "addrs k' = addrs k2" using keepsD[OF pre k1(1)] keepsD[OF post k1(3)] by simp_all
  moreover have "ns = netns_name n" using k1(3) by (auto elim!: andthen_cases)
  ultimately show ?thesis using that k1(2) by blast
qed

section \<open>Properties\<close>

text \<open>
  Reconciling VIPs is exact and stays in its lane: on a namespace whose veth exists, a call
  that returns leaves exactly the wanted /32 addresses, touches no on-subnet address and no other
  device, and reports what it added and removed.
\<close>

theorem reconcile_vips_exact:
  assumes "addr_ok kn addrs" and "addr_frame kn addrs" and "set_order_ok set_order"
    and "dev = (Some (netns_name n), snd (veth_names n))"
    and "k_ns_exists kn (netns_name n) k = (Inr True, k1)" and "k_device_exists kn dev k1 = (Inr True, k2)"
    and "reconcile_vips set_order kn n wanted k = (Inr (added, removed), k')"
  shows "{c \<in> addrs k' dev. is_vip_cidr c} = {c \<in> set wanted. is_vip_cidr c}
    \<and> {c \<in> addrs k' dev. is_on_subnet_cidr c} = {c \<in> addrs k dev. is_on_subnet_cidr c}
    \<and> (\<forall>d. d \<noteq> dev \<longrightarrow> addrs k' d = addrs k d)
    \<and> set added = {c \<in> set wanted. is_vip_cidr c} - addrs k dev
    \<and> set removed = {c \<in> addrs k dev. is_vip_cidr c} - set wanted"
proof -
  have diff: "diff_addrs set_order kn is_vip_cidr dev wanted k2 = (Inr (added, removed), k')"
    using assms(4-7) by (simp add: reconcile_vips_def Let_def)
  have "addrs k2 = addrs k"
    using assms(2,5,6) unfolding addr_frame_def by (metis keepsD)
  then show ?thesis
    using vip_owner.owner_exact[OF assms(1,3) diff] diff_addrs_run(2,3)[OF assms(1,3) diff] by simp
qed

text \<open>
  Provisioning again spares the VIPs: on a namespace whose veth exists, a call that returns
  leaves exactly the on-subnet addresses of the row and does not touch a /32 address, so the two
  reconcilers never undo each other's work.
\<close>

theorem provision_spares_vips:
  assumes "addr_ok kn addrs" and "addr_frame kn addrs" and "set_order_ok set_order"
    and "split1_snd (device_id oc row) DEVICE_ID_MARKER = Some n"
    and "parse_port_binding oc row = (mac, cidrs, lport, mtu)"
    and "dev = (Some (netns_name n), snd (veth_names n))" and "k_device_exists kn dev k = (Inr True, k0)"
    and "provision set_order oc kn br row k = (Inr (Some ns), k')"
  shows "ns = netns_name n
    \<and> {c \<in> addrs k' dev. is_on_subnet_cidr c} = {c \<in> set cidrs. is_on_subnet_cidr c}
    \<and> {c \<in> addrs k' dev. is_vip_cidr c} = {c \<in> addrs k dev. is_vip_cidr c}
    \<and> (\<forall>d. d \<noteq> dev \<longrightarrow> addrs k' d = addrs k d)"
proof -
  obtain k1 k2 r where d: "addrs k1 = addrs k" "addrs k' = addrs k2" "ns = netns_name n"
      "diff_addrs set_order kn is_on_subnet_cidr dev cidrs k1 = (Inr r, k2)"
    using provision_diff[OF assms(2,8,4,5) assms(7)[unfolded assms(6)]] assms(6) by metis
  from subnet_owner.owner_exact[OF assms(1,3) d(4)] d(1-3) show ?thesis by simp
qed

text \<open>The network of a row of ours, and the namespaces of the agent whose network is not in a list.\<close>

definition row_network :: "ovn_const \<Rightarrow> pb_row \<Rightarrow> string" where
  "row_network oc row = the (split1_snd (device_id oc row) DEVICE_ID_MARKER)"

definition orphans :: "string list \<Rightarrow> string list \<Rightarrow> string list" where
  "orphans desired nss =
     map (drop (length NETNS_PREFIX)) (filter (\<lambda>ns. startswith ns NETNS_PREFIX \<and> drop (length NETNS_PREFIX) ns \<notin> set desired) nss)"

lemma netns_orphan: "netns_name n \<in> set nss \<Longrightarrow> n \<notin> set desired \<Longrightarrow> n \<in> set (orphans desired nss)"
  by (force simp: orphans_def netns_name_def image_iff)

lemma orphans_not_desired: "m \<in> set desired \<Longrightarrow> m \<notin> set (orphans desired nss)"
  by (auto simp: orphans_def)

text \<open>Collecting the orphans tears each of them down in turn, whatever a teardown raises.\<close>

lemma collect_orphan_run:
  "collect_orphan kn desired ns k =
     (Inr (), if startswith ns NETNS_PREFIX \<and> drop (length NETNS_PREFIX) ns \<notin> set desired
              then snd (teardown kn (drop (length NETNS_PREFIX) ns) k) else k)"
  by (cases "teardown kn (drop (length NETNS_PREFIX) ns) k"; cases "fst (teardown kn (drop (length NETNS_PREFIX) ns) k)")
    (simp_all add: collect_orphan_def swallow_run bnd_def Let_def)

lemma collect_orphans_run:
  "each (collect_orphan kn desired) nss k = (Inr (), fold (\<lambda>m k. snd (teardown kn m k)) (orphans desired nss) k)"
  by (induction nss arbitrary: k) (simp_all add: collect_orphan_run orphans_def andthen_def bnd_def)

text \<open>The provisioning loop returns, and what it adds are networks of our rows.\<close>

lemma sync_rows_returns: "\<exists>D k'. sync_rows set_order oc kn br rows desired k = (Inr D, k')"
proof (induction rows arbitrary: desired k)
  case (Cons row rows)
  obtain x k1 where "provision set_order oc kn br row k = (x, k1)" by fastforce
  then show ?case using Cons.IH by (cases x) (simp_all add: bnd_def attempt_def)
qed simp

lemma sync_rows_networks:
  assumes "sync_rows set_order oc kn br rows desired k = (Inr D, k')"
  shows "set D \<subseteq> set desired \<union> row_network oc ` {row \<in> set rows. is_our_localport oc row}"
  using assms
proof (induction rows arbitrary: desired k)
  case (Cons row rows)
  show ?case
  proof (cases "is_our_localport oc row")
    case True
    obtain x k1 where "provision set_order oc kn br row k = (x, k1)" by fastforce
    then obtain desired' k2 where step: "sync_rows set_order oc kn br rows desired' k2 = (Inr D, k')"
        "set desired' \<subseteq> insert (row_network oc row) (set desired)"
      using Cons.prems True by (cases x) (auto simp: bnd_def attempt_def row_network_def split: if_splits)
    show ?thesis using Cons.IH[OF step(1)] step(2) True by fastforce
  qed (use Cons in \<open>force simp:\<close>)
qed simp

lemma sync_rows_split:
  assumes "sync_rows set_order oc kn br before desired k = (Inr D1, k1)" "is_our_localport oc row"
    "provision set_order oc kn br row k1 = (Inl e, k2)" "sync_rows set_order oc kn br after D1 k2 = (Inr D, k3)"
  shows "sync_rows set_order oc kn br (before @ row # after) desired k = (Inr D, k3)"
  using assms(1)
proof (induction before arbitrary: desired k)
  case (Cons b before)
  obtain x k' where "provision set_order oc kn br b k = (x, k')" by fastforce
  then show ?case using Cons by (cases x) (auto simp: bnd_def attempt_def split: if_splits)
qed (use assms(2-4) in \<open>simp add: bnd_def attempt_def\<close>)

text \<open>
  C18. The sync at start-up trusts only what it provisioned. Among any rows, when the provisioning of a row of ours raises
  (in the state the rows before it have led to) and no other row of ours is of its network, that network is not among the
  desired ones, although its localport row is there: its namespace, if the host has it, is torn down with the other
  orphans. Precisely: the sync returns, and after the provisioning it tears down, one after the other and whatever a
  teardown raises, the namespaces of the agent whose network is not desired.
\<close>

theorem sync_drops_failed_network:
  assumes rows: "rows k = (Inr (before @ row # after), k0)"
    and ours: "is_our_localport oc row" "row_network oc row = n"
    and others: "\<And>r. r \<in> set (before @ after) \<Longrightarrow> is_our_localport oc r \<Longrightarrow> row_network oc r \<noteq> n"
    and before: "sync_rows set_order oc kn br before [] k0 = (Inr D1, k1)"
    and fails: "provision set_order oc kn br row k1 = (Inl e, k2)"
    and after: "sync_rows set_order oc kn br after D1 k2 = (Inr D, k3)"
    and listed: "k_list_ns kn k3 = (Inr nss, k4)"
  shows "sync set_order oc kn br rows k = (Inr (), fold (\<lambda>m k. snd (teardown kn m k)) (orphans D nss) k4)
    \<and> n \<notin> set D \<and> (netns_name n \<in> set nss \<longrightarrow> n \<in> set (orphans D nss))
    \<and> (\<forall>m \<in> set D. m \<notin> set (orphans D nss))"
proof -
  have "set D \<subseteq> row_network oc ` {r \<in> set (before @ after). is_our_localport oc r}"
    using sync_rows_networks[OF before] sync_rows_networks[OF after] by auto
  then have n: "n \<notin> set D" using others by auto
  have "sync_rows set_order oc kn br (before @ row # after) [] k0 = (Inr D, k3)"
    by (rule sync_rows_split[OF before ours(1) fails after])
  then have "sync set_order oc kn br rows k = (Inr (), fold (\<lambda>m k. snd (teardown kn m k)) (orphans D nss) k4)"
    using rows listed by (simp add: sync_def collect_orphans_run)
  then show ?thesis using n netns_orphan[of n nss D] orphans_not_desired by blast
qed

subsection \<open>Witnesses\<close>

definition demo_dev :: device where
  "demo_dev = (Some (netns_name ''n1''), snd (veth_names ''n1''))"

definition demo_k :: mem_kernel where
  "demo_k = \<lparr>mk_addrs = (\<lambda>d. if d = demo_dev then [''10.0.0.2/24'', ''169.254.1.9/32''] else []), mk_trail = []\<rparr>"

lemma remdups_ok: "set_order_ok remdups"
  by (simp add: set_order_ok_def)

lemma demo_kinds: "is_vip_cidr ''169.254.1.53/32''" "is_vip_cidr ''169.254.1.9/32''" "\<not> is_vip_cidr ''10.0.0.2/24''"
  "is_on_subnet_cidr ''10.0.0.2/24''" "\<not> is_on_subnet_cidr ''169.254.1.9/32''"
  by (simp_all add: is_vip_cidr_def is_ipv4_def endswith_def startswith_def is_on_subnet_cidr_def after_last_def
      py_int_def strip_def is_space_def parse_digits_def contains_def is_digit_def digit_val_def)

theorem reconcile_vips_exact_witness:
  "\<exists>k'. reconcile_vips remdups (mem_kn [netns_name ''n1'']) ''n1'' [''169.254.1.53/32''] demo_k
      = (Inr ([''169.254.1.53/32''], [''169.254.1.9/32'']), k')
     \<and> {c \<in> mem_addrs k' demo_dev. is_vip_cidr c} = {''169.254.1.53/32''}
     \<and> {c \<in> mem_addrs k' demo_dev. is_on_subnet_cidr c} = {''10.0.0.2/24''}"
proof -
  have cur: "k_addr_list (mem_kn [netns_name ''n1'']) demo_dev demo_k = (Inr [''10.0.0.2/24'', ''169.254.1.9/32''], demo_k)"
    by (simp add: demo_k_def)
  have f: "filter is_vip_cidr [''10.0.0.2/24'', ''169.254.1.9/32''] = [''169.254.1.9/32'']"
      "filter is_vip_cidr [''169.254.1.53/32''] = [''169.254.1.53/32'']"
    by (simp_all add: demo_kinds)
  have eq: "reconcile_vips remdups (mem_kn [netns_name ''n1'']) ''n1'' [''169.254.1.53/32''] demo_k
      = diff_addrs remdups (mem_kn [netns_name ''n1'']) is_vip_cidr demo_dev [''169.254.1.53/32''] demo_k"
    by (simp add: reconcile_vips_def Let_def demo_dev_def)
  have "\<exists>k'. diff_addrs remdups (mem_kn [netns_name ''n1'']) is_vip_cidr demo_dev [''169.254.1.53/32''] demo_k
      = (Inr ([''169.254.1.53/32''], [''169.254.1.9/32'']), k')"
    unfolding diff_addrs_def bnd_Inr[where m = "k_addr_list (mem_kn [netns_name ''n1'']) demo_dev", OF cur] Let_def f
    by (simp add: doif_def)
  then obtain k' where run: "reconcile_vips remdups (mem_kn [netns_name ''n1'']) ''n1'' [''169.254.1.53/32''] demo_k
      = (Inr ([''169.254.1.53/32''], [''169.254.1.9/32'']), k')" unfolding eq by (rule exE)
  have "k_ns_exists (mem_kn [netns_name ''n1'']) (netns_name ''n1'') demo_k = (Inr True, demo_k)"
      "k_device_exists (mem_kn [netns_name ''n1'']) demo_dev demo_k = (Inr True, demo_k)" by simp_all
  note ex = reconcile_vips_exact[OF mem_kn_ok remdups_ok demo_dev_def this run]
  have "mem_addrs demo_k demo_dev = {''10.0.0.2/24'', ''169.254.1.9/32''}" by (simp add: mem_addrs_def demo_k_def)
  then have s: "{c \<in> mem_addrs demo_k demo_dev. is_on_subnet_cidr c} = {''10.0.0.2/24''}" using demo_kinds by auto
  have v: "{c \<in> set [''169.254.1.53/32'']. is_vip_cidr c} = {''169.254.1.53/32''}" using demo_kinds by auto
  show ?thesis
    by (intro exI[of _ k'] conjI run trans[OF ex[THEN conjunct1] v] trans[OF ex[THEN conjunct2, THEN conjunct1] s])
qed

definition demo_netns_oc :: ovn_const where
  "demo_netns_oc = \<lparr>OVN_DEVID_EXT_ID_KEY = ''id'', OVN_CIDRS_EXT_ID_KEY = ''cidrs'', OVN_NETWORK_MTU_EXT_ID_KEY = ''mtu'',
     OVN_LB_HM_PORT_DISTRIBUTED = ''hm'', LSP_TYPE_LOCALPORT = ''localport''\<rparr>"

definition demo_pb :: pb_row where
  "demo_pb = \<lparr>pb_type = Some ''localport'', pb_external_ids = [''id'' \<mapsto> device_id_for ''n1'', ''cidrs'' \<mapsto> ''10.0.0.3/24''],
     pb_logical_port = ''lp1'', pb_mac = Some ''fa:16''\<rparr>"

lemma demo_pb_id: "device_id demo_netns_oc demo_pb = device_id_for ''n1''"
  "split1_snd (device_id demo_netns_oc demo_pb) DEVICE_ID_MARKER = Some ''n1''" "is_our_localport demo_netns_oc demo_pb"
proof -
  show d: "device_id demo_netns_oc demo_pb = device_id_for ''n1''"
    by (simp add: device_id_def demo_pb_def demo_netns_oc_def)
  show "split1_snd (device_id demo_netns_oc demo_pb) DEVICE_ID_MARKER = Some ''n1''"
    by (simp add: d split1_snd_def device_id_for_split)
  show "is_our_localport demo_netns_oc demo_pb"
    using contains_device_id_for(2)[of "''n1''"] by (simp add: is_our_localport_def d) (simp add: demo_pb_def demo_netns_oc_def)
qed

lemma demo_pb_parsed: "parse_port_binding demo_netns_oc demo_pb = (Some ''fa:16'', [''10.0.0.3/24''], ''lp1'', 0)"
proof -
  have "py_int ''0'' = Some 0"
    by (simp add: py_int_def strip_def is_space_def parse_digits_def contains_def startswith_def is_digit_def digit_val_def)
  then show ?thesis by (simp add: parse_port_binding_def demo_pb_def demo_netns_oc_def or_str_def)
qed

lemma demo_provisioned:
  "\<exists>k'. provision remdups demo_netns_oc (mem_kn []) ''br-int'' demo_pb demo_k = (Inr (Some (netns_name ''n1'')), k')"
proof -
  have d: "\<exists>r k'. diff_addrs remdups (mem_kn []) is_on_subnet_cidr dev cs k = (Inr r, k')" for dev cs k
    by (simp add: diff_addrs_def Let_def doif_def)
  have "returns (provision remdups demo_netns_oc (mem_kn []) ''br-int'' demo_pb) (Some (netns_name ''n1''))"
    unfolding provision_def demo_pb_id(2) demo_pb_parsed option.case prod.case Let_def
    by (simp, intro returns_andthen returns_bnd d) (simp_all add: returns_def ensure_veth_def doif_def)
  then show ?thesis by (simp add: returns_def)
qed

theorem provision_spares_vips_witness:
  "\<exists>k'. provision remdups demo_netns_oc (mem_kn []) ''br-int'' demo_pb demo_k = (Inr (Some (netns_name ''n1'')), k')
     \<and> {c \<in> mem_addrs k' demo_dev. is_vip_cidr c} = {c \<in> mem_addrs demo_k demo_dev. is_vip_cidr c}"
proof -
  obtain k' where run: "provision remdups demo_netns_oc (mem_kn []) ''br-int'' demo_pb demo_k = (Inr (Some (netns_name ''n1'')), k')"
    using demo_provisioned by blast
  have "k_device_exists (mem_kn []) demo_dev demo_k = (Inr True, demo_k)" by simp
  note ex = provision_spares_vips[OF mem_kn_ok remdups_ok demo_pb_id(2) demo_pb_parsed demo_dev_def this run]
  show ?thesis by (intro exI[of _ k'] conjI run ex[THEN conjunct2, THEN conjunct2, THEN conjunct1])
qed

text \<open>
  In the last witness there are two rows. The kernel refuses to set the MAC of the inner veth end of the second network, whose
  namespace exists, with that of the first: only the second is torn down.
\<close>

definition bad_kn :: "mem_kernel kernel" where
  "bad_kn = (mem_kn [netns_name ''n2'', netns_name ''n1''])
     \<lparr>k_set_address := (\<lambda>d m. if fst d = Some (netns_name ''n1'') then raise (OSError ''ENODEV'') else ret ())\<rparr>"

definition demo_pb2 :: pb_row where
  "demo_pb2 = demo_pb\<lparr>pb_external_ids := [''id'' \<mapsto> device_id_for ''n2'', ''cidrs'' \<mapsto> ''10.0.0.3/24'']\<rparr>"

lemma demo_pb2_id: "split1_snd (device_id demo_netns_oc demo_pb2) DEVICE_ID_MARKER = Some ''n2''" "is_our_localport demo_netns_oc demo_pb2"
  "parse_port_binding demo_netns_oc demo_pb2 = (Some ''fa:16'', [''10.0.0.3/24''], ''lp1'', 0)"
proof -
  have d: "device_id demo_netns_oc demo_pb2 = device_id_for ''n2''"
    by (simp add: device_id_def demo_pb2_def demo_pb_def demo_netns_oc_def)
  show "split1_snd (device_id demo_netns_oc demo_pb2) DEVICE_ID_MARKER = Some ''n2''"
    by (simp add: d split1_snd_def device_id_for_split)
  show "is_our_localport demo_netns_oc demo_pb2"
    using contains_device_id_for(2)[of "''n2''"] by (simp add: is_our_localport_def d) (simp add: demo_pb2_def demo_pb_def demo_netns_oc_def)
  show "parse_port_binding demo_netns_oc demo_pb2 = (Some ''fa:16'', [''10.0.0.3/24''], ''lp1'', 0)"
    using demo_pb_parsed by (simp add: parse_port_binding_def demo_pb2_def demo_pb_def demo_netns_oc_def)
qed

lemma other_provisioned:
  "\<exists>k'. provision remdups demo_netns_oc bad_kn ''br-int'' demo_pb2 k = (Inr (Some (netns_name ''n2'')), k')"
proof -
  have d: "\<exists>r k'. diff_addrs remdups bad_kn is_on_subnet_cidr dev cs k = (Inr r, k')" for dev cs k
    by (simp add: diff_addrs_def Let_def doif_def bad_kn_def)
  have "returns (provision remdups demo_netns_oc bad_kn ''br-int'' demo_pb2) (Some (netns_name ''n2''))"
    unfolding provision_def demo_pb2_id(1,3) option.case prod.case Let_def
    by (simp, intro returns_andthen returns_bnd d) (simp_all add: returns_def ensure_veth_def doif_def bad_kn_def netns_name_def)
  then show ?thesis by (simp add: returns_def)
qed

theorem sync_drops_failed_network_witness:
  "\<exists>k'. sync remdups demo_netns_oc bad_kn ''br-int'' (ret [demo_pb2, demo_pb]) demo_k = (Inr (), snd (teardown bad_kn ''n1'' k'))"
proof -
  obtain k1 where k1: "provision remdups demo_netns_oc bad_kn ''br-int'' demo_pb2 demo_k = (Inr (Some (netns_name ''n2'')), k1)"
    using other_provisioned by blast
  have rows: "ret [demo_pb2, demo_pb] demo_k = (Inr ([demo_pb2] @ demo_pb # []), demo_k)" by simp
  have nets: "row_network demo_netns_oc demo_pb = ''n1''" "row_network demo_netns_oc demo_pb2 = ''n2''"
    by (simp_all add: row_network_def demo_pb_id(2) demo_pb2_id(1))
  have before: "sync_rows remdups demo_netns_oc bad_kn ''br-int'' [demo_pb2] [] demo_k = (Inr [''n2''], k1)"
    using k1 by (simp add: demo_pb2_id(1,2) bnd_def attempt_def netns_name_def)
  have fails: "provision remdups demo_netns_oc bad_kn ''br-int'' demo_pb k1 = (Inl (OSError ''ENODEV''), k1)"
    unfolding provision_def demo_pb_id(2) demo_pb_parsed option.case prod.case Let_def
    by (simp add: ensure_veth_def bad_kn_def)
  have after: "sync_rows remdups demo_netns_oc bad_kn ''br-int'' [] [''n2''] k1 = (Inr [''n2''], k1)" by simp
  have listed: "k_list_ns bad_kn k1 = (Inr [netns_name ''n2'', netns_name ''n1''], k1)" by (simp add: bad_kn_def)
  have others: "row_network demo_netns_oc r \<noteq> ''n1''" if "r \<in> set ([demo_pb2] @ [])" for r
    using that nets(2) by simp
  have "orphans [''n2''] [netns_name ''n2'', netns_name ''n1''] = [''n1'']"
    by (simp add: orphans_def netns_name_def)
  with sync_drops_failed_network[where rows = "ret [demo_pb2, demo_pb]", OF rows demo_pb_id(3) nets(1) others before fails after listed]
  show ?thesis by auto
qed

end
