(* ===== verification/Firewall.thy ===== *)
theory Firewall
  imports Kernel Ipaddress
begin

text \<open>
  The packet filter the agent programs. Iptables is not part of the repository; this theory
  states the documented behaviour of the invocations the agent makes, as the effect of the
  arguments on a rule set (\<open>ipt_run\<close>), and what a rule set does to a packet for the matches the agent
  writes (\<open>walk\<close>). \<open>iptables_ok\<close> says that executing a command has that effect; it is a hypothesis
  of the theorems on the agent's code. Only the rule set is described: counters and
  concurrent invocations are not.
\<close>

section \<open>Rule sets\<close>

type_synonym rule = "string list"
type_synonym ruleset = "((string \<times> string) \<times> rule list) list"

definition chain_rules :: "ruleset \<Rightarrow> string \<Rightarrow> string \<Rightarrow> rule list option" where
  "chain_rules T table chain = map_of T (table, chain)"

definition set_chain :: "ruleset \<Rightarrow> string \<Rightarrow> string \<Rightarrow> rule list \<Rightarrow> ruleset" where
  "set_chain T table chain rs = map (\<lambda>(k, v). (k, if k = (table, chain) then rs else v)) T"

definition jump_of :: "rule \<Rightarrow> string option" where
  "jump_of r = (case rev r of t # j # _ \<Rightarrow> if j = ''-j'' then Some t else None | _ \<Rightarrow> None)"

definition referenced :: "ruleset \<Rightarrow> string \<Rightarrow> string \<Rightarrow> bool" where
  "referenced T table chain = list_ex (\<lambda>(k, rs). fst k = table \<and> list_ex (\<lambda>r. jump_of r = Some chain) rs) T"

text \<open>
  The arguments after \<^verbatim>\<open>iptables -t TABLE\<close>; \<open>None\<close> is a failing exit status, which leaves the rule set
  alone. \<open>valid\<close> is whether iptables accepts a rule specification.
\<close>

definition ipt_run :: "(rule \<Rightarrow> bool) \<Rightarrow> string \<Rightarrow> string list \<Rightarrow> ruleset \<Rightarrow> ruleset option" where
  "ipt_run valid table args T =
     (case args of
        [] \<Rightarrow> None
      | oper # rest \<Rightarrow>
          if oper = ''-n'' then
            (case rest of [l, chain] \<Rightarrow> if chain_rules T table chain \<noteq> None then Some T else None | _ \<Rightarrow> None)
          else
            (case rest of
               [] \<Rightarrow> None
             | chain # r \<Rightarrow>
                 if oper = ''-N'' then
                   (if chain_rules T table chain = None then Some (T @ [((table, chain), [])]) else None)
                 else
                   (case chain_rules T table chain of
                      None \<Rightarrow> None
                    | Some rs \<Rightarrow>
                        if oper = ''-C'' then (if r \<in> set rs then Some T else None)
                        else if oper = ''-A'' then (if valid r then Some (set_chain T table chain (rs @ [r])) else None)
                        else if oper = ''-D'' then
                          (if r \<in> set rs then Some (set_chain T table chain (remove1 r rs)) else None)
                        else if oper = ''-F'' then Some (set_chain T table chain [])
                        else if oper = ''-X'' then
                          (if rs = [] \<and> \<not> referenced T table chain
                           then Some (filter (\<lambda>(k, _). k \<noteq> (table, chain)) T) else None)
                        else None)))"

definition iptables_ok :: "'k kernel \<Rightarrow> ('k \<Rightarrow> string option \<Rightarrow> ruleset) \<Rightarrow> (rule \<Rightarrow> bool) \<Rightarrow> bool" where
  "iptables_ok kn fw valid \<longleftrightarrow>
     (\<forall>ns table args k r k'. k_exec kn ns (''iptables'' # ''-t'' # table # args) k = (r, k') \<longrightarrow>
        (case ipt_run valid table args (fw k ns) of
           None \<Rightarrow> (\<exists>e. r = Inl e) \<and> fw k' = fw k
         | Some T \<Rightarrow> r = Inr () \<and> fw k' = (fw k)(ns := T)))"

lemma iptables_exec:
  assumes "iptables_ok kn fw valid" "k_exec kn ns (''iptables'' # ''-t'' # table # args) k = (r, k')"
  shows "case ipt_run valid table args (fw k ns) of
           None \<Rightarrow> (\<exists>e. r = Inl e) \<and> fw k' = fw k
         | Some T \<Rightarrow> r = Inr () \<and> fw k' = (fw k)(ns := T)"
  using assms(1)[unfolded iptables_ok_def, rule_format, OF assms(2)] .

lemma iptables_failed:
  assumes "iptables_ok kn fw valid" "ipt_run valid table args (fw k ns) = None"
  obtains e k' where "k_exec kn ns (''iptables'' # ''-t'' # table # args) k = (Inl e, k')" "fw k' = fw k"
proof -
  obtain r k' where run: "k_exec kn ns (''iptables'' # ''-t'' # table # args) k = (r, k')" by fastforce
  from iptables_exec[OF assms(1) run] assms(2) have "(\<exists>e. r = Inl e) \<and> fw k' = fw k" by simp
  then show ?thesis using run that by auto
qed

lemma iptables_done:
  assumes "iptables_ok kn fw valid" "ipt_run valid table args (fw k ns) = Some T"
  obtains k' where "k_exec kn ns (''iptables'' # ''-t'' # table # args) k = (Inr (), k')" "fw k' = (fw k)(ns := T)"
proof -
  obtain r k' where run: "k_exec kn ns (''iptables'' # ''-t'' # table # args) k = (r, k')" by fastforce
  from iptables_exec[OF assms(1) run] assms(2) have "r = Inr () \<and> fw k' = (fw k)(ns := T)" by simp
  then show ?thesis using run that by auto
qed

lemma chain_rules_set: "chain_rules (set_chain T t c rs) t' c' =
  (if (t', c') = (t, c) then map_option (\<lambda>_. rs) (chain_rules T t c) else chain_rules T t' c')"
  by (induction T) (auto simp: chain_rules_def set_chain_def)

lemma chain_rules_new: "chain_rules T t c = None \<Longrightarrow> chain_rules (T @ [((t, c), [])]) t' c' =
  (if (t', c') = (t, c) then Some [] else chain_rules T t' c')"
  by (auto simp: chain_rules_def map_add_def split: option.splits)

lemma chain_rules_gone: "chain_rules (filter (\<lambda>(k, _). k \<noteq> (t, c)) T) t' c' =
  (if (t', c') = (t, c) then None else chain_rules T t' c')"
  by (induction T) (auto simp: chain_rules_def)

section \<open>Packets\<close>

record packet =
  pk_in :: string
  pk_out :: string
  pk_proto :: string
  pk_dst :: string
  pk_dport :: string
  pk_ctstate :: string

definition iface_match :: "string \<Rightarrow> string \<Rightarrow> bool" where
  "iface_match pat i = (if endswith pat ''+'' then startswith i (butlast pat) else pat = i)"

text \<open>The matches of one rule: pairs of an option and its value, up to the target.\<close>

fun rule_matches :: "rule \<Rightarrow> packet \<Rightarrow> bool" where
  "rule_matches (opt # v # rest) p =
     (if opt = ''-i'' then iface_match v (pk_in p) \<and> rule_matches rest p
      else if opt = ''-o'' then iface_match v (pk_out p) \<and> rule_matches rest p
      else if opt = ''-d'' then v = pk_dst p \<and> rule_matches rest p
      else if opt = ''-p'' then v = pk_proto p \<and> rule_matches rest p
      else if opt = ''--dport'' then v = pk_dport p \<and> rule_matches rest p
      else if opt = ''--ctstate'' then pk_ctstate p \<in> set (split_on (CHR '','') v) \<and> rule_matches rest p
      else if opt = ''-m'' then rule_matches rest p
      else if opt = ''-j'' then rest = []
      else False)"
| "rule_matches _ p = False"

datatype verdict = Accepted | Dropped | Fallthrough

text \<open>
  A list of rules is walked in order; a chain that ends without a decision falls through to the
  rule after the jump. \<open>fuel\<close> bounds the depth of jumps; the agent's chains are two deep.
\<close>

fun walk :: "nat \<Rightarrow> ruleset \<Rightarrow> rule list \<Rightarrow> packet \<Rightarrow> verdict" where
  "walk fuel T [] p = Fallthrough"
| "walk fuel T (r # rs) p =
     (if \<not> rule_matches r p then walk fuel T rs p
      else (case jump_of r of
             None \<Rightarrow> walk fuel T rs p
           | Some t \<Rightarrow>
               if t = ''ACCEPT'' then Accepted
               else if t = ''DROP'' then Dropped
               else (case fuel of
                      0 \<Rightarrow> walk fuel T rs p
                    | Suc n \<Rightarrow>
                        (case chain_rules T ''filter'' t of
                           None \<Rightarrow> walk fuel T rs p
                         | Some rs' \<Rightarrow>
                             (case walk n T rs' p of Fallthrough \<Rightarrow> walk fuel T rs p | v \<Rightarrow> v)))))"

lemma walk_append: "walk fuel T (xs @ ys) p = (case walk fuel T xs p of Fallthrough \<Rightarrow> walk fuel T ys p | v \<Rightarrow> v)"
  by (induction xs) (auto split: option.split nat.split verdict.split)

lemma walk_skip: "(\<And>r. r \<in> set xs \<Longrightarrow> \<not> rule_matches r p) \<Longrightarrow> walk fuel T (xs @ ys) p = walk fuel T ys p"
  by (induction xs) auto

end
