(* ===== verification/Underlay.thy ===== *)
theory Underlay
  imports Firewall Allocator CatalogDB "HOL-Library.Multiset"
begin

text \<open>
  The underlay egress of a network (\<^verbatim>\<open>agent/underlay.py\<close>, beside the allocator): the idempotent
  helpers around iptables, the chassis-wide chain, provisioning and teardown of a network's
  veth and chains, and the destination ACL. Operations act on the state of the chassis: the
  kernel and the allocator. The per-network lock around each of them is the subject of the
  theory Locks.
\<close>

section \<open>Definitions\<close>

record 'k chassis =
  ch_kernel :: 'k
  ch_alloc :: allocator
  ch_installed :: bool

definition on_k :: "('k, 'a) act \<Rightarrow> ('k chassis, 'a) act" where
  "on_k m s = (case m (ch_kernel s) of (r, k) \<Rightarrow> (r, s\<lparr>ch_kernel := k\<rparr>))"

definition on_alloc :: "(allocator, 'a) act \<Rightarrow> ('k chassis, 'a) act" where
  "on_alloc m s = (case m (ch_alloc s) of (r, a) \<Rightarrow> (r, s\<lparr>ch_alloc := a\<rparr>))"

definition exec_root :: "'k kernel \<Rightarrow> string list \<Rightarrow> ('k, unit) act" where
  "exec_root kn cmd = k_exec kn None cmd"

definition exec_in_ns :: "'k kernel \<Rightarrow> string \<Rightarrow> string list \<Rightarrow> ('k, unit) act" where
  "exec_in_ns kn netns cmd = k_exec kn (Some netns) cmd"

text \<open>\<^verbatim>\<open>if netns: _exec_in_ns(netns, cmd) else: _exec_root(cmd)\<close>.\<close>

definition exec_at :: "'k kernel \<Rightarrow> string option \<Rightarrow> string list \<Rightarrow> ('k, unit) act" where
  "exec_at kn netns cmd =
     (case netns of Some n \<Rightarrow> exec_in_ns kn n cmd | None \<Rightarrow> exec_root kn cmd)"

definition iptables_chain_exists :: "'k kernel \<Rightarrow> string \<Rightarrow> string \<Rightarrow> string option \<Rightarrow> ('k, bool) act" where
  "iptables_chain_exists kn chain table netns =
     attempt (andthen (exec_at kn netns [''iptables'', ''-t'', table, ''-n'', ''-L'', chain]) (ret True))
       (\<lambda>_. ret False)"

definition ensure_chain :: "'k kernel \<Rightarrow> string \<Rightarrow> string \<Rightarrow> string option \<Rightarrow> ('k, unit) act" where
  "ensure_chain kn chain table netns =
     bnd (iptables_chain_exists kn chain table netns) (\<lambda>there.
       if there then ret () else exec_at kn netns [''iptables'', ''-t'', table, ''-N'', chain])"

definition ensure_rule :: "'k kernel \<Rightarrow> string \<Rightarrow> string \<Rightarrow> rule \<Rightarrow> string option \<Rightarrow> ('k, unit) act" where
  "ensure_rule kn table chain rule_args netns =
     bnd (attempt (andthen (exec_at kn netns ([''iptables'', ''-t'', table, ''-C'', chain] @ rule_args)) (ret True))
            (\<lambda>_. ret False)) (\<lambda>present.
       if present then ret ()
       else exec_at kn netns ([''iptables'', ''-t'', table, ''-A'', chain] @ rule_args))"

definition delete_rule_if_present :: "'k kernel \<Rightarrow> string \<Rightarrow> string \<Rightarrow> rule \<Rightarrow> string option \<Rightarrow> ('k, unit) act" where
  "delete_rule_if_present kn table chain rule_args netns =
     swallow (exec_at kn netns ([''iptables'', ''-t'', table, ''-D'', chain] @ rule_args))"

subsection \<open>The chassis-wide chain\<close>

definition established_rule :: rule where
  "established_rule = [''-m'', ''conntrack'', ''--ctstate'', ''ESTABLISHED,RELATED'', ''-j'', ''ACCEPT'']"

definition cross_tenant_rule :: rule where
  "cross_tenant_rule =
     [''-i'', UNDERLAY_VETH_PREFIX @ ''+'', ''-o'', UNDERLAY_VETH_PREFIX @ ''+'', ''-j'', ''DROP'']"

definition install_chassis_rules :: "'k kernel \<Rightarrow> string \<Rightarrow> ('k, unit) act" where
  "install_chassis_rules kn pool_cidr =
     andthen (ensure_chain kn UNDERLAY_HOST_CHAIN ''filter'' None)
     (andthen (ensure_rule kn ''filter'' ''FORWARD'' [''-j'', UNDERLAY_HOST_CHAIN] None)
     (andthen (ensure_rule kn ''filter'' ''INPUT''
                 [''-i'', UNDERLAY_VETH_PREFIX @ ''+'', ''-j'', UNDERLAY_HOST_CHAIN] None)
     (andthen (ensure_rule kn ''filter'' UNDERLAY_HOST_CHAIN established_rule None)
     (andthen (ensure_rule kn ''filter'' UNDERLAY_HOST_CHAIN cross_tenant_rule None)
              (ensure_rule kn ''nat'' ''POSTROUTING''
                 [''-s'', pool_cidr, ''!'', ''-o'', UNDERLAY_VETH_PREFIX @ ''+'', ''-j'', ''MASQUERADE''] None)))))"

text \<open>The rules, then the module's flag (\<^verbatim>\<open>_chassis_chain_installed.set()\<close>).\<close>

definition install_chassis_chain :: "'k kernel \<Rightarrow> string \<Rightarrow> ('k chassis, unit) act" where
  "install_chassis_chain kn pool_cidr =
     andthen (on_k (install_chassis_rules kn pool_cidr)) (modify (\<lambda>s. s\<lparr>ch_installed := True\<rparr>))"

subsection \<open>Provisioning and teardown of a network\<close>

text \<open>\<^verbatim>\<open>'AlreadyExists' in type(exc).__name__\<close>.\<close>

definition already_exists :: "exc \<Rightarrow> bool" where
  "already_exists e = (case e of Foreign c \<Rightarrow> contains c ''AlreadyExists'' | _ \<Rightarrow> False)"

definition ensure_addr :: "'k kernel \<Rightarrow> device \<Rightarrow> string \<Rightarrow> ('k, unit) act" where
  "ensure_addr kn dev cidr =
     bnd (k_addr_list kn dev) (\<lambda>current.
       if cidr \<in> set current then ret ()
       else attempt (k_addr_add kn dev cidr) (\<lambda>e. if already_exists e then ret () else raise e))"

definition ensure_default_route :: "'k kernel \<Rightarrow> string \<Rightarrow> string \<Rightarrow> ('k, unit) act" where
  "ensure_default_route kn netns gateway =
     exec_in_ns kn netns [''ip'', ''route'', ''replace'', ''default'', ''via'', gateway]"

definition set_rp_filter :: "'k kernel \<Rightarrow> string \<Rightarrow> string option \<Rightarrow> ('k, unit) act" where
  "set_rp_filter kn iface netns =
     swallow (exec_at kn netns [''sysctl'', ''-w'', ''net.ipv4.conf.'' @ iface @ ''.rp_filter=1''])"

definition install_in_netns_forward :: "'k kernel \<Rightarrow> string \<Rightarrow> string \<Rightarrow> string \<Rightarrow> ('k, unit) act" where
  "install_in_netns_forward kn netns tenant_veth_ns underlay_veth_ns =
     andthen (ensure_rule kn ''filter'' ''FORWARD''
       [''-i'', tenant_veth_ns, ''-o'', underlay_veth_ns, ''-m'', ''conntrack'', ''--ctstate'',
        ''NEW,ESTABLISHED,RELATED'', ''-j'', ''ACCEPT''] (Some netns))
     (andthen (ensure_rule kn ''filter'' ''FORWARD''
       [''-i'', tenant_veth_ns, ''-o'', underlay_veth_ns, ''-j'', ''DROP''] (Some netns))
     (andthen (ensure_rule kn ''filter'' ''FORWARD''
       [''-i'', underlay_veth_ns, ''-o'', tenant_veth_ns, ''-m'', ''conntrack'', ''--ctstate'',
        ''ESTABLISHED,RELATED'', ''-j'', ''ACCEPT''] (Some netns))
     (ensure_rule kn ''filter'' ''FORWARD''
       [''-i'', underlay_veth_ns, ''-o'', tenant_veth_ns, ''-j'', ''DROP''] (Some netns))))"

definition jump_rule :: "string \<Rightarrow> rule" where
  "jump_rule network_id = [''-i'', fst (underlay_veth_names network_id), ''-j'', per_net_chain_name network_id]"

definition ensure_underlay_veth :: "'k kernel \<Rightarrow> string \<Rightarrow> string \<Rightarrow> ('k, unit) act" where
  "ensure_underlay_veth kn network_id ns_name =
     (let root_veth = fst (underlay_veth_names network_id);
          ns_dev = (Some ns_name, snd (underlay_veth_names network_id))
      in bnd (k_device_exists kn ns_dev) (\<lambda>there.
           if there then ret ()
           else
             bnd (k_device_exists kn (None, root_veth)) (\<lambda>stale.
               andthen (doif stale (k_del_veth kn root_veth)) (k_add_veth kn root_veth ns_dev))))"

text \<open>What provisioning does to the kernel once the addresses are known.\<close>

definition provision_kernel :: "'k kernel \<Rightarrow> string \<Rightarrow> string \<times> string \<Rightarrow> ('k, unit) act" where
  "provision_kernel kn network_id ips =
     (let ns_name = NETNS_PREFIX @ network_id;
          root_veth = fst (underlay_veth_names network_id);
          ns_veth = snd (underlay_veth_names network_id);
          host_ip = fst ips;
          ns_ip = snd ips;
          tenant_ns_veth = ''tls'' @ take 10 network_id @ ''1'';
          chain = per_net_chain_name network_id
      in andthen (ensure_underlay_veth kn network_id ns_name)
        (andthen (k_set_up kn (None, root_veth))
        (andthen (k_set_up kn (Some ns_name, ns_veth))
        (andthen (ensure_addr kn (None, root_veth) (host_ip @ ''/30''))
        (andthen (ensure_addr kn (Some ns_name, ns_veth) (ns_ip @ ''/30''))
        (andthen (ensure_default_route kn ns_name host_ip)
        (andthen (set_rp_filter kn root_veth None)
        (andthen (set_rp_filter kn ns_veth (Some ns_name))
        (andthen (install_in_netns_forward kn ns_name tenant_ns_veth ns_veth)
        (andthen (ensure_chain kn chain ''filter'' None)
        (andthen (ensure_rule kn ''filter'' chain [''-j'', ''DROP''] None)
                 (ensure_rule kn ''filter'' UNDERLAY_HOST_CHAIN (jump_rule network_id) None))))))))))))"

definition provision_for_network :: "fs \<Rightarrow> 'k kernel \<Rightarrow> string \<Rightarrow> ('k chassis, (string \<times> string) option) act" where
  "provision_for_network io kn network_id =
     bnd (on_k (k_ns_exists kn (NETNS_PREFIX @ network_id))) (\<lambda>there.
       if \<not> there then ret None
       else
         bnd (on_alloc (addresses io network_id)) (\<lambda>ips.
           andthen (on_k (provision_kernel kn network_id ips)) (ret (Some ips))))"

definition teardown_kernel :: "'k kernel \<Rightarrow> string \<Rightarrow> ('k, unit) act" where
  "teardown_kernel kn network_id =
     (let root_veth = fst (underlay_veth_names network_id);
          chain = per_net_chain_name network_id
      in andthen (delete_rule_if_present kn ''filter'' UNDERLAY_HOST_CHAIN (jump_rule network_id) None)
        (bnd (iptables_chain_exists kn chain ''filter'' None) (\<lambda>there.
         andthen (doif there
           (swallow (andthen (exec_root kn [''iptables'', ''-t'', ''filter'', ''-F'', chain])
                             (exec_root kn [''iptables'', ''-t'', ''filter'', ''-X'', chain]))))
        (bnd (k_device_exists kn (None, root_veth)) (\<lambda>dev.
           doif dev (swallow (k_del_veth kn root_veth)))))))"

definition teardown_for_network :: "fs \<Rightarrow> 'k kernel \<Rightarrow> string \<Rightarrow> ('k chassis, unit) act" where
  "teardown_for_network io kn network_id =
     andthen (on_k (teardown_kernel kn network_id)) (on_alloc (free io network_id))"

subsection \<open>The destination ACL\<close>

text \<open>
  The endpoints of one backend. Ports are integers in the dictionaries, so \<^verbatim>\<open>int(port)\<close> is the
  port; \<^verbatim>\<open>int(data_port)\<close> of a missing port raises \<^verbatim>\<open>TypeError\<close>, which can happen only when the
  health-check address equals the data address and a health-check port is set.
\<close>

definition backend_rows :: "string list \<Rightarrow> backend_dict \<Rightarrow> exc + (string \<times> string \<times> int) list" where
  "backend_rows protos be =
     (if \<not> get_enabled (bd_enabled be) then Inr []
      else
        (let data_addr = bd_address be;
             data_port = bd_port be;
             data = (if truthy_str data_addr \<and> truthy_int data_port
                     then map (\<lambda>p. (p, the data_addr, the data_port)) protos else []);
             hc_addr = or_str (bd_health_check_address be) data_addr;
             hc_port = or_int (bd_health_check_port be) data_port
         in if truthy_str hc_addr \<and> truthy_int hc_port then
              (if hc_addr \<noteq> data_addr
               then Inr (data @ map (\<lambda>p. (p, the hc_addr, the hc_port)) [''tcp'', ''udp''])
               else case data_port of
                      None \<Rightarrow> Inl (Foreign ''TypeError'')
                    | Some dp \<Rightarrow>
                        if the hc_port \<noteq> dp
                        then Inr (data @ map (\<lambda>p. (p, the hc_addr, the hc_port)) [''tcp'', ''udp''])
                        else Inr data)
            else Inr data))"

text \<open>Running through a list of generators: the first exception ends it.\<close>

fun gather :: "('a \<Rightarrow> exc + 'b list) \<Rightarrow> 'a list \<Rightarrow> exc + 'b list" where
  "gather f [] = Inr []"
| "gather f (x # xs) =
     (case f x of
        Inl e \<Rightarrow> Inl e
      | Inr ys \<Rightarrow> map_sum id (\<lambda>zs. ys @ zs) (gather f xs))"

definition service_protos :: "service_dict \<Rightarrow> string list" where
  "service_protos svc =
     (let proto = lower (case sd_protocol svc of None \<Rightarrow> [] | Some p \<Rightarrow> p)
      in if proto = ''tcp-udp'' then [''tcp'', ''udp'']
         else if proto = ''tcp'' \<or> proto = ''udp'' then [proto]
         else [])"

definition service_rows :: "service_dict \<Rightarrow> exc + (string \<times> string \<times> int) list" where
  "service_rows svc =
     (if \<not> get_enabled (sd_enabled svc) then Inr []
      else if service_protos svc = [] then Inr []
      else gather (backend_rows (service_protos svc)) (case sd_backends svc of None \<Rightarrow> [] | Some bs \<Rightarrow> bs))"

definition backend_endpoints :: "service_dict list \<Rightarrow> exc + (string \<times> string \<times> int) list" where
  "backend_endpoints services = gather service_rows services"

definition accept_rule :: "string \<times> string \<times> int \<Rightarrow> rule" where
  "accept_rule ep =
     (case ep of (proto, addr, port) \<Rightarrow>
        [''-d'', addr, ''-p'', proto, ''--dport'', str_int port, ''-m'', ''conntrack'', ''--ctstate'', ''NEW'',
         ''-j'', ''ACCEPT''])"

definition drop_rule :: rule where
  "drop_rule = [''-j'', ''DROP'']"

definition lift_result :: "exc + 'a \<Rightarrow> ('k, 'a) act" where
  "lift_result r = (case r of Inl e \<Rightarrow> raise e | Inr x \<Rightarrow> ret x)"

definition reconcile_destination_acl :: "'k kernel \<Rightarrow> string \<Rightarrow> service_dict list \<Rightarrow> ('k, unit) act" where
  "reconcile_destination_acl kn network_id services =
     (let chain = per_net_chain_name network_id
      in andthen (ensure_chain kn chain ''filter'' None)
        (bnd (lift_result (backend_endpoints services)) (\<lambda>eps.
           let endpoints = sort (remdups eps)
           in andthen (exec_root kn [''iptables'', ''-t'', ''filter'', ''-F'', chain])
             (andthen (each (\<lambda>ep. exec_root kn ([''iptables'', ''-t'', ''filter'', ''-A'', chain] @ accept_rule ep)) endpoints)
                (exec_root kn ([''iptables'', ''-t'', ''filter'', ''-A'', chain] @ drop_rule))))))"

section \<open>The iptables helpers\<close>

lemma exec_at_eq [simp]: "exec_at kn netns cmd = k_exec kn netns cmd" "exec_root kn cmd = k_exec kn None cmd"
  "exec_in_ns kn n cmd = k_exec kn (Some n) cmd"
  by (simp_all add: exec_at_def exec_in_ns_def exec_root_def split: option.split)

lemma ipt_run_simps:
  "ipt_run valid t [''-n'', l, c] T = (if chain_rules T t c \<noteq> None then Some T else None)"
  "ipt_run valid t (''-N'' # c # r) T = (if chain_rules T t c = None then Some (T @ [((t, c), [])]) else None)"
  "chain_rules T t c = Some rs \<Longrightarrow> ipt_run valid t (''-C'' # c # r) T = (if r \<in> set rs then Some T else None)"
  "chain_rules T t c = Some rs \<Longrightarrow>
     ipt_run valid t (''-A'' # c # r) T = (if valid r then Some (set_chain T t c (rs @ [r])) else None)"
  "chain_rules T t c = Some rs \<Longrightarrow>
     ipt_run valid t (''-D'' # c # r) T = (if r \<in> set rs then Some (set_chain T t c (remove1 r rs)) else None)"
  "chain_rules T t c = Some rs \<Longrightarrow> ipt_run valid t [''-F'', c] T = Some (set_chain T t c [])"
  "chain_rules T t c = Some rs \<Longrightarrow> ipt_run valid t [''-X'', c] T =
     (if rs = [] \<and> \<not> referenced T t c then Some (filter (\<lambda>(k, _). k \<noteq> (t, c)) T) else None)"
  "chain_rules T t c = None \<Longrightarrow> oper \<in> {''-C'', ''-A'', ''-D'', ''-F'', ''-X''} \<Longrightarrow> ipt_run valid t (oper # c # r) T = None"
  by (auto simp: ipt_run_def)

lemma chain_exists_run:
  assumes "iptables_ok kn fw valid"
  obtains k' where "iptables_chain_exists kn c t ns k = (Inr (chain_rules (fw k ns) t c \<noteq> None), k')" "fw k' = fw k"
proof (cases "chain_rules (fw k ns) t c = None")
  case True
  then have "ipt_run valid t [''-n'', ''-L'', c] (fw k ns) = None" by (simp add: ipt_run_simps)
  then obtain e k' where k': "k_exec kn ns [''iptables'', ''-t'', t, ''-n'', ''-L'', c] k = (Inl e, k')" "fw k' = fw k"
    by (rule iptables_failed[OF assms])
  show ?thesis by (rule that[OF _ k'(2)]) (use k'(1) True in \<open>simp add: iptables_chain_exists_def\<close>)
next
  case False
  then have "ipt_run valid t [''-n'', ''-L'', c] (fw k ns) = Some (fw k ns)" by (simp add: ipt_run_simps)
  then obtain k' where k': "k_exec kn ns [''iptables'', ''-t'', t, ''-n'', ''-L'', c] k = (Inr (), k')" "fw k' = (fw k)(ns := fw k ns)"
    by (rule iptables_done[OF assms])
  show ?thesis by (rule that[of k']) (use k' False in \<open>simp_all add: iptables_chain_exists_def\<close>)
qed

text \<open>The rules of every chain after a chain was ensured.\<close>

definition with_chain :: "ruleset \<Rightarrow> string \<Rightarrow> string \<Rightarrow> ruleset" where
  "with_chain T t c = (if chain_rules T t c = None then T @ [((t, c), [])] else T)"

lemma with_chain_rules: "chain_rules (with_chain T t c) t' c' =
  (if (t', c') = (t, c) then Some (case chain_rules T t c of None \<Rightarrow> [] | Some rs \<Rightarrow> rs) else chain_rules T t' c')"
  by (auto simp: with_chain_def chain_rules_new split: option.splits)

lemma ensure_chain_run:
  assumes ok: "iptables_ok kn fw valid"
  obtains k' where "ensure_chain kn c t ns k = (Inr (), k')" "fw k' = (fw k)(ns := with_chain (fw k ns) t c)"
proof -
  obtain k1 where k1: "iptables_chain_exists kn c t ns k = (Inr (chain_rules (fw k ns) t c \<noteq> None), k1)" "fw k1 = fw k"
    using chain_exists_run[OF ok] .
  show ?thesis
  proof (cases "chain_rules (fw k ns) t c = None")
    case True
    then have "ipt_run valid t [''-N'', c] (fw k1 ns) = Some (with_chain (fw k ns) t c)"
      by (simp add: ipt_run_simps k1(2) with_chain_def)
    then obtain k2 where k2: "k_exec kn ns [''iptables'', ''-t'', t, ''-N'', c] k1 = (Inr (), k2)"
        "fw k2 = (fw k1)(ns := with_chain (fw k ns) t c)"
      by (rule iptables_done[OF ok])
    show ?thesis by (rule that[of k2]) (use k1 k2 True in \<open>simp_all add: ensure_chain_def bnd_def\<close>)
  next
    case False
    then have same: "with_chain (fw k ns) t c = fw k ns" by (simp add: with_chain_def)
    show ?thesis
      by (rule that[of k1]) (use k1 False in \<open>simp_all only: same fun_upd_triv ensure_chain_def bnd_def ret_run prod.case sum.case if_True not_False_eq_True\<close>)
  qed
qed

text \<open>A rule is appended once: never when it is there, and only if iptables takes it.\<close>

definition with_rule :: "ruleset \<Rightarrow> string \<Rightarrow> string \<Rightarrow> rule \<Rightarrow> ruleset" where
  "with_rule T t c r = (case chain_rules T t c of
     None \<Rightarrow> T | Some rs \<Rightarrow> if r \<in> set rs then T else set_chain T t c (rs @ [r]))"

lemma with_rule_rules: "chain_rules (with_rule T t c r) t' c' =
  (if (t', c') = (t, c) then map_option (\<lambda>rs. if r \<in> set rs then rs else rs @ [r]) (chain_rules T t c) else chain_rules T t' c')"
  by (auto simp: with_rule_def chain_rules_set split: option.splits)

lemma ensure_rule_run:
  assumes ok: "iptables_ok kn fw valid"
  obtains (done_) k' where "ensure_rule kn t c r ns k = (Inr (), k')" "fw k' = (fw k)(ns := with_rule (fw k ns) t c r)"
      "chain_rules (fw k ns) t c \<noteq> None"
    | (refused) e k' where "ensure_rule kn t c r ns k = (Inl e, k')" "fw k' = fw k"
        "chain_rules (fw k ns) t c = None \<or> \<not> valid r"
proof (cases "ipt_run valid t (''-C'' # c # r) (fw k ns)")
  case (Some T)
  then obtain k1 where k1: "k_exec kn ns (''iptables'' # ''-t'' # t # ''-C'' # c # r) k = (Inr (), k1)" "fw k1 = (fw k)(ns := T)"
    by (rule iptables_done[OF ok])
  from Some have "T = fw k ns \<and> T = with_rule (fw k ns) t c r \<and> chain_rules (fw k ns) t c \<noteq> None"
    by (cases "chain_rules (fw k ns) t c") (auto simp: ipt_run_simps with_rule_def split: if_splits)
  note T = this
  show ?thesis
  proof (rule done_[of k1])
    show "fw k1 = (fw k)(ns := with_rule (fw k ns) t c r)" using k1(2) T by (simp only: conjunct1[OF conjunct2[OF T], symmetric])
  qed (use k1 T in \<open>simp_all add: ensure_rule_def bnd_def\<close>)
next
  case None
  then obtain e k1 where k1: "k_exec kn ns (''iptables'' # ''-t'' # t # ''-C'' # c # r) k = (Inl e, k1)" "fw k1 = fw k"
    by (rule iptables_failed[OF ok])
  have go: "ensure_rule kn t c r ns k = k_exec kn ns (''iptables'' # ''-t'' # t # ''-A'' # c # r) k1"
    using k1 by (simp add: ensure_rule_def bnd_def)
  show ?thesis
  proof (cases "ipt_run valid t (''-A'' # c # r) (fw k1 ns)")
    case (Some T)
    then obtain k2 where k2: "k_exec kn ns (''iptables'' # ''-t'' # t # ''-A'' # c # r) k1 = (Inr (), k2)" "fw k2 = (fw k1)(ns := T)"
      by (rule iptables_done[OF ok])
    have "T = with_rule (fw k ns) t c r \<and> chain_rules (fw k ns) t c \<noteq> None"
      using Some None k1(2) by (cases "chain_rules (fw k ns) t c") (auto simp: ipt_run_simps with_rule_def split: if_splits)
    then show ?thesis by (intro done_[of k2]) (use go k2 k1(2) in simp_all)
  next
    case None2: None
    then obtain e k2 where k2: "k_exec kn ns (''iptables'' # ''-t'' # t # ''-A'' # c # r) k1 = (Inl e, k2)" "fw k2 = fw k1"
      by (rule iptables_failed[OF ok])
    have "chain_rules (fw k ns) t c = None \<or> \<not> valid r"
      using None2 k1(2) by (cases "chain_rules (fw k ns) t c") (auto simp: ipt_run_simps split: if_splits)
    then show ?thesis by (intro refused[of e k2]) (use go k2 k1(2) in simp_all)
  qed
qed

section \<open>The destination ACL\<close>

definition rules_of :: "('k \<Rightarrow> string option \<Rightarrow> ruleset) \<Rightarrow> 'k \<Rightarrow> string \<Rightarrow> rule list option" where
  "rules_of fw k chain = chain_rules (fw k None) ''filter'' chain"

text \<open>Appending a list of rules to a chain, up to the first one iptables does not take.\<close>

lemma append_run:
  assumes ok: "iptables_ok kn fw valid" and c: "rules_of fw k c = Some rs"
  obtains k' where "k_exec kn None ([''iptables'', ''-t'', ''filter'', ''-A'', c] @ r) k = (Inr (), k')" "valid r"
      "rules_of fw k' = (rules_of fw k)(c := Some (rs @ [r]))"
    | e k' where "k_exec kn None ([''iptables'', ''-t'', ''filter'', ''-A'', c] @ r) k = (Inl e, k')" "\<not> valid r"
      "rules_of fw k' = rules_of fw k"
proof (cases "valid r")
  case True
  then have "ipt_run valid ''filter'' (''-A'' # c # r) (fw k None) = Some (set_chain (fw k None) ''filter'' c (rs @ [r]))"
    using c by (simp add: ipt_run_simps rules_of_def)
  then obtain k' where k': "k_exec kn None (''iptables'' # ''-t'' # ''filter'' # ''-A'' # c # r) k = (Inr (), k')"
      "fw k' = (fw k)(None := set_chain (fw k None) ''filter'' c (rs @ [r]))"
    by (rule iptables_done[OF ok])
  show ?thesis
    by (rule that(1)[of k']) (use k' True c in \<open>auto simp: rules_of_def fun_eq_iff chain_rules_set\<close>)
next
  case False
  then have "ipt_run valid ''filter'' (''-A'' # c # r) (fw k None) = None"
    using c by (simp add: ipt_run_simps rules_of_def)
  then obtain e k' where k': "k_exec kn None (''iptables'' # ''-t'' # ''filter'' # ''-A'' # c # r) k = (Inl e, k')" "fw k' = fw k"
    by (rule iptables_failed[OF ok])
  show ?thesis
    by (rule that(2)[of e k']) (use k' False in \<open>auto simp: rules_of_def fun_eq_iff\<close>)
qed

lemma append_all_run:
  assumes ok: "iptables_ok kn fw valid" and c: "rules_of fw k c = Some rs"
  shows "\<exists>x k'. each (\<lambda>y. k_exec kn None ([''iptables'', ''-t'', ''filter'', ''-A'', c] @ f y)) ys k = (x, k')
    \<and> (x = Inr () \<longleftrightarrow> (\<forall>y \<in> set ys. valid (f y)))
    \<and> rules_of fw k' = (rules_of fw k)(c := Some (rs @ map f (takeWhile (\<lambda>y. valid (f y)) ys)))"
  using c
proof (induction ys arbitrary: k rs)
  case Nil
  then show ?case by (auto simp: fun_eq_iff)
next
  case (Cons y ys)
  from ok Cons.prems show ?case
  proof (cases rule: append_run[where r = "f y"])
    case (1 k1)
    have "rules_of fw k1 c = Some (rs @ [f y])" using 1(3) by simp
    from Cons.IH[OF this] obtain x k' where k': "each (\<lambda>y. k_exec kn None ([''iptables'', ''-t'', ''filter'', ''-A'', c] @ f y)) ys k1 = (x, k')"
        "x = Inr () \<longleftrightarrow> (\<forall>y \<in> set ys. valid (f y))"
        "rules_of fw k' = (rules_of fw k1)(c := Some ((rs @ [f y]) @ map f (takeWhile (\<lambda>y. valid (f y)) ys)))" by blast
    show ?thesis by (intro exI[of _ x] exI[of _ k']) (use k' 1 in simp)
  next
    case (2 e k1)
    then show ?thesis using Cons.prems by (auto simp: fun_eq_iff)
  qed
qed

lemma flush_run:
  assumes ok: "iptables_ok kn fw valid" and c: "rules_of fw k c = Some rs"
  obtains k' where "k_exec kn None [''iptables'', ''-t'', ''filter'', ''-F'', c] k = (Inr (), k')"
    "rules_of fw k' = (rules_of fw k)(c := Some [])"
proof -
  have "ipt_run valid ''filter'' [''-F'', c] (fw k None) = Some (set_chain (fw k None) ''filter'' c [])"
    using c by (simp add: ipt_run_simps rules_of_def)
  then obtain k' where k': "k_exec kn None [''iptables'', ''-t'', ''filter'', ''-F'', c] k = (Inr (), k')"
      "fw k' = (fw k)(None := set_chain (fw k None) ''filter'' c [])"
    by (rule iptables_done[OF ok])
  show ?thesis by (rule that[of k']) (use k' c in \<open>auto simp: rules_of_def fun_eq_iff chain_rules_set\<close>)
qed

lemma ensure_chain_rules:
  assumes ok: "iptables_ok kn fw valid"
  obtains k' where "ensure_chain kn c ''filter'' None k = (Inr (), k')"
    "rules_of fw k' = (rules_of fw k)(c := Some (case rules_of fw k c of None \<Rightarrow> [] | Some rs \<Rightarrow> rs))"
proof -
  obtain k' where k': "ensure_chain kn c ''filter'' None k = (Inr (), k')"
      "fw k' = (fw k)(None := with_chain (fw k None) ''filter'' c)"
    by (rule ensure_chain_run[OF ok])
  show ?thesis by (rule that[of k']) (use k' in \<open>auto simp: rules_of_def fun_eq_iff with_chain_rules\<close>)
qed

text \<open>The chain the ACL leaves: complete when iptables takes every rule, otherwise cut off and open-ended.\<close>

lemma acl_run:
  assumes ok: "iptables_ok kn fw valid" and eps: "backend_endpoints services = Inr eps"
    and chain: "chain = per_net_chain_name n"
  obtains x k' where "reconcile_destination_acl kn n services k = (x, k')"
    "x = Inr () \<longleftrightarrow> (\<forall>ep \<in> set eps. valid (accept_rule ep)) \<and> valid drop_rule"
    "rules_of fw k' = (rules_of fw k)(chain := Some (map accept_rule (takeWhile (\<lambda>ep. valid (accept_rule ep)) (sort (remdups eps)))
       @ (if x = Inr () then [drop_rule] else [])))"
proof -
  let ?eps = "sort (remdups eps)"
  obtain k1 where k1: "ensure_chain kn chain ''filter'' None k = (Inr (), k1)"
      "rules_of fw k1 = (rules_of fw k)(chain := Some (case rules_of fw k chain of None \<Rightarrow> [] | Some rs \<Rightarrow> rs))"
    by (rule ensure_chain_rules[OF ok])
  obtain k2 where k2: "k_exec kn None [''iptables'', ''-t'', ''filter'', ''-F'', chain] k1 = (Inr (), k2)"
      "rules_of fw k2 = (rules_of fw k1)(chain := Some [])"
    by (rule flush_run[OF ok, of k1 chain]) (simp_all add: k1(2))
  have empty: "rules_of fw k2 chain = Some []" by (simp add: k2(2))
  let ?fill = "each (\<lambda>ep. k_exec kn None ([''iptables'', ''-t'', ''filter'', ''-A'', chain] @ accept_rule ep)) ?eps"
  obtain x k3 where k3: "?fill k2 = (x, k3)" "x = Inr () \<longleftrightarrow> (\<forall>ep \<in> set ?eps. valid (accept_rule ep))"
      "rules_of fw k3 = (rules_of fw k2)(chain := Some (map accept_rule (takeWhile (\<lambda>ep. valid (accept_rule ep)) ?eps)))"
    using append_all_run[OF ok empty, of accept_rule ?eps] by auto
  have run: "reconcile_destination_acl kn n services k =
      andthen ?fill (k_exec kn None ([''iptables'', ''-t'', ''filter'', ''-A'', chain] @ drop_rule)) k2"
    using k1(1) k2(1) eps by (simp add: reconcile_destination_acl_def chain lift_result_def Let_def)
  have upto: "rules_of fw k3 = (rules_of fw k)(chain := Some (map accept_rule (takeWhile (\<lambda>ep. valid (accept_rule ep)) ?eps)))"
    by (simp add: k3(3) k2(2) k1(2))
  show ?thesis
  proof (cases x)
    case (Inl e)
    then have "reconcile_destination_acl kn n services k = (Inl e, k3)" using run k3(1) by simp
    then show ?thesis by (rule that[of "Inl e" k3]) (use upto k3(2) Inl in auto)
  next
    case (Inr u)
    then have all: "\<forall>ep \<in> set eps. valid (accept_rule ep)" and go: "reconcile_destination_acl kn n services k =
        k_exec kn None ([''iptables'', ''-t'', ''filter'', ''-A'', chain] @ drop_rule) k3"
      using run k3(1,2) by auto
    have "rules_of fw k3 chain = Some (map accept_rule (takeWhile (\<lambda>ep. valid (accept_rule ep)) ?eps))" by (simp add: upto)
    from ok this show ?thesis
    proof (cases rule: append_run[where r = drop_rule])
      case (1 k4)
      show ?thesis by (rule that[of "Inr ()" k4]) (use 1 go all upto in simp_all)
    next
      case (2 e k4)
      show ?thesis by (rule that[of "Inl e" k4]) (use 2 go all upto in simp_all)
    qed
  qed
qed

end
