(* ===== verification/Egress.thy ===== *)
theory Egress
  imports Underlay
begin

text \<open>
  What the chains of the underlay do to the packets of a tenant. The invariant \<open>host_inv\<close> of the
  root namespace's filter table is kept by every operation of the underlay on every path,
  raising ones included. It is relative to a set of open chains: a reconcile of the destination ACL that
  raises may leave the chain of its network without the DROP, and the chain counts as open from then on until a provisioning
  or a reconcile of the network returns. From the invariant: the isolation of tenants from each other and the
  whitelist of backends.
\<close>

section \<open>The invariant of the filter table\<close>

text \<open>
  The chassis-wide chain accepts established flows, drops traffic between underlay veths and then
  only jumps, at most once per network, into chains that hold a DROP or are in \<open>Op\<close>, the open ones.
\<close>

definition guarded :: "string set \<Rightarrow> (string \<Rightarrow> rule list option) \<Rightarrow> string \<Rightarrow> bool" where
  "guarded Op R n \<longleftrightarrow> per_net_chain_name n \<in> Op \<or> (\<exists>rs. R (per_net_chain_name n) = Some rs \<and> drop_rule \<in> set rs)"

definition host_inv :: "string set \<Rightarrow> (string \<Rightarrow> rule list option) \<Rightarrow> bool" where
  "host_inv Op R \<longleftrightarrow> (\<exists>js. R UNDERLAY_HOST_CHAIN = Some (established_rule # cross_tenant_rule # js)
     \<and> distinct js \<and> (\<forall>j \<in> set js. \<exists>n. j = jump_rule n \<and> guarded Op R n))"

text \<open>The calls of the underlay that are not invocations of iptables leave the rule sets alone.\<close>

definition fw_frame :: "'k kernel \<Rightarrow> ('k \<Rightarrow> string option \<Rightarrow> ruleset) \<Rightarrow> bool" where
  "fw_frame kn fw \<longleftrightarrow>
     (\<forall>ns. keeps fw (k_ns_exists kn ns)) \<and> (\<forall>dev. keeps fw (k_device_exists kn dev))
     \<and> (\<forall>r d. keeps fw (k_add_veth kn r d)) \<and> (\<forall>r. keeps fw (k_del_veth kn r))
     \<and> (\<forall>dev. keeps fw (k_set_up kn dev))
     \<and> (\<forall>dev. keeps fw (k_addr_list kn dev)) \<and> (\<forall>dev c. keeps fw (k_addr_add kn dev c))
     \<and> (\<forall>ns c cs. c \<noteq> ''iptables'' \<longrightarrow> keeps fw (k_exec kn ns (c # cs)))"

lemma jump_rule_eq_iff: "jump_rule m = jump_rule n \<longleftrightarrow> per_net_chain_name m = per_net_chain_name n"
  by (simp add: jump_rule_def underlay_veth_names_def per_net_chain_name_def Let_def)

lemma per_net_chain_distinct: "per_net_chain_name n \<noteq> UNDERLAY_HOST_CHAIN"
    "UNDERLAY_HOST_CHAIN \<noteq> per_net_chain_name n" "per_net_chain_name n \<noteq> ''ACCEPT''" "per_net_chain_name n \<noteq> ''DROP''"
    "per_net_chain_name n \<noteq> ''FORWARD''" "per_net_chain_name n \<noteq> ''INPUT''"
    "UNDERLAY_HOST_CHAIN \<noteq> ''FORWARD''" "UNDERLAY_HOST_CHAIN \<noteq> ''INPUT''"
  by (simp_all add: per_net_chain_name_def const_defs Let_def)

lemma jump_rule_distinct: "jump_rule n \<noteq> established_rule" "jump_rule n \<noteq> cross_tenant_rule"
    "established_rule \<noteq> jump_rule n" "cross_tenant_rule \<noteq> jump_rule n"
  by (simp_all add: jump_rule_def established_rule_def cross_tenant_rule_def)

text \<open>How the invariant reacts to a change of one chain.\<close>

lemma guarded_upd: "(per_net_chain_name n = c \<Longrightarrow> guarded Op R n \<Longrightarrow> c \<in> Op \<or> drop_rule \<in> set rs) \<Longrightarrow> guarded Op R n \<Longrightarrow> guarded Op (R(c := Some rs)) n"
  by (auto simp: guarded_def)

lemma host_inv_other:
  assumes "host_inv Op R" "c \<noteq> UNDERLAY_HOST_CHAIN"
    "\<And>n. per_net_chain_name n = c \<Longrightarrow> guarded Op R n \<Longrightarrow> c \<in> Op \<or> drop_rule \<in> set rs"
  shows "host_inv Op (R(c := Some rs))"
proof -
  obtain js where js: "R UNDERLAY_HOST_CHAIN = Some (established_rule # cross_tenant_rule # js)" "distinct js"
      "\<forall>j \<in> set js. \<exists>n. j = jump_rule n \<and> guarded Op R n"
    using assms(1) unfolding host_inv_def by blast
  have "\<forall>j \<in> set js. \<exists>n. j = jump_rule n \<and> guarded Op (R(c := Some rs)) n"
    using js(3) assms(3) guarded_upd by metis
  then show ?thesis unfolding host_inv_def using js assms(2) by auto
qed

lemma host_inv_append:
  assumes "host_inv Op R" "R c = Some rs" "c \<noteq> UNDERLAY_HOST_CHAIN"
  shows "host_inv Op (R(c := Some (rs @ [r])))"
  by (rule host_inv_other) (use assms in \<open>auto simp: guarded_def\<close>)

lemma host_inv_jump:
  assumes "host_inv Op R" "R UNDERLAY_HOST_CHAIN = Some rs" "jump_rule n \<notin> set rs" "guarded Op R n"
  shows "host_inv Op (R(UNDERLAY_HOST_CHAIN := Some (rs @ [jump_rule n])))"
proof -
  have g: "guarded Op (R(UNDERLAY_HOST_CHAIN := x)) m = guarded Op R m" for m x
    by (simp add: guarded_def per_net_chain_distinct)
  from assms(1,2) obtain js where "rs = established_rule # cross_tenant_rule # js" "distinct js"
      "\<forall>j \<in> set js. \<exists>n. j = jump_rule n \<and> guarded Op R n"
    unfolding host_inv_def by auto
  then show ?thesis unfolding host_inv_def using assms(3,4) by (intro exI[of _ "js @ [jump_rule n]"]) (auto simp: g)
qed

section \<open>Operations on the rule set\<close>

abbreviation frame :: "('k \<Rightarrow> string option \<Rightarrow> ruleset) \<Rightarrow> ('k, 'a) act \<Rightarrow> bool" where
  "frame fw m \<equiv> keeps (rules_of fw) m"

lemma frame_fw: "keeps fw m \<Longrightarrow> frame fw m"
  by (simp add: keeps_def rules_of_def fun_eq_iff)

text \<open>A rule of another namespace or another table.\<close>

lemma ensure_rule_elsewhere:
  assumes ok: "iptables_ok kn fw valid" and "ns \<noteq> None \<or> t \<noteq> ''filter''"
  shows "frame fw (ensure_rule kn t c r ns)"
proof -
  have "rules_of fw (snd (ensure_rule kn t c r ns k)) = rules_of fw k" for k
    using ok
  proof (cases rule: ensure_rule_run[of kn fw valid t c r ns k])
    case (done_ k')
    then show ?thesis using assms(2) by (auto simp: rules_of_def fun_eq_iff with_rule_rules)
  next
    case (refused e k')
    then show ?thesis by (simp add: rules_of_def fun_eq_iff)
  qed
  then show ?thesis by (simp add: keeps_def)
qed

lemma ensure_rule_rules:
  assumes ok: "iptables_ok kn fw valid"
  obtains k' where "ensure_rule kn ''filter'' c r None k = (Inr (), k')" "rules_of fw k' = rules_of fw k"
      "\<exists>rs. rules_of fw k c = Some rs \<and> r \<in> set rs"
    | rs k' where "ensure_rule kn ''filter'' c r None k = (Inr (), k')" "rules_of fw k c = Some rs" "r \<notin> set rs"
      "rules_of fw k' = (rules_of fw k)(c := Some (rs @ [r]))"
    | e k' where "ensure_rule kn ''filter'' c r None k = (Inl e, k')" "rules_of fw k' = rules_of fw k"
  using ok
proof (cases rule: ensure_rule_run[of kn fw valid "''filter''" c r None k])
  case (done_ k')
  obtain rs where rs: "rules_of fw k c = Some rs" using done_(3) by (auto simp: rules_of_def)
  have k': "rules_of fw k' = (\<lambda>c'. if c' = c then Some (if r \<in> set rs then rs else rs @ [r]) else rules_of fw k c')"
    using done_(2) rs by (auto simp: rules_of_def fun_eq_iff with_rule_rules)
  show ?thesis
  proof (cases "r \<in> set rs")
    case True
    show ?thesis by (rule that(1)[OF done_(1)]) (use True rs k' in auto)
  next
    case False
    show ?thesis by (rule that(2)[OF done_(1) rs]) (use False rs k' in auto)
  qed
next
  case (refused e k')
  show ?thesis by (rule that(3)[OF refused(1)]) (use refused(2) in \<open>simp add: rules_of_def fun_eq_iff\<close>)
qed

lemma ensure_rule_stable:
  assumes ok: "iptables_ok kn fw valid" and c: "c \<noteq> UNDERLAY_HOST_CHAIN \<or> r \<in> {established_rule, cross_tenant_rule}"
  shows "stable (\<lambda>k. host_inv Op (rules_of fw k)) (ensure_rule kn ''filter'' c r None)"
proof (rule stableI)
  fix k x k'
  assume inv: "host_inv Op (rules_of fw k)" and run: "ensure_rule kn ''filter'' c r None k = (x, k')"
  from ok show "host_inv Op (rules_of fw k')"
  proof (cases rule: ensure_rule_rules[of kn fw valid c r k])
    case (2 rs k1)
    have "c \<noteq> UNDERLAY_HOST_CHAIN"
      using c 2(2,3) inv unfolding host_inv_def by auto
    then show ?thesis using host_inv_append[OF inv 2(2)] 2 run by simp
  qed (use inv run in simp_all)
qed

lemma ensure_chain_stable:
  assumes ok: "iptables_ok kn fw valid"
  shows "stable (\<lambda>k. host_inv Op (rules_of fw k)) (ensure_chain kn c ''filter'' None)"
proof (rule stableI)
  fix k x k'
  assume inv: "host_inv Op (rules_of fw k)" and run: "ensure_chain kn c ''filter'' None k = (x, k')"
  obtain k1 where k1: "ensure_chain kn c ''filter'' None k = (Inr (), k1)"
    "rules_of fw k1 = (rules_of fw k)(c := Some (case rules_of fw k c of None \<Rightarrow> [] | Some rs \<Rightarrow> rs))"
    by (rule ensure_chain_rules[OF ok])
  show "host_inv Op (rules_of fw k')"
  proof (cases "rules_of fw k c")
    case None
    then have "c \<noteq> UNDERLAY_HOST_CHAIN" using inv by (auto simp: host_inv_def)
    with inv None have "host_inv Op ((rules_of fw k)(c := Some []))" by (intro host_inv_other) (auto simp: guarded_def)
    then show ?thesis using None k1 run by simp
  next
    case (Some rs)
    then have "(rules_of fw k)(c := Some rs) = rules_of fw k" by auto
    then show ?thesis using Some k1 run inv by simp
  qed
qed

lemma guarded_after_drop:
  assumes ok: "iptables_ok kn fw valid" and run: "ensure_rule kn ''filter'' (per_net_chain_name n) drop_rule None k = (Inr (), k')"
  shows "guarded Op (rules_of fw k') n"
  using ok
proof (cases rule: ensure_rule_rules[of kn fw valid "per_net_chain_name n" drop_rule k])
qed (use run in \<open>auto simp: guarded_def\<close>)

lemma jump_keeps_inv:
  assumes ok: "iptables_ok kn fw valid" and inv: "host_inv Op (rules_of fw k)" "guarded Op (rules_of fw k) n"
    and run: "ensure_rule kn ''filter'' UNDERLAY_HOST_CHAIN (jump_rule n) None k = (r, k')"
  shows "host_inv Op (rules_of fw k')"
  using ok
proof (cases rule: ensure_rule_rules[of kn fw valid UNDERLAY_HOST_CHAIN "jump_rule n" k])
  case (2 rs k1)
  show ?thesis using host_inv_jump[OF inv(1) 2(2,3) inv(2)] 2 run by simp
qed (use inv run in auto)

section \<open>Every operation keeps the invariant\<close>

abbreviation inv_k :: "string set \<Rightarrow> ('k \<Rightarrow> string option \<Rightarrow> ruleset) \<Rightarrow> 'k \<Rightarrow> bool" where
  "inv_k Op fw k \<equiv> host_inv Op (rules_of fw k)"

lemma frame_stable: "frame fw m \<Longrightarrow> stable (inv_k Op fw) m"
  using keeps_stable[of "rules_of fw" m "host_inv Op"] by simp

lemma fw_frame_calls:
  assumes "fw_frame kn fw"
  shows "frame fw (k_ns_exists kn ns)" "frame fw (k_device_exists kn dev)" "frame fw (k_add_veth kn rv d)" "frame fw (k_del_veth kn rv)"
    "frame fw (k_set_up kn dev)" "frame fw (k_addr_list kn dev)" "frame fw (k_addr_add kn dev c)"
    "cmd \<noteq> ''iptables'' \<Longrightarrow> frame fw (k_exec kn nso (cmd # cs))"
  by (rule frame_fw, use assms in \<open>simp add: fw_frame_def del: split_paired_All\<close>)+

lemma provision_helpers_frame:
  assumes fr: "fw_frame kn fw"
  shows "frame fw (ensure_underlay_veth kn n ns)" "frame fw (ensure_addr kn dev cidr)"
    "frame fw (ensure_default_route kn nsn gw)" "frame fw (set_rp_filter kn iface nso)"
proof -
  show "frame fw (ensure_underlay_veth kn n ns)"
    unfolding ensure_underlay_veth_def Let_def by (intro keeps_intros fw_frame_calls[OF fr])
  show "frame fw (ensure_addr kn dev cidr)"
    unfolding ensure_addr_def by (intro keeps_intros fw_frame_calls[OF fr])
  show "frame fw (ensure_default_route kn nsn gw)"
    unfolding ensure_default_route_def exec_at_eq by (rule fw_frame_calls(8)[OF fr]) simp
  show "frame fw (set_rp_filter kn iface nso)"
    unfolding set_rp_filter_def exec_at_eq by (intro keeps_intros fw_frame_calls(8)[OF fr]) simp
qed

lemma in_netns_forward_frame:
  assumes "iptables_ok kn fw valid"
  shows "frame fw (install_in_netns_forward kn ns t u)"
  unfolding install_in_netns_forward_def by (intro keeps_intros ensure_rule_elsewhere[OF assms] disjI1 option.distinct)

text \<open>The last three steps of provisioning: chain, default DROP, jump.\<close>

lemma install_jump_stable:
  assumes ok: "iptables_ok kn fw valid"
  shows "stable (inv_k Op fw) (andthen (ensure_rule kn ''filter'' (per_net_chain_name n) drop_rule None)
    (ensure_rule kn ''filter'' UNDERLAY_HOST_CHAIN (jump_rule n) None))"
proof (rule stableI)
  fix k r k'
  assume inv: "inv_k Op fw k" and run: "andthen (ensure_rule kn ''filter'' (per_net_chain_name n) drop_rule None)
    (ensure_rule kn ''filter'' UNDERLAY_HOST_CHAIN (jump_rule n) None) k = (r, k')"
  have first: "stable (inv_k Op fw) (ensure_rule kn ''filter'' (per_net_chain_name n) drop_rule None)"
    by (rule ensure_rule_stable[OF ok]) (simp add: per_net_chain_distinct)
  from run show "inv_k Op fw k'"
  proof (cases rule: andthen_cases)
    case (raised e)
    show ?thesis using stableD[OF first inv raised(1)] .
  next
    case (returned k1)
    show ?thesis
      by (rule jump_keeps_inv[OF ok stableD[OF first inv returned(1)] guarded_after_drop[OF ok returned(1)] returned(2)])
  qed
qed

lemma provision_kernel_stable:
  assumes ok: "iptables_ok kn fw valid" and fr: "fw_frame kn fw"
  shows "stable (inv_k Op fw) (provision_kernel kn n ips)"
  unfolding provision_kernel_def Let_def drop_rule_def[symmetric]
  by (intro stable_andthen[OF frame_stable] stable_andthen[OF ensure_chain_stable[OF ok]] install_jump_stable[OF ok]
      provision_helpers_frame[OF fr] fw_frame_calls[OF fr] in_netns_forward_frame[OF ok])

lemma on_k_stable: "stable P m \<Longrightarrow> stable (\<lambda>s. P (ch_kernel s)) (on_k m)"
  by (rule stableI) (auto simp: on_k_def split: prod.splits dest: stableD)

lemma on_alloc_stable: "stable (\<lambda>s. P (ch_kernel s)) (on_alloc m)"
  by (rule stableI) (auto simp: on_alloc_def split: prod.splits)

lemma install_stable:
  assumes ok: "iptables_ok kn fw valid"
  shows "stable (\<lambda>s. inv_k Op fw (ch_kernel s)) (install_chassis_chain kn pool)"
proof -
  have "stable (inv_k Op fw) (install_chassis_rules kn pool)"
    unfolding install_chassis_rules_def
    by (intro stable_andthen ensure_chain_stable[OF ok] ensure_rule_stable[OF ok] frame_stable[OF ensure_rule_elsewhere[OF ok]])
      (simp_all add: not_sym[OF per_net_chain_distinct(7)] not_sym[OF per_net_chain_distinct(8)])
  then show ?thesis
    unfolding install_chassis_chain_def by (intro stable_andthen[OF on_k_stable]) (simp_all add: stable_def)
qed

lemma provision_stable:
  assumes ok: "iptables_ok kn fw valid" and fr: "fw_frame kn fw"
  shows "stable (\<lambda>s. inv_k Op fw (ch_kernel s)) (provision_for_network io kn n)"
  unfolding provision_for_network_def
  by (intro stable_intros on_k_stable on_alloc_stable provision_kernel_stable[OF ok fr] frame_stable fw_frame_calls[OF fr])

text \<open>Teardown: once the jump is gone, the chain of the network is free to go.\<close>

definition unlinked :: "string set \<Rightarrow> string \<Rightarrow> (string \<Rightarrow> rule list option) \<Rightarrow> bool" where
  "unlinked Op n R \<longleftrightarrow> host_inv Op R \<and> (\<forall>rs. R UNDERLAY_HOST_CHAIN = Some rs \<longrightarrow> jump_rule n \<notin> set rs)"

lemma unlinked_upd:
  assumes "unlinked Op n R" "c = per_net_chain_name n"
  shows "unlinked Op n (R(c := v))"
proof -
  obtain js where js: "R UNDERLAY_HOST_CHAIN = Some (established_rule # cross_tenant_rule # js)" "distinct js"
      "\<forall>j \<in> set js. \<exists>n. j = jump_rule n \<and> guarded Op R n"
    using assms(1) unfolding unlinked_def host_inv_def by blast
  have "\<exists>m. j = jump_rule m \<and> guarded Op (R(c := v)) m" if j: "j \<in> set js" for j
  proof -
    obtain m where m: "j = jump_rule m" "guarded Op R m" using js(3) j by blast
    have "jump_rule n \<notin> set js" using assms(1) js(1) by (simp add: unlinked_def)
    then have "jump_rule m \<noteq> jump_rule n" using m(1) j by metis
    then show ?thesis using m assms(2) by (auto simp: guarded_def jump_rule_eq_iff)
  qed
  moreover have "(R(c := v)) UNDERLAY_HOST_CHAIN = Some (established_rule # cross_tenant_rule # js)"
    using js(1) assms(2) by (simp add: per_net_chain_distinct)
  moreover have "jump_rule n \<notin> set (established_rule # cross_tenant_rule # js)"
    using assms(1) js(1) by (simp add: unlinked_def)
  ultimately show ?thesis using js(2) unfolding unlinked_def host_inv_def by simp
qed

lemma frame_unlinked: "frame fw m \<Longrightarrow> stable (\<lambda>k. unlinked Op n (rules_of fw k)) m"
  using keeps_stable[of "rules_of fw" m "unlinked Op n"] by simp

lemma unlink_run:
  assumes ok: "iptables_ok kn fw valid" and inv: "inv_k Op fw k"
  obtains k' where "delete_rule_if_present kn ''filter'' UNDERLAY_HOST_CHAIN (jump_rule n) None k = (Inr (), k')"
    "unlinked Op n (rules_of fw k')"
proof -
  obtain js where js: "rules_of fw k UNDERLAY_HOST_CHAIN = Some (established_rule # cross_tenant_rule # js)" "distinct js"
      "\<forall>j \<in> set js. \<exists>n. j = jump_rule n \<and> guarded Op (rules_of fw k) n"
    using inv unfolding host_inv_def by blast
  have js1: "chain_rules (fw k None) ''filter'' UNDERLAY_HOST_CHAIN = Some (established_rule # cross_tenant_rule # js)"
    using js(1) by (simp add: rules_of_def)
  let ?cmd = "''iptables'' # ''-t'' # ''filter'' # ''-D'' # UNDERLAY_HOST_CHAIN # jump_rule n"
  show ?thesis
  proof (cases "jump_rule n \<in> set js")
    case False
    then have "ipt_run valid ''filter'' (''-D'' # UNDERLAY_HOST_CHAIN # jump_rule n) (fw k None) = None"
      by (simp add: ipt_run_simps(5)[OF js1] jump_rule_distinct)
    then obtain e k' where k': "k_exec kn None ?cmd k = (Inl e, k')" "fw k' = fw k"
      by (rule iptables_failed[OF ok])
    have same: "rules_of fw k' = rules_of fw k" using k'(2) by (simp add: rules_of_def fun_eq_iff)
    show ?thesis
      by (rule that[of k']) (use k' False inv js(1) in \<open>simp_all add: delete_rule_if_present_def swallow_run unlinked_def same jump_rule_distinct\<close>)
  next
    case True
    then have "ipt_run valid ''filter'' (''-D'' # UNDERLAY_HOST_CHAIN # jump_rule n) (fw k None) =
        Some (set_chain (fw k None) ''filter'' UNDERLAY_HOST_CHAIN (established_rule # cross_tenant_rule # remove1 (jump_rule n) js))"
      by (simp add: ipt_run_simps(5)[OF js1] jump_rule_distinct)
    then obtain k' where k': "k_exec kn None ?cmd k = (Inr (), k')"
        "fw k' = (fw k)(None := set_chain (fw k None) ''filter'' UNDERLAY_HOST_CHAIN (established_rule # cross_tenant_rule # remove1 (jump_rule n) js))"
      by (rule iptables_done[OF ok])
    have R: "rules_of fw k' = (rules_of fw k)(UNDERLAY_HOST_CHAIN := Some (established_rule # cross_tenant_rule # remove1 (jump_rule n) js))"
      using k'(2) js1 by (auto simp: rules_of_def fun_eq_iff chain_rules_set)
    have g: "guarded Op (R(UNDERLAY_HOST_CHAIN := x)) m = guarded Op R m" for m x R
      by (simp add: guarded_def per_net_chain_distinct)
    have "\<forall>j \<in> set (remove1 (jump_rule n) js). \<exists>m. j = jump_rule m \<and> guarded Op (rules_of fw k') m"
      using js(2,3) unfolding R g by (simp add: set_remove1_eq)
    then have "unlinked Op n (rules_of fw k')"
      unfolding unlinked_def host_inv_def using js(2) by (simp add: R jump_rule_distinct set_remove1_eq distinct_remove1)
    then show ?thesis by (intro that[of k']) (use k' in \<open>simp_all add: delete_rule_if_present_def swallow_run\<close>)
  qed
qed

text \<open>Any single iptables command on the chain of an unlinked network.\<close>

lemma unlinked_exec:
  assumes ok: "iptables_ok kn fw valid" and c: "c = per_net_chain_name n" and cmd: "cmd = [''-F'', c] \<or> cmd = [''-X'', c]"
  shows "stable (\<lambda>k. unlinked Op n (rules_of fw k)) (k_exec kn None ([''iptables'', ''-t'', ''filter''] @ cmd))"
proof (rule stableI)
  fix k r k'
  assume un: "unlinked Op n (rules_of fw k)" and run: "k_exec kn None ([''iptables'', ''-t'', ''filter''] @ cmd) k = (r, k')"
  have eff: "case ipt_run valid ''filter'' cmd (fw k None) of
           None \<Rightarrow> (\<exists>e. r = Inl e) \<and> fw k' = fw k
         | Some T \<Rightarrow> r = Inr () \<and> fw k' = (fw k)(None := T)"
    by (rule iptables_exec[OF ok]) (use run in simp)
  show "unlinked Op n (rules_of fw k')"
  proof (cases "ipt_run valid ''filter'' cmd (fw k None)")
    case None
    then show ?thesis using eff un by (simp add: rules_of_def unlinked_def host_inv_def guarded_def)
  next
    case (Some T)
    have "\<exists>v. chain_rules T ''filter'' = (rules_of fw k)(c := v)"
      using Some cmd by (auto simp: ipt_run_def rules_of_def chain_rules_set chain_rules_gone fun_eq_iff split: option.splits if_splits)
    then obtain v where "rules_of fw k' = (rules_of fw k)(c := v)" using eff Some by (auto simp: rules_of_def fun_eq_iff)
    then show ?thesis using unlinked_upd[OF un c] by simp
  qed
qed

lemma chain_exists_frame:
  assumes ok: "iptables_ok kn fw valid"
  shows "frame fw (iptables_chain_exists kn c t ns)"
proof -
  have "rules_of fw (snd (iptables_chain_exists kn c t ns k)) = rules_of fw k" for k
    by (rule chain_exists_run[OF ok, of c t ns k]) (simp add: rules_of_def fun_eq_iff)
  then show ?thesis by (simp add: keeps_def)
qed

lemma teardown_kernel_stable:
  assumes ok: "iptables_ok kn fw valid" and fr: "fw_frame kn fw"
  shows "stable (inv_k Op fw) (teardown_kernel kn n)"
proof (rule stableI)
  fix k r k'
  assume inv: "inv_k Op fw k" and run: "teardown_kernel kn n k = (r, k')"
  obtain k1 where k1: "delete_rule_if_present kn ''filter'' UNDERLAY_HOST_CHAIN (jump_rule n) None k = (Inr (), k1)"
      "unlinked Op n (rules_of fw k1)"
    using unlink_run[OF ok inv] .
  let ?c = "per_net_chain_name n" and ?v = "fst (underlay_veth_names n)"
  let ?rest = "bnd (iptables_chain_exists kn ?c ''filter'' None) (\<lambda>there.
         andthen (doif there
           (swallow (andthen (exec_root kn [''iptables'', ''-t'', ''filter'', ''-F'', ?c])
                             (exec_root kn [''iptables'', ''-t'', ''filter'', ''-X'', ?c]))))
        (bnd (k_device_exists kn (None, ?v)) (\<lambda>dev. doif dev (swallow (k_del_veth kn ?v)))))"
  have "stable (\<lambda>k. unlinked Op n (rules_of fw k)) ?rest"
    using unlinked_exec[OF ok refl, of "[''-F'', ?c]" n] unlinked_exec[OF ok refl, of "[''-X'', ?c]" n]
    by (intro stable_intros frame_unlinked[OF chain_exists_frame[OF ok]] frame_unlinked[OF fw_frame_calls(2)[OF fr]]
        frame_unlinked[OF fw_frame_calls(4)[OF fr]]) simp_all
  moreover have "?rest k1 = (r, k')" using run k1(1) unfolding teardown_kernel_def Let_def by simp
  ultimately have "unlinked Op n (rules_of fw k')" using k1(2) by (blast dest: stableD)
  then show "inv_k Op fw k'" by (simp add: unlinked_def)
qed

lemma teardown_stable:
  assumes ok: "iptables_ok kn fw valid" and fr: "fw_frame kn fw"
  shows "stable (\<lambda>s. inv_k Op fw (ch_kernel s)) (teardown_for_network io kn n)"
  unfolding teardown_for_network_def
  by (intro stable_intros on_k_stable on_alloc_stable teardown_kernel_stable[OF ok fr])

lemma reconcile_rules:
  assumes ok: "iptables_ok kn fw valid" and run: "reconcile_destination_acl kn n services k = (Inr (), k')"
  obtains eps where "backend_endpoints services = Inr eps"
    "rules_of fw k' = (rules_of fw k)(per_net_chain_name n := Some (map accept_rule (sort (remdups eps)) @ [drop_rule]))"
proof (cases "backend_endpoints services")
  case (Inl e)
  obtain k1 where "ensure_chain kn (per_net_chain_name n) ''filter'' None k = (Inr (), k1)"
    by (rule ensure_chain_rules[OF ok])
  then have "reconcile_destination_acl kn n services k = (Inl e, k1)"
    using Inl by (simp add: reconcile_destination_acl_def lift_result_def Let_def)
  then show ?thesis using run by simp
next
  case (Inr eps)
  obtain x k1 where k1: "reconcile_destination_acl kn n services k = (x, k1)"
    "x = Inr () \<longleftrightarrow> (\<forall>ep \<in> set eps. valid (accept_rule ep)) \<and> valid drop_rule"
    "rules_of fw k1 = (rules_of fw k)(per_net_chain_name n := Some (map accept_rule (takeWhile (\<lambda>ep. valid (accept_rule ep)) (sort (remdups eps)))
       @ (if x = Inr () then [drop_rule] else [])))"
    by (rule acl_run[OF ok Inr refl])
  have x: "x = Inr ()" "k1 = k'" using k1(1) run by simp_all
  then have all: "takeWhile (\<lambda>ep. valid (accept_rule ep)) (sort (remdups eps)) = sort (remdups eps)"
    using k1(2) by (simp add: takeWhile_eq_all_conv)
  show ?thesis by (rule that[OF Inr]) (use k1(3) x in \<open>simp add: all\<close>)
qed

text \<open>The set of open chains may grow, and a chain that holds a DROP need not be in it.\<close>

lemma host_inv_mono: "host_inv Op R \<Longrightarrow> Op \<subseteq> Op' \<Longrightarrow> host_inv Op' R"
  unfolding host_inv_def guarded_def by blast

lemma host_inv_close:
  assumes inv: "host_inv Op R" and g: "guarded {} R n"
  shows "host_inv (Op - {per_net_chain_name n}) R"
proof -
  have "guarded (Op - {per_net_chain_name n}) R m" if "guarded Op R m" for m
    using that g by (cases "per_net_chain_name m = per_net_chain_name n") (auto simp: guarded_def)
  then show ?thesis using inv unfolding host_inv_def by blast
qed

text \<open>A reconcile writes the chain of its network and no other; with a DROP when it returns.\<close>

lemma reconcile_writes:
  assumes ok: "iptables_ok kn fw valid" and run: "reconcile_destination_acl kn n services k = (r, k')"
  obtains rs where "rules_of fw k' = (rules_of fw k)(per_net_chain_name n := Some rs)" "r = Inr () \<Longrightarrow> drop_rule \<in> set rs"
proof (cases "backend_endpoints services")
  case (Inl e)
  obtain k1 where k1: "ensure_chain kn (per_net_chain_name n) ''filter'' None k = (Inr (), k1)"
      "rules_of fw k1 = (rules_of fw k)(per_net_chain_name n := Some (case rules_of fw k (per_net_chain_name n) of None \<Rightarrow> [] | Some rs \<Rightarrow> rs))"
    by (rule ensure_chain_rules[OF ok])
  then have "reconcile_destination_acl kn n services k = (Inl e, k1)"
    using Inl by (simp add: reconcile_destination_acl_def lift_result_def Let_def)
  then show ?thesis using run k1(2) that by simp
next
  case (Inr eps)
  obtain x k1 where k1: "reconcile_destination_acl kn n services k = (x, k1)"
    "rules_of fw k1 = (rules_of fw k)(per_net_chain_name n := Some (map accept_rule (takeWhile (\<lambda>ep. valid (accept_rule ep)) (sort (remdups eps)))
       @ (if x = Inr () then [drop_rule] else [])))"
    by (rule acl_run[OF ok Inr refl])
  then show ?thesis using run that by simp
qed

definition after_acl :: "exc + unit \<Rightarrow> string \<Rightarrow> string set \<Rightarrow> string set" where
  "after_acl r n Op = (case r of Inr _ \<Rightarrow> Op - {per_net_chain_name n} | Inl _ \<Rightarrow> insert (per_net_chain_name n) Op)"

lemma reconcile_keeps_inv:
  assumes ok: "iptables_ok kn fw valid" and inv: "inv_k Op fw k" and run: "reconcile_destination_acl kn n services k = (r, k')"
  shows "inv_k (after_acl r n Op) fw k'"
proof -
  obtain rs where rs: "rules_of fw k' = (rules_of fw k)(per_net_chain_name n := Some rs)" "r = Inr () \<Longrightarrow> drop_rule \<in> set rs"
    by (rule reconcile_writes[OF ok run]) (rule that)
  show ?thesis
  proof (cases r)
    case (Inl e)
    have "host_inv (insert (per_net_chain_name n) Op) (rules_of fw k)" using host_inv_mono[OF inv] by blast
    then show ?thesis
      using host_inv_other[of "insert (per_net_chain_name n) Op"] unfolding Inl rs(1) by (simp add: after_acl_def per_net_chain_distinct)
  next
    case (Inr u)
    have "host_inv Op (rules_of fw k')"
      unfolding rs(1) by (rule host_inv_other[OF inv]) (use rs(2) Inr in \<open>simp_all add: per_net_chain_distinct\<close>)
    moreover have "guarded {} (rules_of fw k') n" using rs Inr by (simp add: guarded_def)
    ultimately show ?thesis using host_inv_close by (simp add: after_acl_def Inr)
  qed
qed

text \<open>The kernel's part of a provisioning that returned an address pair.\<close>

lemma provision_kernel_ran:
  assumes run: "provision_for_network io kn n s = (Inr (Some ips), s')"
  obtains k k1 where "ensure_rule kn ''filter'' (per_net_chain_name n) drop_rule None k = (Inr (), k1)"
    "ensure_rule kn ''filter'' UNDERLAY_HOST_CHAIN (jump_rule n) None k1 = (Inr (), ch_kernel s')"
proof -
  from run obtain s0 where "bnd (on_alloc (addresses io n)) (\<lambda>ips. andthen (on_k (provision_kernel kn n ips)) (ret (Some ips))) s0 = (Inr (Some ips), s')"
    unfolding provision_for_network_def by (elim bnd_cases) (simp_all split: if_splits)
  then obtain ips0 s1 where "andthen (on_k (provision_kernel kn n ips0)) (ret (Some ips0)) s1 = (Inr (Some ips), s')"
    by (rule bnd_cases) simp_all
  then have "on_k (provision_kernel kn n ips) s1 = (Inr (), s')" by (rule andthen_cases) simp_all
  then have "provision_kernel kn n ips (ch_kernel s1) = (Inr (), ch_kernel s')" by (auto simp: on_k_def split: prod.splits)
  then show thesis
    unfolding provision_kernel_def Let_def drop_rule_def[symmetric] by (elim andthen_cases) (simp_all add: that)
qed

lemma provision_links:
  assumes ok: "iptables_ok kn fw valid" and run: "provision_for_network io kn n s = (Inr (Some ips), s')"
  shows "\<exists>hrs. rules_of fw (ch_kernel s') UNDERLAY_HOST_CHAIN = Some hrs \<and> jump_rule n \<in> set hrs"
    and "guarded {} (rules_of fw (ch_kernel s')) n"
proof -
  obtain k k1 where k: "ensure_rule kn ''filter'' (per_net_chain_name n) drop_rule None k = (Inr (), k1)"
      "ensure_rule kn ''filter'' UNDERLAY_HOST_CHAIN (jump_rule n) None k1 = (Inr (), ch_kernel s')"
    by (rule provision_kernel_ran[OF run])
  show "\<exists>hrs. rules_of fw (ch_kernel s') UNDERLAY_HOST_CHAIN = Some hrs \<and> jump_rule n \<in> set hrs"
    by (rule ensure_rule_rules[OF ok, of UNDERLAY_HOST_CHAIN "jump_rule n" k1]) (use k(2) in auto)
  have "guarded {} (rules_of fw k1) n" by (rule guarded_after_drop[OF ok k(1)])
  then show "guarded {} (rules_of fw (ch_kernel s')) n"
    by (cases rule: ensure_rule_rules[OF ok, of UNDERLAY_HOST_CHAIN "jump_rule n" k1])
      (use k(2) in \<open>auto simp: guarded_def per_net_chain_distinct\<close>)
qed

section \<open>Reachable states\<close>

text \<open>
  The operations of the underlay as steps of the chassis, each with any outcome; what calls them (the dispatch of the
  agent) goes on after one that raised. Beside the chassis a step changes the set of open chains: a reconcile
  that raises opens the chain of its network, a reconcile or a provisioning that returns closes it.
\<close>

definition after_provision :: "exc + 'a option \<Rightarrow> string \<Rightarrow> string set \<Rightarrow> string set" where
  "after_provision r n Op = (case r of Inr (Some _) \<Rightarrow> Op - {per_net_chain_name n} | _ \<Rightarrow> Op)"

inductive underlay_step :: "fs \<Rightarrow> 'k kernel \<Rightarrow> string \<Rightarrow> string set \<Rightarrow> 'k chassis \<Rightarrow> string set \<Rightarrow> 'k chassis \<Rightarrow> bool"
  for io :: fs and kn :: "'k kernel" and pool :: string and Op :: "string set" where
  install: "install_chassis_chain kn pool s = (r, s') \<Longrightarrow> underlay_step io kn pool Op s Op s'"
| provision: "provision_for_network io kn n s = (r, s') \<Longrightarrow> underlay_step io kn pool Op s (after_provision r n Op) s'"
| teardown: "teardown_for_network io kn n s = (r, s') \<Longrightarrow> underlay_step io kn pool Op s Op s'"
| reconcile: "on_k (reconcile_destination_acl kn n services) s = (r, s') \<Longrightarrow> underlay_step io kn pool Op s (after_acl r n Op) s'"

lemma on_k_Inr: "on_k m s = (Inr x, s') \<longleftrightarrow> (\<exists>k'. m (ch_kernel s) = (Inr x, k') \<and> s' = s\<lparr>ch_kernel := k'\<rparr>)"
  by (auto simp: on_k_def split: prod.splits)

lemma provision_keeps_inv:
  assumes ok: "iptables_ok kn fw valid" and fr: "fw_frame kn fw" and inv: "inv_k Op fw (ch_kernel s)"
    and run: "provision_for_network io kn n s = (r, s')"
  shows "inv_k (after_provision r n Op) fw (ch_kernel s')"
proof -
  have inv': "inv_k Op fw (ch_kernel s')" by (rule stableD[OF provision_stable[OF ok fr] inv run])
  show ?thesis
  proof (cases "\<exists>ips. r = Inr (Some ips)")
    case True
    then obtain ips where r: "r = Inr (Some ips)" by blast
    show ?thesis
      using host_inv_close[OF inv' provision_links(2)[OF ok run[unfolded r]]] by (simp add: r after_provision_def)
  next
    case False
    then have "after_provision r n Op = Op" by (auto simp: after_provision_def split: sum.splits option.splits)
    then show ?thesis using inv' by simp
  qed
qed

lemma step_keeps_inv:
  assumes ok: "iptables_ok kn fw valid" and fr: "fw_frame kn fw" and step: "underlay_step io kn pool Op s Op' s'"
    and inv: "inv_k Op fw (ch_kernel s)"
  shows "inv_k Op' fw (ch_kernel s')"
  using step
proof cases
  case (install r)
  show ?thesis unfolding install(1) by (rule stableD[OF install_stable[OF ok] inv install(2)])
next
  case (provision n r)
  show ?thesis unfolding provision(1) by (rule provision_keeps_inv[OF ok fr inv provision(2)])
next
  case (teardown n r)
  show ?thesis unfolding teardown(1) by (rule stableD[OF teardown_stable[OF ok fr] inv teardown(2)])
next
  case (reconcile n services r)
  obtain k' where "reconcile_destination_acl kn n services (ch_kernel s) = (r, k')" "ch_kernel s' = k'"
    using reconcile(2) by (auto simp: on_k_def split: prod.splits)
  then show ?thesis unfolding reconcile(1) using reconcile_keeps_inv[OF ok inv] by simp
qed

text \<open>A chassis without the chain; the start of the agent installs it.\<close>

inductive underlay_reach :: "('k \<Rightarrow> string option \<Rightarrow> ruleset) \<Rightarrow> fs \<Rightarrow> 'k kernel \<Rightarrow> string \<Rightarrow> string set \<Rightarrow> 'k chassis \<Rightarrow> bool"
  for fw :: "'k \<Rightarrow> string option \<Rightarrow> ruleset" and io :: fs and kn :: "'k kernel" and pool :: string where
  start: "chain_rules (fw (ch_kernel s) None) ''filter'' UNDERLAY_HOST_CHAIN = None \<Longrightarrow>
    install_chassis_chain kn pool s = (Inr (), s') \<Longrightarrow> underlay_reach fw io kn pool {} s'"
| step: "underlay_reach fw io kn pool Op s \<Longrightarrow> underlay_step io kn pool Op s Op' s' \<Longrightarrow> underlay_reach fw io kn pool Op' s'"

lemma ensure_rule_returned:
  assumes ok: "iptables_ok kn fw valid" and run: "ensure_rule kn ''filter'' c r None k = (Inr (), k')"
    and c: "rules_of fw k c = Some rs"
  shows "rules_of fw k' = (rules_of fw k)(c := Some (if r \<in> set rs then rs else rs @ [r]))"
  using ok by (cases rule: ensure_rule_rules[of kn fw valid c r k]) (use run c in \<open>auto simp: fun_upd_idem\<close>)

lemma ensure_rule_returned_other:
  assumes ok: "iptables_ok kn fw valid" and run: "ensure_rule kn ''filter'' c r None k = (Inr (), k')" and d: "d \<noteq> c"
  shows "rules_of fw k' d = rules_of fw k d"
  using ok by (cases rule: ensure_rule_rules[of kn fw valid c r k]) (use run d in auto)

lemma install_fresh:
  assumes ok: "iptables_ok kn fw valid" and fresh: "rules_of fw k UNDERLAY_HOST_CHAIN = None"
    and run: "install_chassis_rules kn pool k = (Inr (), k')"
  shows "inv_k Op fw k'"
proof -
  obtain k1 where k1: "ensure_chain kn UNDERLAY_HOST_CHAIN ''filter'' None k = (Inr (), k1)"
      "rules_of fw k1 = (rules_of fw k)(UNDERLAY_HOST_CHAIN := Some (case rules_of fw k UNDERLAY_HOST_CHAIN of None \<Rightarrow> [] | Some rs \<Rightarrow> rs))"
    by (rule ensure_chain_rules[OF ok])
  from run k1(1) obtain k2 k3 k4 k5 where
      k2: "ensure_rule kn ''filter'' ''FORWARD'' [''-j'', UNDERLAY_HOST_CHAIN] None k1 = (Inr (), k2)"
    and k3: "ensure_rule kn ''filter'' ''INPUT'' [''-i'', UNDERLAY_VETH_PREFIX @ ''+'', ''-j'', UNDERLAY_HOST_CHAIN] None k2 = (Inr (), k3)"
    and k4: "ensure_rule kn ''filter'' UNDERLAY_HOST_CHAIN established_rule None k3 = (Inr (), k4)"
    and k5: "ensure_rule kn ''filter'' UNDERLAY_HOST_CHAIN cross_tenant_rule None k4 = (Inr (), k5)"
    and k6: "ensure_rule kn ''nat'' ''POSTROUTING''
       [''-s'', pool, ''!'', ''-o'', UNDERLAY_VETH_PREFIX @ ''+'', ''-j'', ''MASQUERADE''] None k5 = (Inr (), k')"
    unfolding install_chassis_rules_def by (elim andthen_cases) simp_all
  have "rules_of fw k3 UNDERLAY_HOST_CHAIN = Some []"
    using ensure_rule_returned_other[OF ok k3] ensure_rule_returned_other[OF ok k2] k1(2) fresh
    by (simp add: per_net_chain_distinct)
  from ensure_rule_returned[OF ok k4 this] have "rules_of fw k4 UNDERLAY_HOST_CHAIN = Some [established_rule]" by simp
  from ensure_rule_returned[OF ok k5 this] have "rules_of fw k5 UNDERLAY_HOST_CHAIN = Some [established_rule, cross_tenant_rule]"
    by (simp add: established_rule_def cross_tenant_rule_def)
  moreover have "rules_of fw k' = rules_of fw k5"
    using keepsD[OF ensure_rule_elsewhere[OF ok] k6] by simp
  ultimately show ?thesis unfolding host_inv_def by simp
qed

lemma reach_inv:
  assumes ok: "iptables_ok kn fw valid" and fr: "fw_frame kn fw" and reach: "underlay_reach fw io kn pool Op s"
  shows "inv_k Op fw (ch_kernel s)"
  using reach
proof induction
  case (start s s')
  obtain s1 where s1: "on_k (install_chassis_rules kn pool) s = (Inr (), s1)" "ch_kernel s' = ch_kernel s1"
    using start(2) unfolding install_chassis_chain_def by (elim andthen_cases) auto
  have "rules_of fw (ch_kernel s) UNDERLAY_HOST_CHAIN = None" using start(1) by (simp add: rules_of_def)
  then show ?case using install_fresh[OF ok] s1 by (auto simp: on_k_Inr)
next
  case (step Op s Op' s')
  show ?case by (rule step_keeps_inv[OF ok fr step(2,3)])
qed

section \<open>Packets\<close>

lemma match_established: "rule_matches established_rule p \<longleftrightarrow> pk_ctstate p \<in> {''ESTABLISHED'', ''RELATED''}"
  by (simp add: established_rule_def)

lemma match_cross: "rule_matches cross_tenant_rule p \<longleftrightarrow>
  startswith (pk_in p) UNDERLAY_VETH_PREFIX \<and> startswith (pk_out p) UNDERLAY_VETH_PREFIX"
  by (simp add: cross_tenant_rule_def iface_match_def endswith_def startswith_def const_defs)

lemma match_jump: "rule_matches (jump_rule n) p \<longleftrightarrow> pk_in p = fst (underlay_veth_names n)"
  by (auto simp: jump_rule_def iface_match_def underlay_veth_names_def Let_def endswith_def startswith_def const_defs)

lemma match_drop: "rule_matches drop_rule p"
  by (simp add: drop_rule_def)

lemma match_accept: "rule_matches (accept_rule (proto, addr, port)) p \<longleftrightarrow>
  pk_dst p = addr \<and> pk_proto p = proto \<and> pk_dport p = str_int port \<and> pk_ctstate p = ''NEW''"
  by (auto simp: accept_rule_def)

lemma jump_targets: "jump_of established_rule = Some ''ACCEPT''" "jump_of cross_tenant_rule = Some ''DROP''"
    "jump_of (jump_rule n) = Some (per_net_chain_name n)" "jump_of drop_rule = Some ''DROP''"
    "jump_of (accept_rule ep) = Some ''ACCEPT''"
  by (simp_all add: jump_of_def established_rule_def cross_tenant_rule_def jump_rule_def drop_rule_def accept_rule_def split: prod.split)

lemma root_veth_eq: "fst (underlay_veth_names m) = fst (underlay_veth_names n) \<longleftrightarrow> per_net_chain_name m = per_net_chain_name n"
  by (simp add: underlay_veth_names_def per_net_chain_name_def Let_def)

lemma root_veth_prefix: "startswith (fst (underlay_veth_names n)) UNDERLAY_VETH_PREFIX"
  by (simp add: underlay_veth_names_def Let_def startswith_def)

text \<open>A chain that holds a DROP decides every packet.\<close>

lemma walk_decides:
  assumes "drop_rule \<in> set rs"
  shows "walk fuel T rs p \<noteq> Fallthrough"
proof -
  obtain xs ys where "rs = xs @ drop_rule # ys" using split_list[OF assms] by blast
  then show ?thesis by (simp add: walk_append match_drop jump_targets split: verdict.split)
qed

lemma walk_whitelist: "pk_ctstate p = ''NEW'' \<Longrightarrow> walk fuel T (map accept_rule eps @ [drop_rule]) p =
  (if \<exists>port. (pk_proto p, pk_dst p, port) \<in> set eps \<and> pk_dport p = str_int port then Accepted else Dropped)"
proof (induction eps)
  case Nil
  then show ?case by (simp add: match_drop jump_targets)
next
  case (Cons ep eps)
  then show ?case by (cases ep) (auto simp: match_accept jump_targets)
qed

lemma walk_jumps:
  assumes "\<forall>j \<in> set js. \<exists>m. j = jump_rule m" "jump_rule n \<in> set js" "pk_in p = fst (underlay_veth_names n)"
    and rs: "chain_rules T ''filter'' (per_net_chain_name n) = Some rs" "walk fuel T rs p \<noteq> Fallthrough"
  shows "walk (Suc fuel) T js p = walk fuel T rs p"
  using assms(1,2)
proof (induction js)
  case (Cons j js)
  obtain m where m: "j = jump_rule m" using Cons.prems(1) by auto
  show ?case
  proof (cases "per_net_chain_name m = per_net_chain_name n")
    case True
    then have "rule_matches j p" "jump_of j = Some (per_net_chain_name n)"
      using m assms(3) by (simp_all add: match_jump jump_targets root_veth_eq)
    then show ?thesis using rs by (simp add: per_net_chain_distinct split: verdict.splits)
  next
    case False
    then have "\<not> rule_matches j p" using m assms(3) by (simp add: match_jump root_veth_eq eq_commute)
    moreover have "jump_rule n \<in> set js" using Cons.prems(2) False m jump_rule_eq_iff by auto
    ultimately show ?thesis using Cons by simp
  qed
qed simp

text \<open>The verdict of the chassis-wide chain on a new flow that enters from the veth of a network.\<close>

lemma host_chain_verdict:
  assumes inv: "host_inv Op (chain_rules T ''filter'')" and hrs: "chain_rules T ''filter'' UNDERLAY_HOST_CHAIN = Some hrs"
    and j: "jump_rule n \<in> set hrs" "per_net_chain_name n \<notin> Op" and p: "pk_in p = fst (underlay_veth_names n)" "pk_ctstate p = ''NEW''"
  obtains rs where "chain_rules T ''filter'' (per_net_chain_name n) = Some rs" "drop_rule \<in> set rs"
    "walk (Suc fuel) T hrs p = (if startswith (pk_out p) UNDERLAY_VETH_PREFIX then Dropped else walk fuel T rs p)"
proof -
  obtain js where js: "hrs = established_rule # cross_tenant_rule # js"
      "\<forall>j \<in> set js. \<exists>n. j = jump_rule n \<and> guarded Op (chain_rules T ''filter'') n"
    using inv hrs unfolding host_inv_def by auto
  have jn: "jump_rule n \<in> set js" using j(1) js(1) by (simp add: jump_rule_distinct)
  then obtain m where m: "jump_rule n = jump_rule m" "guarded Op (chain_rules T ''filter'') m" using js(2) by blast
  then obtain rs where rs: "chain_rules T ''filter'' (per_net_chain_name n) = Some rs" "drop_rule \<in> set rs"
    using j(2) by (auto simp: guarded_def jump_rule_eq_iff)
  have "walk (Suc fuel) T js p = walk fuel T rs p"
    by (rule walk_jumps[OF _ jn p(1) rs(1) walk_decides[OF rs(2)]]) (use js(2) in blast)
  then have "walk (Suc fuel) T hrs p = (if startswith (pk_out p) UNDERLAY_VETH_PREFIX then Dropped else walk fuel T rs p)"
    using p by (simp add: js(1) match_established match_cross jump_targets root_veth_prefix)
  then show ?thesis using that rs by blast
qed

section \<open>An instance in memory\<close>

text \<open>A machine that holds only rule sets; every namespace exists, no device does.\<close>

type_synonym fw_mem = "string option \<Rightarrow> ruleset"

definition ipt_exec :: "(rule \<Rightarrow> bool) \<Rightarrow> string option \<Rightarrow> string list \<Rightarrow> (fw_mem, unit) act" where
  "ipt_exec valid ns cmd k =
     (case cmd of
        prog # t # table # args \<Rightarrow>
          if prog = ''iptables'' \<and> t = ''-t'' then
            (case ipt_run valid table args (k ns) of
               None \<Rightarrow> (Inl (Foreign ''ProcessExecutionError''), k)
             | Some T \<Rightarrow> (Inr (), k(ns := T)))
          else (Inr (), k)
      | _ \<Rightarrow> (Inr (), k))"

definition fw_kn :: "(rule \<Rightarrow> bool) \<Rightarrow> fw_mem kernel" where
  "fw_kn valid =
     \<lparr>k_ns_exists = (\<lambda>_. ret True), k_list_ns = ret [], k_gc_ns = (\<lambda>_. ret ()),
      k_device_exists = (\<lambda>_. ret False), k_add_veth = (\<lambda>_ _. ret ()), k_del_veth = (\<lambda>_. ret ()), k_link_delete = (\<lambda>_. ret ()),
      k_set_address = (\<lambda>_ _. ret ()), k_set_mtu = (\<lambda>_ _. ret ()), k_set_up = (\<lambda>_. ret ()),
      k_addr_list = (\<lambda>_. ret []), k_addr_add = (\<lambda>_ _. ret ()), k_addr_add_multiple = (\<lambda>_ _. ret ()),
      k_addr_delete_multiple = (\<lambda>_ _. ret ()), k_exec = ipt_exec valid, k_ovs_add_port = (\<lambda>_ _. ret ()),
      k_ovs_set_iface_id = (\<lambda>_ _. ret ()), k_ovs_del_port = (\<lambda>_. ret ())\<rparr>"

lemma fw_kn_ok: "iptables_ok (fw_kn valid) (\<lambda>k. k) valid"
  by (auto simp: iptables_ok_def fw_kn_def ipt_exec_def split: option.splits)

lemma fw_kn_frame: "fw_frame (fw_kn valid) (\<lambda>k. k)"
  by (auto simp: fw_frame_def fw_kn_def keeps_def ipt_exec_def split: list.splits)

definition builtin_chains :: fw_mem where
  "builtin_chains ns = [((''filter'', ''FORWARD''), []), ((''filter'', ''INPUT''), []), ((''nat'', ''POSTROUTING''), [])]"

definition chassis0 :: "fw_mem chassis" where
  "chassis0 = \<lparr>ch_kernel = builtin_chains, ch_alloc = pool22, ch_installed = False\<rparr>"

lemma fw_kn_sel: "k_exec (fw_kn v) = ipt_exec v" "k_ns_exists (fw_kn v) n = ret True" "k_device_exists (fw_kn v) d = ret False"
   "k_add_veth (fw_kn v) a b = ret ()" "k_set_up (fw_kn v) d = ret ()" "k_addr_list (fw_kn v) d = ret []" "k_addr_add (fw_kn v) d c = ret ()"
  by (simp_all add: fw_kn_def)

lemmas fw_kn_runs = andthen_def doif_def bnd_def attempt_def ret_def swallow_def raise_def fw_kn_sel ipt_exec_def ipt_run_def
  chain_rules_def set_chain_def ensure_chain_def ensure_rule_def iptables_chain_exists_def const_defs
  established_rule_def cross_tenant_rule_def

definition installed_chains :: ruleset where
  "installed_chains =
     [((''filter'', ''FORWARD''), [[''-j'', UNDERLAY_HOST_CHAIN]]),
      ((''filter'', ''INPUT''), [[''-i'', ''nls+'', ''-j'', UNDERLAY_HOST_CHAIN]]),
      ((''nat'', ''POSTROUTING''), [[''-s'', ''100.64.0.0/22'', ''!'', ''-o'', ''nls+'', ''-j'', ''MASQUERADE'']]),
      ((''filter'', UNDERLAY_HOST_CHAIN), [established_rule, cross_tenant_rule])]"

lemma install_at: "install_chassis_rules (fw_kn (\<lambda>_. True)) ''100.64.0.0/22'' builtin_chains = (Inr (), builtin_chains(None := installed_chains))"
  by (simp add: install_chassis_rules_def fw_kn_runs builtin_chains_def installed_chains_def)

definition chassis1 :: "fw_mem chassis" where
  "chassis1 = \<lparr>ch_kernel = builtin_chains(None := installed_chains), ch_alloc = pool22, ch_installed = True\<rparr>"

lemma chassis1_reach: "underlay_reach (\<lambda>k. k) fs_ok (fw_kn (\<lambda>_. True)) ''100.64.0.0/22'' {} chassis1"
proof (rule underlay_reach.start)
  show "chain_rules (ch_kernel chassis0 None) ''filter'' UNDERLAY_HOST_CHAIN = None"
    by (simp add: chassis0_def builtin_chains_def chain_rules_def const_defs)
  show "install_chassis_chain (fw_kn (\<lambda>_. True)) ''100.64.0.0/22'' chassis0 = (Inr (), chassis1)"
    using install_at by (simp add: install_chassis_chain_def chassis0_def chassis1_def on_k_def andthen_def bnd_def)
qed

lemma provision_at: "\<exists>k'. provision_kernel (fw_kn (\<lambda>_. True)) ''net-b'' ips (builtin_chains(None := installed_chains)) = (Inr (), k')"
  by (simp add: provision_kernel_def ensure_underlay_veth_def ensure_addr_def ensure_default_route_def set_rp_filter_def
      install_in_netns_forward_def jump_rule_def fw_kn_runs builtin_chains_def installed_chains_def underlay_veth_names_def per_net_chain_name_def Let_def)

lemma provision_net_b: "\<exists>ips s1. provision_for_network fs_ok (fw_kn (\<lambda>_. True)) ''net-b'' chassis1 = (Inr (Some ips), s1)"
proof -
  have a: "allocate fs_ok ''net-b'' pool22 = (Inr 2, pool22)" by (simp add: allocate_def pool22_def)
  then obtain ips where ips: "addresses fs_ok ''net-b'' pool22 = (Inr ips, pool22)"
    by (simp add: addresses_def ipv4_text_def pool22_def)
  obtain k' where "provision_kernel (fw_kn (\<lambda>_. True)) ''net-b'' ips (builtin_chains(None := installed_chains)) = (Inr (), k')"
    using provision_at by blast
  then show ?thesis
    using ips by (simp add: provision_for_network_def chassis1_def on_k_def on_alloc_def andthen_def bnd_def fw_kn_sel)
qed

definition dns_service :: service_dict where
  "dns_service =
     \<lparr>sd_id = Some ''s'', sd_project_id = None, sd_name = Some ''dns'', sd_description = None,
      sd_local_ipv4 = Some ''169.254.1.1'', sd_local_ipv6 = None, sd_protocol = Some ''UDP'', sd_port = Some 53,
      sd_attachment_policy = None, sd_distribution_policy = None, sd_exposure_plugin = None, sd_health_check_type = None,
      sd_health_check_config = None, sd_enabled = Some True,
      sd_backends = Some [\<lparr>bd_id = None, bd_service_id = None, bd_name = None, bd_availability_zone = None, bd_weight = None,
        bd_address = Some ''10.0.0.5'', bd_port = Some 53, bd_health_check_address = None, bd_health_check_port = None, bd_enabled = None\<rparr>]\<rparr>"

lemma lower_UDP: "lower ''UDP'' = ''udp''"
  by code_simp

lemma dns_endpoints: "backend_endpoints [dns_service] = Inr [(''udp'', ''10.0.0.5'', 53)]"
  by (simp add: backend_endpoints_def service_rows_def service_protos_def backend_rows_def dns_service_def or_str_def or_int_def Let_def lower_UDP)

definition packet_to :: "string \<Rightarrow> packet" where
  "packet_to dst = \<lparr>pk_in = fst (underlay_veth_names ''net-b''), pk_out = ''eth0'', pk_proto = ''udp'', pk_dst = dst,
     pk_dport = str_int 53, pk_ctstate = ''NEW''\<rparr>"

text \<open>The verdict on a new flow from a linked network, right after its destination ACL was reconciled.\<close>

lemma acl_verdict:
  assumes ok: "iptables_ok kn fw valid" and inv0: "inv_k Op fw k" and hrs: "rules_of fw k UNDERLAY_HOST_CHAIN = Some hrs" "jump_rule n \<in> set hrs"
    and acl: "reconcile_destination_acl kn n services k = (Inr (), k')"
    and eps: "backend_endpoints services = Inr eps"
    and p: "pk_in p = fst (underlay_veth_names n)" "pk_ctstate p = ''NEW''"
  shows "chain_rules (fw k' None) ''filter'' UNDERLAY_HOST_CHAIN = Some hrs
    \<and> walk (Suc fuel) (fw k' None) hrs p =
        (if \<not> startswith (pk_out p) UNDERLAY_VETH_PREFIX
            \<and> (\<exists>port. (pk_proto p, pk_dst p, port) \<in> set eps \<and> pk_dport p = str_int port)
         then Accepted else Dropped)"
proof -
  have "inv_k (after_acl (Inr ()) n Op) fw k'" by (rule reconcile_keeps_inv[OF ok inv0 acl])
  then have inv: "host_inv (Op - {per_net_chain_name n}) (chain_rules (fw k' None) ''filter'')"
    by (simp add: rules_of_def[abs_def] after_acl_def)
  obtain eps' where "backend_endpoints services = Inr eps'"
    "rules_of fw k' = (rules_of fw k)(per_net_chain_name n := Some (map accept_rule (sort (remdups eps')) @ [drop_rule]))"
    by (rule reconcile_rules[OF ok acl])
  then have R: "rules_of fw k' = (rules_of fw k)(per_net_chain_name n := Some (map accept_rule (sort (remdups eps)) @ [drop_rule]))"
    using eps by simp
  have h: "chain_rules (fw k' None) ''filter'' UNDERLAY_HOST_CHAIN = Some hrs"
    using R hrs(1) by (simp add: rules_of_def fun_eq_iff per_net_chain_distinct)
  have c: "chain_rules (fw k' None) ''filter'' (per_net_chain_name n) = Some (map accept_rule (sort (remdups eps)) @ [drop_rule])"
    using R by (simp add: rules_of_def fun_eq_iff)
  have "walk (Suc fuel) (fw k' None) hrs p =
        (if \<not> startswith (pk_out p) UNDERLAY_VETH_PREFIX
            \<and> (\<exists>port. (pk_proto p, pk_dst p, port) \<in> set eps \<and> pk_dport p = str_int port)
         then Accepted else Dropped)"
    by (rule host_chain_verdict[OF inv h hrs(2) _ p, of fuel]) (use h c p(2) in \<open>simp_all add: walk_whitelist\<close>)
  with h show ?thesis by blast
qed

section \<open>Properties\<close>

text \<open>
  Egress whitelist. On a chassis in any state the underlay can reach, once a network has been
  provisioned and its destination ACL reconciled (both returned), a new flow from the network's
  underlay veth that the chassis-wide chain sees is accepted exactly when it leaves the chassis (not
  through another network's underlay veth) towards an endpoint the services of the network
  list, protocol, address and port; every other flow is dropped there, none falls through.
\<close>

theorem egress_whitelist:
  assumes "iptables_ok kn fw valid" "fw_frame kn fw" "underlay_reach fw io kn pool Op s"
    and prov: "provision_for_network io kn n s = (Inr (Some ips), s1)"
    and acl: "reconcile_destination_acl kn n services (ch_kernel s1) = (Inr (), k')"
    and eps: "backend_endpoints services = Inr eps"
    and p: "pk_in p = fst (underlay_veth_names n)" "pk_ctstate p = ''NEW''"
  shows "\<exists>hrs. chain_rules (fw k' None) ''filter'' UNDERLAY_HOST_CHAIN = Some hrs
    \<and> walk (Suc fuel) (fw k' None) hrs p =
        (if \<not> startswith (pk_out p) UNDERLAY_VETH_PREFIX
            \<and> (\<exists>port. (pk_proto p, pk_dst p, port) \<in> set eps \<and> pk_dport p = str_int port)
         then Accepted else Dropped)"
proof -
  have "inv_k (after_provision (Inr (Some ips)) n Op) fw (ch_kernel s1)"
    by (rule reach_inv[OF assms(1,2) underlay_reach.step[OF assms(3) underlay_step.provision[OF prov]]])
  moreover obtain hrs where "rules_of fw (ch_kernel s1) UNDERLAY_HOST_CHAIN = Some hrs" "jump_rule n \<in> set hrs"
    using provision_links(1)[OF assms(1) prov] by blast
  ultimately show ?thesis using acl_verdict[OF assms(1) _ _ _ acl eps p] by blast
qed

theorem egress_whitelist_witness:
  "\<exists>ips s1 k' hrs. provision_for_network fs_ok (fw_kn (\<lambda>_. True)) ''net-b'' chassis1 = (Inr (Some ips), s1)
     \<and> reconcile_destination_acl (fw_kn (\<lambda>_. True)) ''net-b'' [dns_service] (ch_kernel s1) = (Inr (), k')
     \<and> chain_rules (k' None) ''filter'' UNDERLAY_HOST_CHAIN = Some hrs
     \<and> walk 1 (k' None) hrs (packet_to ''10.0.0.5'') = Accepted"
proof -
  obtain ips s1 where prov: "provision_for_network fs_ok (fw_kn (\<lambda>_. True)) ''net-b'' chassis1 = (Inr (Some ips), s1)"
    using provision_net_b by blast
  obtain k' where acl: "reconcile_destination_acl (fw_kn (\<lambda>_. True)) ''net-b'' [dns_service] (ch_kernel s1) = (Inr (), k')"
    by (rule acl_run[OF fw_kn_ok dns_endpoints refl, of "\<lambda>_. True" "''net-b''" "ch_kernel s1"]) simp
  have "\<exists>hrs. chain_rules (k' None) ''filter'' UNDERLAY_HOST_CHAIN = Some hrs \<and> walk (Suc 0) (k' None) hrs (packet_to ''10.0.0.5'') = Accepted"
    using egress_whitelist[OF fw_kn_ok fw_kn_frame chassis1_reach prov acl dns_endpoints, of "packet_to ''10.0.0.5''" 0]
    by (simp add: packet_to_def startswith_def const_defs)
  then show ?thesis using prov acl by auto
qed

text \<open>
  C19. Tenants are isolated from each other. In every state the underlay can reach once its chassis-wide chain is installed,
  whatever operations raised on the way, a new flow from the underlay veth of any network, provisioned or not, to an
  underlay veth is dropped by the chassis-wide chain. And a network the chain has a jump for has no flow the chain leaves
  undecided, unless its own chain is open: the last reconcile of its destination ACL raised and no reconcile or
  provisioning of the network has returned since. A failure for one network opens no other.
\<close>

theorem tenants_isolated:
  assumes "iptables_ok kn fw valid" "fw_frame kn fw" "underlay_reach fw io kn pool Op s"
    and p: "pk_in p = fst (underlay_veth_names n)" "pk_ctstate p = ''NEW''"
  shows "\<exists>hrs. chain_rules (fw (ch_kernel s) None) ''filter'' UNDERLAY_HOST_CHAIN = Some hrs
    \<and> (startswith (pk_out p) UNDERLAY_VETH_PREFIX \<longrightarrow> walk (Suc fuel) (fw (ch_kernel s) None) hrs p = Dropped)
    \<and> (jump_rule n \<in> set hrs \<and> per_net_chain_name n \<notin> Op \<longrightarrow> walk (Suc fuel) (fw (ch_kernel s) None) hrs p \<noteq> Fallthrough)"
proof -
  have inv: "host_inv Op (chain_rules (fw (ch_kernel s) None) ''filter'')"
    using reach_inv[OF assms(1-3)] by (simp add: rules_of_def[abs_def])
  then obtain js where js: "chain_rules (fw (ch_kernel s) None) ''filter'' UNDERLAY_HOST_CHAIN = Some (established_rule # cross_tenant_rule # js)"
    unfolding host_inv_def by blast
  let ?hrs = "established_rule # cross_tenant_rule # js"
  have "walk (Suc fuel) (fw (ch_kernel s) None) ?hrs p \<noteq> Fallthrough" if j: "jump_rule n \<in> set ?hrs" "per_net_chain_name n \<notin> Op"
    by (rule host_chain_verdict[OF inv js j p, of fuel]) (simp add: walk_decides)
  moreover have "startswith (pk_out p) UNDERLAY_VETH_PREFIX \<longrightarrow> walk (Suc fuel) (fw (ch_kernel s) None) ?hrs p = Dropped"
    using p by (simp add: match_established match_cross jump_targets root_veth_prefix)
  ultimately show ?thesis using js by blast
qed

text \<open>
  The witness is a state after a failure: a kernel that accepts no rule for a port with the address of the backend, on which the
  reconcile of the network raises, so that its chain is open.
\<close>

lemma failed_acl_reach:
  "\<exists>s. underlay_reach (\<lambda>k. k) fs_ok (fw_kn (\<lambda>r. ''10.0.0.5'' \<notin> set r)) ''100.64.0.0/22'' {per_net_chain_name ''net-b''} s"
proof -
  let ?kn = "fw_kn (\<lambda>r. ''10.0.0.5'' \<notin> set r)"
  have "install_chassis_rules ?kn ''100.64.0.0/22'' builtin_chains = (Inr (), builtin_chains(None := installed_chains))"
    by (simp add: install_chassis_rules_def fw_kn_runs builtin_chains_def installed_chains_def)
  then have "install_chassis_chain ?kn ''100.64.0.0/22'' chassis0 = (Inr (), chassis1)"
    by (simp add: install_chassis_chain_def chassis0_def chassis1_def on_k_def andthen_def bnd_def)
  moreover have "chain_rules (ch_kernel chassis0 None) ''filter'' UNDERLAY_HOST_CHAIN = None"
    by (simp add: chassis0_def builtin_chains_def chain_rules_def const_defs)
  ultimately have reach: "underlay_reach (\<lambda>k. k) fs_ok ?kn ''100.64.0.0/22'' {} chassis1"
    by (intro underlay_reach.start[of "\<lambda>k. k" chassis0])
  obtain x k' where acl: "reconcile_destination_acl ?kn ''net-b'' [dns_service] (ch_kernel chassis1) = (x, k')"
      "x = Inr () \<longleftrightarrow> (\<forall>ep \<in> set [(''udp'', ''10.0.0.5'', 53)]. ''10.0.0.5'' \<notin> set (accept_rule ep)) \<and> ''10.0.0.5'' \<notin> set drop_rule"
    by (rule acl_run[OF fw_kn_ok dns_endpoints refl])
  then obtain e where e: "x = Inl e" by (cases x) (auto simp: accept_rule_def)
  have "on_k (reconcile_destination_acl ?kn ''net-b'' [dns_service]) chassis1 = (Inl e, chassis1\<lparr>ch_kernel := k'\<rparr>)"
    using acl(1) e by (simp add: on_k_def)
  from underlay_reach.step[OF reach underlay_step.reconcile[OF this]] show ?thesis
    by (auto simp: after_acl_def)
qed

theorem tenants_isolated_witness:
  "\<exists>s hrs. underlay_reach (\<lambda>k. k) fs_ok (fw_kn (\<lambda>r. ''10.0.0.5'' \<notin> set r)) ''100.64.0.0/22'' {per_net_chain_name ''net-b''} s
     \<and> chain_rules (ch_kernel s None) ''filter'' UNDERLAY_HOST_CHAIN = Some hrs
     \<and> walk 1 (ch_kernel s None) hrs (packet_to ''10.0.0.5''\<lparr>pk_out := ''nlsnet-a0''\<rparr>) = Dropped"
proof -
  obtain s where s: "underlay_reach (\<lambda>k. k) fs_ok (fw_kn (\<lambda>r. ''10.0.0.5'' \<notin> set r)) ''100.64.0.0/22'' {per_net_chain_name ''net-b''} s"
    using failed_acl_reach by blast
  from tenants_isolated[OF fw_kn_ok fw_kn_frame s, of "packet_to ''10.0.0.5''\<lparr>pk_out := ''nlsnet-a0''\<rparr>" "''net-b''" 0] s
  show ?thesis by (auto simp: packet_to_def startswith_def const_defs)
qed

text \<open>
  C20. A reconcile that raises fails open. When iptables refuses the rule of one endpoint, the
  reconcile raises after the flush and the default DROP is gone: the chain of the network holds
  only the ACCEPT rules written so far, and a new flow to any other destination falls through to
  whatever follows the chassis-wide chain.
\<close>

theorem acl_failure_open:
  assumes ok: "iptables_ok kn fw valid" and eps: "backend_endpoints services = Inr eps"
    and bad: "ep \<in> set eps" "\<not> valid (accept_rule ep)"
    and p: "\<And>port. (pk_proto p, pk_dst p, port) \<notin> set eps"
  shows "\<exists>e k' rs. reconcile_destination_acl kn n services k = (Inl e, k')
    \<and> chain_rules (fw k' None) ''filter'' (per_net_chain_name n) = Some rs \<and> drop_rule \<notin> set rs
    \<and> walk fuel (fw k' None) rs p = Fallthrough"
proof -
  obtain x k1 where k1: "reconcile_destination_acl kn n services k = (x, k1)"
    "x = Inr () \<longleftrightarrow> (\<forall>ep \<in> set eps. valid (accept_rule ep)) \<and> valid drop_rule"
    "rules_of fw k1 = (rules_of fw k)(per_net_chain_name n := Some (map accept_rule (takeWhile (\<lambda>ep. valid (accept_rule ep)) (sort (remdups eps)))
       @ (if x = Inr () then [drop_rule] else [])))"
    by (rule acl_run[OF ok eps refl])
  let ?rs = "map accept_rule (takeWhile (\<lambda>ep. valid (accept_rule ep)) (sort (remdups eps)))"
  obtain e where e: "x = Inl e" using k1(2) bad by (cases x) auto
  then have c: "chain_rules (fw k1 None) ''filter'' (per_net_chain_name n) = Some ?rs"
    using k1(3) by (simp add: rules_of_def fun_eq_iff)
  have "\<not> rule_matches (accept_rule q) p" if q: "q \<in> set eps" for q
    using p q by (cases q) (auto simp: match_accept)
  then have "\<not> rule_matches r p" if r: "r \<in> set ?rs" for r
    using r by (auto dest: set_takeWhileD)
  then have "walk fuel (fw k1 None) (?rs @ []) p = Fallthrough" by (subst walk_skip) auto
  moreover have "drop_rule \<notin> set ?rs" by (auto simp: drop_rule_def accept_rule_def)
  ultimately show ?thesis using k1(1) e c by auto
qed

theorem acl_failure_open_witness:
  "\<exists>e k' rs. reconcile_destination_acl (fw_kn (\<lambda>r. ''10.0.0.5'' \<notin> set r)) ''net-b'' [dns_service] builtin_chains = (Inl e, k')
    \<and> chain_rules (k' None) ''filter'' (per_net_chain_name ''net-b'') = Some rs \<and> drop_rule \<notin> set rs
    \<and> walk 1 (k' None) rs (packet_to ''192.0.2.1'') = Fallthrough"
  by (rule acl_failure_open[OF fw_kn_ok dns_endpoints, of "(''udp'', ''10.0.0.5'', 53)"])
    (simp_all add: accept_rule_def packet_to_def)

end
