(* ===== verification/Extension.thy ===== *)
theory Extension
  imports Plugins RegistryClient Netns Egress
begin

text \<open>
  The OVN agent extension (\<^verbatim>\<open>agent/extension.py\<close>): the cache of the last good desired state, the
  reconcile of one network, the three \<^verbatim>\<open>Port_Binding\<close> events, the periodic pass and the start-up.
  Its state is the chassis (kernel and allocator), the registry client and the cache; every
  operation composes the components of the other theories the way the source does.
\<close>

section \<open>State\<close>

text \<open>
  The allocator is built on first use from the pool and the state file; until then \<open>ch_alloc\<close> only
  carries the file. \<open>ag_now\<close> is the monotonic clock, which the environment advances.
\<close>

record ('k, 'h) agent =
  ag_chassis :: "'k chassis"
  ag_alloc_ready :: bool
  ag_client :: "'h client"
  ag_lkg_state :: "string \<rightharpoonup> service_dict list"
  ag_lkg_ts :: "string \<rightharpoonup> int"
  ag_now :: int

text \<open>What surrounds the agent: the machine, the transport, the plugins, the southbound rows, the options.\<close>

record ('k, 'h) host =
  h_kn :: "'k kernel"
  h_tr :: "'h transport"
  h_plugins :: "'k registry"
  h_port_bindings :: "('k, pb_row list) act"
  h_io :: fs
  h_oc :: ovn_const
  h_set_order :: "string list \<Rightarrow> string list"
  h_bridge :: string
  h_pool_cidr :: string

definition on_chassis :: "('k chassis, 'a) act \<Rightarrow> (('k, 'h) agent, 'a) act" where
  "on_chassis m s = (case m (ag_chassis s) of (r, c) \<Rightarrow> (r, s\<lparr>ag_chassis := c\<rparr>))"

abbreviation on_kernel :: "('k, 'a) act \<Rightarrow> (('k, 'h) agent, 'a) act" where
  "on_kernel m \<equiv> on_chassis (on_k m)"

definition on_client :: "('h client, 'a) act \<Rightarrow> (('k, 'h) agent, 'a) act" where
  "on_client m s = (case m (ag_client s) of (r, c) \<Rightarrow> (r, s\<lparr>ag_client := c\<rparr>))"

text \<open>\<^verbatim>\<open>try: ... except Exception: log\<close> around a call whose result is not used.\<close>

definition logged :: "('s, 'a) act \<Rightarrow> ('s, unit) act" where
  "logged m = swallow (bnd m (\<lambda>_. ret ()))"

section \<open>Operations\<close>

definition underlay_allocator :: "('k, 'h) host \<Rightarrow> (('k, 'h) agent, unit) act" where
  "underlay_allocator h s =
     (if ag_alloc_ready s then (Inr (), s)
      else
        (let c = ag_chassis s
         in case init (h_pool_cidr h) (al_file (ch_alloc c)) of
              Inl e \<Rightarrow> (Inl e, s)
            | Inr a \<Rightarrow> (Inr (), s\<lparr>ag_chassis := c\<lparr>ch_alloc := a\<rparr>, ag_alloc_ready := True\<rparr>)))"

definition vip_cidrs :: "service_dict list \<Rightarrow> string list" where
  "vip_cidrs services = map (\<lambda>s. the (sd_local_ipv4 s) @ ''/32'') (filter (\<lambda>s. truthy_str (sd_local_ipv4 s)) services)"

definition reconcile_vips_for_network :: "('k, 'h) host \<Rightarrow> string \<Rightarrow> (('k, 'h) agent, unit) act" where
  "reconcile_vips_for_network h network_id =
     (if network_id = [] then ret ()
      else
        bnd (attempt (bnd (on_client (desired_vips_for_network (h_set_order h) (h_tr h) network_id)) (\<lambda>d. ret (Some d)))
               (\<lambda>_. ret None)) (\<lambda>desired.
          case desired of
            None \<Rightarrow> ret ()
          | Some vips \<Rightarrow> logged (on_kernel (reconcile_vips (h_set_order h) (h_kn h) network_id vips))))"

definition staleness_seconds :: "('k, 'h) agent \<Rightarrow> string \<Rightarrow> int option" where
  "staleness_seconds s network_id =
     (case ag_lkg_ts s network_id of None \<Rightarrow> None | Some ts \<Rightarrow> Some (max 0 (ag_now s - ts)))"

definition forget_network :: "string \<Rightarrow> (('k, 'h) agent, unit) act" where
  "forget_network network_id =
     modify (\<lambda>s. s\<lparr>ag_lkg_state := (ag_lkg_state s)(network_id := None), ag_lkg_ts := (ag_lkg_ts s)(network_id := None)\<rparr>)"

definition remember :: "string \<Rightarrow> service_dict list \<Rightarrow> (('k, 'h) agent, unit) act" where
  "remember network_id services =
     modify (\<lambda>s. s\<lparr>ag_lkg_state := (ag_lkg_state s)(network_id \<mapsto> services), ag_lkg_ts := (ag_lkg_ts s)(network_id \<mapsto> ag_now s)\<rparr>)"

text \<open>The \<^verbatim>\<open>try/except/else\<close> around the fetch: the state to reconcile against, or none.\<close>

definition fetch_state :: "('k, 'h) host \<Rightarrow> string \<Rightarrow> (('k, 'h) agent, service_dict list option) act" where
  "fetch_state h network_id =
     attempt (bnd (on_client (desired_state_for_network (h_set_order h) (h_tr h) network_id)) (\<lambda>services.
                andthen (remember network_id services) (ret (Some services))))
       (\<lambda>e. if e = RegistryFetchError then gets (\<lambda>s. ag_lkg_state s network_id) else ret None)"

text \<open>What a pass does to the host once the state is known; a missing key of \<^verbatim>\<open>by_plugin\<close> would be a \<^verbatim>\<open>KeyError\<close>.\<close>

definition apply_plugin :: "string \<Rightarrow> (string \<times> service_dict list) list \<Rightarrow> 'k plugin \<Rightarrow> ('k, unit) act" where
  "apply_plugin ns_name by_plugin plugin =
     (case map_of by_plugin (pl_name plugin) of
        None \<Rightarrow> raise (KeyError (pl_name plugin))
      | Some members \<Rightarrow> pl_apply_config plugin ns_name members)"

definition dispatch :: "('k, 'h) host \<Rightarrow> string \<Rightarrow> service_dict list \<Rightarrow> ('k, unit) act" where
  "dispatch h network_id services =
     (let ns_name = NETNS_PREFIX @ network_id;
          plugins = all_plugins (h_plugins h);
          by_plugin = group_services services (map (\<lambda>p. (pl_name p, [])) plugins)
      in andthen (logged (reconcile_vips (h_set_order h) (h_kn h) network_id (vip_cidrs services)))
        (andthen (each (\<lambda>p. swallow (apply_plugin ns_name by_plugin p)) plugins)
           (swallow (reconcile_destination_acl (h_kn h) network_id services))))"

definition reconcile_network :: "('k, 'h) host \<Rightarrow> string \<Rightarrow> (('k, 'h) agent, unit) act" where
  "reconcile_network h network_id =
     (if network_id = [] then ret ()
      else
        bnd (fetch_state h network_id) (\<lambda>state.
          case state of
            None \<Rightarrow> ret ()
          | Some services \<Rightarrow> on_kernel (dispatch h network_id services)))"

subsection \<open>Events\<close>

definition provision_underlay :: "('k, 'h) host \<Rightarrow> string \<Rightarrow> (('k, 'h) agent, unit) act" where
  "provision_underlay h network_id =
     logged (andthen (underlay_allocator h) (on_chassis (provision_for_network (h_io h) (h_kn h) network_id)))"

text \<open>The create and the update handler differ in their log lines only.\<close>

definition run_create :: "('k, 'h) host \<Rightarrow> pb_row \<Rightarrow> (('k, 'h) agent, unit) act" where
  "run_create h row =
     (let network_id = network_id_from_device_id (device_id (h_oc h) row)
      in bnd (attempt (bnd (on_kernel (provision (h_set_order h) (h_oc h) (h_kn h) (h_bridge h) row)) (\<lambda>_. ret True))
                (\<lambda>_. ret False)) (\<lambda>provisioned.
           if \<not> provisioned then ret ()
           else andthen (provision_underlay h network_id) (reconcile_network h network_id)))"

definition run_update :: "('k, 'h) host \<Rightarrow> pb_row \<Rightarrow> (('k, 'h) agent, unit) act" where
  "run_update h row = run_create h row"

definition run_delete :: "('k, 'h) host \<Rightarrow> pb_row \<Rightarrow> (('k, 'h) agent, unit) act" where
  "run_delete h row =
     (let network_id = network_id_from_device_id (device_id (h_oc h) row);
          ns_name = NETNS_PREFIX @ network_id
      in andthen (each (\<lambda>p. swallow (on_kernel (pl_teardown p ns_name))) (all_plugins (h_plugins h)))
        (andthen (swallow (andthen (underlay_allocator h) (on_chassis (teardown_for_network (h_io h) (h_kn h) network_id))))
        (andthen (logged (on_kernel (teardown (h_kn h) network_id)))
           (forget_network network_id))))"

datatype row_event = RowCreate | RowUpdate | RowDelete

text \<open>\<^verbatim>\<open>match_fn\<close> in front of the handlers.\<close>

definition on_event :: "('k, 'h) host \<Rightarrow> row_event \<Rightarrow> pb_row \<Rightarrow> (('k, 'h) agent, unit) act" where
  "on_event h ev row =
     (if \<not> is_our_localport (h_oc h) row then ret ()
      else case ev of
             RowCreate \<Rightarrow> run_create h row
           | RowUpdate \<Rightarrow> run_update h row
           | RowDelete \<Rightarrow> run_delete h row)"

subsection \<open>The periodic pass and the start\<close>

definition list_managed_networks :: "('k, 'h) host \<Rightarrow> (('k, 'h) agent, string list) act" where
  "list_managed_networks h =
     attempt (bnd (on_kernel (k_list_ns (h_kn h))) (\<lambda>nss.
                ret (h_set_order h (map (drop (length NETNS_PREFIX)) (filter (\<lambda>ns. startswith ns NETNS_PREFIX) nss)))))
       (\<lambda>_. ret [])"

definition periodic_reconcile :: "('k, 'h) host \<Rightarrow> (('k, 'h) agent, unit) act" where
  "periodic_reconcile h = bnd (list_managed_networks h) (each (reconcile_network h))"

definition start :: "('k, 'h) host \<Rightarrow> (('k, 'h) agent, unit) act" where
  "start h =
     andthen (swallow (on_chassis (install_chassis_chain (h_kn h) (h_pool_cidr h))))
     (andthen (swallow (on_kernel (sync (h_set_order h) (h_oc h) (h_kn h) (h_bridge h) (h_port_bindings h))))
     (andthen (bnd (list_managed_networks h) (each (provision_underlay h)))
        (periodic_reconcile h)))"

section \<open>Lemmas\<close>

lemma returns_swallow: "returns (swallow m) ()"
  unfolding returns_def by (simp add: swallow_run)

lemma returns_logged: "returns (logged m) ()"
  unfolding logged_def by (rule returns_swallow)

lemma returns_basic: "returns (ret x) x" "returns (modify f) ()"
  by (simp_all add: returns_def)

lemma returns_each: "(\<And>x. x \<in> set xs \<Longrightarrow> returns (f x) ()) \<Longrightarrow> returns (each f xs) ()"
  by (induction xs) (auto simp: returns_basic intro: returns_andthen)

lemma returns_attempt: "(\<And>e. \<exists>y. returns (h e) y) \<Longrightarrow> \<exists>y s'. attempt m h s = (Inr y, s')"
  unfolding returns_def attempt_def by (auto split: prod.split sum.split) metis

lemma returns_lift: "returns m x \<Longrightarrow> returns (on_chassis m) x" "returns m' x \<Longrightarrow> returns (on_k m') x"
  unfolding returns_def on_chassis_def on_k_def by (metis (mono_tags, lifting) case_prod_conv)+

lemma dispatch_returns: "returns (dispatch h n services) ()"
  unfolding dispatch_def Let_def by (intro returns_andthen returns_swallow returns_logged returns_each)

text \<open>The fetch in detail: what it returns and what it leaves in the cache.\<close>

definition fetch_outcome :: "('k, 'h) host \<Rightarrow> string \<Rightarrow> ('k, 'h) agent \<Rightarrow> exc + service_dict list" where
  "fetch_outcome h n s = fst (desired_state_for_network (h_set_order h) (h_tr h) n (ag_client s))"

lemma fetch_state_run:
  obtains s' where "fetch_state h n s = (Inr (case fetch_outcome h n s of
        Inr services \<Rightarrow> Some services | Inl e \<Rightarrow> if e = RegistryFetchError then ag_lkg_state s n else None), s')"
    "ag_chassis s' = ag_chassis s" "ag_alloc_ready s' = ag_alloc_ready s"
    "ag_lkg_state s' = (case fetch_outcome h n s of Inr services \<Rightarrow> (ag_lkg_state s)(n \<mapsto> services) | Inl _ \<Rightarrow> ag_lkg_state s)"
    "ag_lkg_ts s' = (case fetch_outcome h n s of Inr services \<Rightarrow> (ag_lkg_ts s)(n \<mapsto> ag_now s) | Inl _ \<Rightarrow> ag_lkg_ts s)"
    "ag_client s' = snd (desired_state_for_network (h_set_order h) (h_tr h) n (ag_client s))"
proof -
  obtain r c where r: "desired_state_for_network (h_set_order h) (h_tr h) n (ag_client s) = (r, c)" by fastforce
  show ?thesis
  proof (cases r)
    case (Inl e)
    show ?thesis
      by (rule that[of "s\<lparr>ag_client := c\<rparr>"])
        (use r Inl in \<open>simp_all add: fetch_state_def fetch_outcome_def on_client_def bnd_def attempt_def\<close>)
  next
    case (Inr services)
    show ?thesis
      by (rule that[of "s\<lparr>ag_client := c, ag_lkg_state := (ag_lkg_state s)(n \<mapsto> services), ag_lkg_ts := (ag_lkg_ts s)(n \<mapsto> ag_now s)\<rparr>"])
        (use r Inr in \<open>simp_all add: fetch_state_def fetch_outcome_def on_client_def bnd_def attempt_def remember_def andthen_def\<close>)
  qed
qed

lemma on_kernel_run: "on_kernel m s = (fst (m (ch_kernel (ag_chassis s))), s\<lparr>ag_chassis := (ag_chassis s)\<lparr>ch_kernel := snd (m (ch_kernel (ag_chassis s)))\<rparr>\<rparr>)"
  by (simp add: on_chassis_def on_k_def split: prod.split)

lemma reconcile_network_run:
  assumes "n \<noteq> []"
  obtains s' where "reconcile_network h n s = (Inr (), s')"
    "ag_lkg_state s' = (case fetch_outcome h n s of Inr services \<Rightarrow> (ag_lkg_state s)(n \<mapsto> services) | Inl _ \<Rightarrow> ag_lkg_state s)"
    "ch_kernel (ag_chassis s') = (case (case fetch_outcome h n s of
        Inr services \<Rightarrow> Some services | Inl e \<Rightarrow> if e = RegistryFetchError then ag_lkg_state s n else None) of
          None \<Rightarrow> ch_kernel (ag_chassis s) | Some services \<Rightarrow> snd (dispatch h n services (ch_kernel (ag_chassis s))))"
    "ag_client s' = snd (desired_state_for_network (h_set_order h) (h_tr h) n (ag_client s))"
proof -
  obtain s1 where s1: "fetch_state h n s = (Inr (case fetch_outcome h n s of
        Inr services \<Rightarrow> Some services | Inl e \<Rightarrow> if e = RegistryFetchError then ag_lkg_state s n else None), s1)"
    "ag_chassis s1 = ag_chassis s"
    "ag_lkg_state s1 = (case fetch_outcome h n s of Inr services \<Rightarrow> (ag_lkg_state s)(n \<mapsto> services) | Inl _ \<Rightarrow> ag_lkg_state s)"
    "ag_client s1 = snd (desired_state_for_network (h_set_order h) (h_tr h) n (ag_client s))"
    using fetch_state_run[of h n s] by metis
  show ?thesis
  proof (cases "case fetch_outcome h n s of Inr services \<Rightarrow> Some services
      | Inl e \<Rightarrow> if e = RegistryFetchError then ag_lkg_state s n else None")
    case None
    show ?thesis by (rule that[of s1]) (use s1 None assms in \<open>simp_all add: reconcile_network_def bnd_def\<close>)
  next
    case (Some services)
    have "fst (dispatch h n services k) = Inr ()" for k
      using dispatch_returns[of h n services] unfolding returns_def by (metis fst_conv)
    then show ?thesis
      by (intro that[of "s1\<lparr>ag_chassis := (ag_chassis s1)\<lparr>ch_kernel := snd (dispatch h n services (ch_kernel (ag_chassis s1)))\<rparr>\<rparr>"])
        (use s1 Some assms in \<open>simp_all add: reconcile_network_def bnd_def on_kernel_run\<close>)
  qed
qed

section \<open>Addresses\<close>

text \<open>The plugins and the commands the agent executes leave the addresses of the devices alone.\<close>

definition plugins_frame :: "('k, 'h) host \<Rightarrow> ('k \<Rightarrow> device \<Rightarrow> string set) \<Rightarrow> bool" where
  "plugins_frame h addrs \<longleftrightarrow>
     (\<forall>p \<in> set (all_plugins (h_plugins h)). \<forall>ns svcs. keeps addrs (pl_apply_config p ns svcs))
     \<and> (\<forall>ns cmd. keeps addrs (k_exec (h_kn h) ns cmd))"

text \<open>The VIPs on the veth of a network are those of its cached state, if it has one.\<close>

definition vips_in_place :: "('k \<Rightarrow> device \<Rightarrow> string set) \<Rightarrow> string \<Rightarrow> service_dict list \<Rightarrow> 'k \<Rightarrow> bool" where
  "vips_in_place addrs n services k \<longleftrightarrow>
     {c \<in> addrs k (Some (netns_name n), snd (veth_names n)). is_vip_cidr c} = {c \<in> set (vip_cidrs services). is_vip_cidr c}"

lemma acl_keeps_addrs:
  assumes "\<And>ns cmd. keeps addrs (k_exec kn ns cmd)"
  shows "keeps addrs (reconcile_destination_acl kn n services)"
proof -
  have "keeps addrs (lift_result r)" for r :: "exc + (string \<times> string \<times> int) list"
    by (cases r) (simp_all add: lift_result_def keeps_basic)
  then show ?thesis
    unfolding reconcile_destination_acl_def ensure_chain_def iptables_chain_exists_def Let_def exec_at_eq
    by (intro keeps_intros assms)
qed

lemma map_of_const: "p \<in> set ps \<Longrightarrow> map_of (map (\<lambda>p. (f p, c)) ps) (f p) = Some c"
  by (induction ps) auto

text \<open>The slice of a loaded plugin: the services that name it, in their order.\<close>

lemma plugin_slice: "p \<in> set (all_plugins reg) \<Longrightarrow>
  apply_plugin ns (group_services services (map (\<lambda>p. (pl_name p, [])) (all_plugins reg))) p =
    pl_apply_config p ns (filter (\<lambda>s. plugin_of s = pl_name p) services)"
  by (simp add: apply_plugin_def group_services_lookup map_of_const)

lemma dispatch_rest_keeps:
  assumes "plugins_frame h addrs"
  shows "keeps addrs (andthen (each (\<lambda>p. swallow (apply_plugin ns (group_services services (map (\<lambda>p. (pl_name p, [])) (all_plugins (h_plugins h)))) p)) (all_plugins (h_plugins h)))
           (swallow (reconcile_destination_acl (h_kn h) n services)))"
  by (intro keeps_intros acl_keeps_addrs) (use assms in \<open>simp_all add: plugin_slice plugins_frame_def\<close>)

text \<open>The addresses after a pass are those after its VIP reconcile.\<close>

lemma dispatch_addrs:
  assumes "plugins_frame h addrs"
  shows "addrs (snd (dispatch h n services k)) = addrs (snd (reconcile_vips (h_set_order h) (h_kn h) n (vip_cidrs services) k))"
proof -
  obtain r k1 where r: "reconcile_vips (h_set_order h) (h_kn h) n (vip_cidrs services) k = (r, k1)" by fastforce
  then have "logged (reconcile_vips (h_set_order h) (h_kn h) n (vip_cidrs services)) k = (Inr (), k1)"
    by (cases r) (simp_all add: logged_def swallow_run bnd_def)
  then show ?thesis
    using dispatch_rest_keeps[OF assms] r by (simp add: dispatch_def Let_def keeps_def)
qed

text \<open>A pass whose VIP reconcile returns on an existing veth puts exactly the wanted VIPs there.\<close>

lemma dispatch_vips:
  assumes kn: "addr_ok (h_kn h) addrs" "addr_frame (h_kn h) addrs" "set_order_ok (h_set_order h)" "plugins_frame h addrs"
    and dev: "dev = (Some (netns_name n), snd (veth_names n))"
    and vips: "k_ns_exists (h_kn h) (netns_name n) k = (Inr True, k1)" "k_device_exists (h_kn h) dev k1 = (Inr True, k2)"
      "reconcile_vips (h_set_order h) (h_kn h) n (vip_cidrs services) k = (Inr r, k3)"
  shows "vips_in_place addrs n services (snd (dispatch h n services k))"
    and "{c \<in> addrs (snd (dispatch h n services k)) dev. is_on_subnet_cidr c} = {c \<in> addrs k dev. is_on_subnet_cidr c}"
    and "addrs (snd (dispatch h n services k)) =
      (addrs k)(dev := {c \<in> addrs k dev. \<not> is_vip_cidr c} \<union> {c \<in> set (vip_cidrs services). is_vip_cidr c})"
proof -
  have diff: "diff_addrs (h_set_order h) (h_kn h) is_vip_cidr dev (vip_cidrs services) k2 = (Inr r, k3)"
    using vips dev by (simp add: reconcile_vips_def Let_def)
  have k2: "addrs k2 = addrs k"
    using kn(2) vips(1,2) unfolding addr_frame_def by (metis keepsD)
  have a: "addrs (snd (dispatch h n services k)) = addrs k3"
    unfolding dispatch_addrs[OF kn(4)] by (simp add: vips(3))
  show "vips_in_place addrs n services (snd (dispatch h n services k))"
    using vip_owner.owner_exact(1)[OF kn(1,3) diff] dev by (simp add: a vips_in_place_def)
  show "{c \<in> addrs (snd (dispatch h n services k)) dev. is_on_subnet_cidr c} = {c \<in> addrs k dev. is_on_subnet_cidr c}"
    using vip_owner.owner_exact(2)[OF kn(1,3) diff] k2 by (simp add: a)
  show "addrs (snd (dispatch h n services k)) =
      (addrs k)(dev := {c \<in> addrs k dev. \<not> is_vip_cidr c} \<union> {c \<in> set (vip_cidrs services). is_vip_cidr c})"
    using diff_addrs_run(1)[OF kn(1,3), of is_vip_cidr dev "vip_cidrs services" k2 "fst r" "snd r" k3] diff k2 by (simp add: a)
qed

text \<open>VIPs that are in place are not touched, whatever the calls of the kernel return.\<close>

lemma settled_vips:
  assumes kn: "addr_ok kn addrs" "addr_frame kn addrs" and so: "set_order_ok set_order"
    and place: "vips_in_place addrs n services k"
  shows "addrs (snd (reconcile_vips set_order kn n (vip_cidrs services) k)) = addrs k"
proof -
  let ?dev = "(Some (netns_name n), snd (veth_names n))"
  have "addrs (snd (diff_addrs set_order kn is_vip_cidr ?dev (vip_cidrs services) k2)) = addrs k" if k2: "addrs k2 = addrs k" for k2
  proof -
    obtain r k3 where r: "k_addr_list kn ?dev k2 = (r, k3)" by fastforce
    have k3: "k3 = k2" using kn(1) r unfolding addr_ok_def by blast
    show ?thesis
    proof (cases r)
      case (Inl e)
      then show ?thesis using r k2 k3 by (simp add: diff_addrs_def)
    next
      case (Inr cs)
      have "\<exists>cs. k_addr_list kn ?dev k2 = (Inr cs, k2)" using r Inr k3 by blast
      then have "diff_addrs set_order kn is_vip_cidr ?dev (vip_cidrs services) k2 = (Inr ([], []), k2)"
        by (rule vip_owner.owner_settled[OF kn(1) so]) (use place k2 in \<open>simp add: vips_in_place_def\<close>)
      then show ?thesis using k2 by simp
    qed
  qed
  then have d: "stable (\<lambda>k'. addrs k' = addrs k) (diff_addrs set_order kn is_vip_cidr ?dev (vip_cidrs services))"
    by (simp add: stable_def)
  have fr: "stable (\<lambda>k'. addrs k' = addrs k) (k_ns_exists kn ns)" "stable (\<lambda>k'. addrs k' = addrs k) (k_device_exists kn dev)" for ns dev
    using kn(2) by (simp_all add: addr_frame_def keeps_def stable_def del: split_paired_All)
  have "stable (\<lambda>k'. addrs k' = addrs k) (reconcile_vips set_order kn n (vip_cidrs services))"
    unfolding reconcile_vips_def Let_def by (intro stable_intros fr d)
  then show ?thesis by (simp add: stable_def)
qed

lemma reconcile_network_returns: "returns (reconcile_network h n) ()"
  unfolding returns_def
proof
  fix s
  show "\<exists>s'. reconcile_network h n s = (Inr (), s')"
    by (cases "n = []") (simp_all add: reconcile_network_def, metis reconcile_network_run reconcile_network_def)
qed

lemma list_managed_returns: "\<exists>y s'. list_managed_networks h s = (Inr y, s')"
  unfolding list_managed_networks_def by (rule returns_attempt) (blast intro: returns_basic)

section \<open>An instance in memory\<close>

definition vip_service :: "string \<Rightarrow> service_dict" where
  "vip_service vip = dns_service\<lparr>sd_local_ipv4 := Some vip\<rparr>"

definition opt_out_transport :: "unit transport" where
  "opt_out_transport = \<lparr>tr_load_session = ret (), tr_get_endpoint = ret [],
     tr_get = (\<lambda>url. ret \<lparr>status_code = 200, resp_body =
       (if url = path_of (GetBindings ''n1'') then Bindings []
        else if url = path_of GetOptOut then Services [vip_service ''169.254.1.53'']
        else Backends [])\<rparr>)\<rparr>"

definition failing_transport :: "unit transport" where
  "failing_transport = opt_out_transport\<lparr>tr_get := (\<lambda>_. ret \<lparr>status_code = 503, resp_body = OtherJson\<rparr>)\<rparr>"

definition mem_plugin :: "mem_kernel plugin" where
  "mem_plugin = \<lparr>pl_name = EXPOSURE_NAT, pl_apply_config = (\<lambda>ns svcs. trail [''apply'', ns]), pl_teardown = (\<lambda>ns. trail [''stop'', ns])\<rparr>"

definition mem_host :: "unit transport \<Rightarrow> (mem_kernel, unit) host" where
  "mem_host tr = \<lparr>h_kn = mem_kn [netns_name ''n1''], h_tr = tr, h_plugins = [(EXPOSURE_NAT, mem_plugin)], h_port_bindings = ret [],
     h_io = fs_ok, h_oc = demo_netns_oc, h_set_order = remdups, h_bridge = ''br-int'', h_pool_cidr = DEFAULT_UNDERLAY_EGRESS_CIDR\<rparr>"

definition mem_agent :: "(mem_kernel, unit) agent" where
  "mem_agent = \<lparr>ag_chassis = \<lparr>ch_kernel = demo_k, ch_alloc = pool22, ch_installed = True\<rparr>, ag_alloc_ready = True, ag_client = demo_client,
     ag_lkg_state = [''n1'' \<mapsto> [vip_service ''169.254.1.9'']], ag_lkg_ts = [''n1'' \<mapsto> 0], ag_now = 10\<rparr>"

lemma mem_host_ok: "addr_ok (h_kn (mem_host tr)) mem_addrs" "addr_frame (h_kn (mem_host tr)) mem_addrs"
    "set_order_ok (h_set_order (mem_host tr))" "plugins_frame (mem_host tr) mem_addrs"
  using mem_kn_ok remdups_ok
  by (simp_all add: mem_host_def plugins_frame_def all_plugins_def mem_plugin_def keeps_def mem_addrs_def fun_eq_iff)
    (simp add: mem_kn_def)

lemma mem_outage: "fetch_outcome (mem_host failing_transport) ''n1'' mem_agent = Inl RegistryFetchError"
  by (simp add: fetch_outcome_def mem_host_def mem_agent_def failing_transport_def desired_state_for_network_def get_json_def
      get_endpoint_def get_session_def demo_client_def on_net_def)

lemma mem_fetch: "fetch_outcome (mem_host opt_out_transport) ''n1'' mem_agent = Inr [(vip_service ''169.254.1.53'')\<lparr>sd_backends := Some []\<rparr>]"
  by (simp add: fetch_outcome_def mem_host_def mem_agent_def opt_out_transport_def desired_state_for_network_def get_json_def
      get_endpoint_def get_session_def demo_client_def on_net_def body_bindings_def body_services_def fetch_backends_def body_backends_def
      vip_service_def dns_service_def)

lemma returns_doif: "returns m () \<Longrightarrow> returns (doif b m) ()"
  by (simp add: doif_def returns_basic)

lemma mem_diff_returns: "\<exists>r k'. diff_addrs set_order (mem_kn nss) mine dev wanted k = (Inr r, k')"
proof -
  have "returns (k_addr_delete_multiple (mem_kn nss) dev cs) ()" "returns (k_addr_add_multiple (mem_kn nss) dev cs) ()" for cs
    by (simp_all add: returns_def)
  then have "returns (andthen (doif b (k_addr_delete_multiple (mem_kn nss) dev cs)) (andthen (doif b' (k_addr_add_multiple (mem_kn nss) dev ds)) (ret x))) x"
    for b b' cs ds and x :: "string list \<times> string list"
    by (intro returns_andthen returns_doif returns_basic)
  then show ?thesis unfolding returns_def diff_addrs_def Let_def
    by (subst bnd_Inr[where m = "k_addr_list (mem_kn nss) dev", OF mem_kn_sel(5)]) blast
qed

lemma mem_vips: "vip_cidrs [vip_service vip] = (if vip = [] then [] else [vip @ ''/32''])"
    "vip_cidrs [(vip_service vip)\<lparr>sd_backends := bs\<rparr>] = (if vip = [] then [] else [vip @ ''/32''])"
  by (simp_all add: vip_cidrs_def vip_service_def)

section \<open>Properties\<close>

text \<open>
  C40. An outage withdraws nothing. Whatever exception the fetch of a network's desired state raises,
  a Registry error or any other, and whatever the calls of the kernel return during the pass: when
  the VIPs on the network's veth are those of the last good state, or there is none, the pass
  returns, changes no address of any device and keeps the cached state.
\<close>

theorem outage_withdraws_nothing:
  assumes "addr_ok (h_kn h) addrs" "addr_frame (h_kn h) addrs" "set_order_ok (h_set_order h)" "plugins_frame h addrs"
    and n: "n \<noteq> []"
    and place: "\<And>services. ag_lkg_state s n = Some services \<Longrightarrow> vips_in_place addrs n services (ch_kernel (ag_chassis s))"
    and fails: "fetch_outcome h n s = Inl e"
  shows "\<exists>s'. reconcile_network h n s = (Inr (), s') \<and> ag_lkg_state s' = ag_lkg_state s
    \<and> addrs (ch_kernel (ag_chassis s')) = addrs (ch_kernel (ag_chassis s))"
proof -
  obtain s' where s': "reconcile_network h n s = (Inr (), s')" "ag_lkg_state s' = ag_lkg_state s"
    "ch_kernel (ag_chassis s') = (case (if e = RegistryFetchError then ag_lkg_state s n else None) of
          None \<Rightarrow> ch_kernel (ag_chassis s) | Some services \<Rightarrow> snd (dispatch h n services (ch_kernel (ag_chassis s))))"
    using reconcile_network_run[OF n, of h s] unfolding fails by auto
  have "addrs (snd (dispatch h n services (ch_kernel (ag_chassis s)))) = addrs (ch_kernel (ag_chassis s))"
    if c: "ag_lkg_state s n = Some services" for services
    unfolding dispatch_addrs[OF assms(4)] by (rule settled_vips[OF assms(1-3) place[OF c]])
  then have "addrs (ch_kernel (ag_chassis s')) = addrs (ch_kernel (ag_chassis s))"
    unfolding s'(3) by (simp split: option.split)
  then show ?thesis using s' by blast
qed

theorem outage_withdraws_nothing_witness:
  "\<exists>s'. reconcile_network (mem_host failing_transport) ''n1'' mem_agent = (Inr (), s')
     \<and> mem_addrs (ch_kernel (ag_chassis s')) demo_dev = {''10.0.0.2/24'', ''169.254.1.9/32''}"
proof -
  have "\<exists>s'. reconcile_network (mem_host failing_transport) ''n1'' mem_agent = (Inr (), s') \<and> ag_lkg_state s' = ag_lkg_state mem_agent
    \<and> mem_addrs (ch_kernel (ag_chassis s')) = mem_addrs (ch_kernel (ag_chassis mem_agent))"
  proof (rule outage_withdraws_nothing[OF mem_host_ok])
    fix services
    assume "ag_lkg_state mem_agent ''n1'' = Some services"
    then have "services = [vip_service ''169.254.1.9'']" by (simp add: mem_agent_def)
    then show "vips_in_place mem_addrs ''n1'' services (ch_kernel (ag_chassis mem_agent))"
      by (auto simp: vips_in_place_def mem_vips demo_kinds mem_addrs_def mem_agent_def demo_k_def demo_dev_def)
  qed (simp_all add: mem_outage)
  moreover have "mem_addrs (ch_kernel (ag_chassis mem_agent)) demo_dev = {''10.0.0.2/24'', ''169.254.1.9/32''}"
    by (simp add: mem_agent_def mem_addrs_def demo_k_def)
  ultimately show ?thesis by metis
qed

text \<open>
  A pass with a successful fetch: the fetched state becomes the last good one, and when the VIP
  reconcile returns on an existing veth, the veth then carries exactly the VIPs of the fetched
  services and its on-subnet addresses are untouched, so that the hypothesis of the previous
  property holds from then on. Each loaded plugin is applied to exactly the services that name
  it, in their order; a service that names no loaded plugin reaches none.
\<close>

theorem pass_applies_fetched_state:
  assumes "addr_ok (h_kn h) addrs" "addr_frame (h_kn h) addrs" "set_order_ok (h_set_order h)" "plugins_frame h addrs"
    and n: "n \<noteq> []" and fetched: "fetch_outcome h n s = Inr services"
    and k: "k = ch_kernel (ag_chassis s)" and dev: "dev = (Some (netns_name n), snd (veth_names n))"
    and vips: "k_ns_exists (h_kn h) (netns_name n) k = (Inr True, k1)" "k_device_exists (h_kn h) dev k1 = (Inr True, k2)"
      "reconcile_vips (h_set_order h) (h_kn h) n (vip_cidrs services) k = (Inr r, k3)"
  shows "\<exists>s'. reconcile_network h n s = (Inr (), s') \<and> ag_lkg_state s' = (ag_lkg_state s)(n \<mapsto> services)
    \<and> vips_in_place addrs n services (ch_kernel (ag_chassis s'))
    \<and> {c \<in> addrs (ch_kernel (ag_chassis s')) dev. is_on_subnet_cidr c} = {c \<in> addrs k dev. is_on_subnet_cidr c}
    \<and> ch_kernel (ag_chassis s') = snd (andthen (each (\<lambda>p. swallow (pl_apply_config p (NETNS_PREFIX @ n)
             (filter (\<lambda>svc. plugin_of svc = pl_name p) services))) (all_plugins (h_plugins h)))
           (swallow (reconcile_destination_acl (h_kn h) n services)) k3)"
proof -
  obtain s' where s': "reconcile_network h n s = (Inr (), s')" "ag_lkg_state s' = (ag_lkg_state s)(n \<mapsto> services)"
    "ch_kernel (ag_chassis s') = snd (dispatch h n services k)"
    using reconcile_network_run[OF n, of h s] unfolding fetched k by auto
  have "logged (reconcile_vips (h_set_order h) (h_kn h) n (vip_cidrs services)) k = (Inr (), k3)"
    using vips(3) by (simp add: logged_def swallow_run bnd_def)
  moreover have "each (\<lambda>p. swallow (apply_plugin (NETNS_PREFIX @ n) (group_services services (map (\<lambda>p. (pl_name p, [])) (all_plugins (h_plugins h)))) p)) (all_plugins (h_plugins h))
      = each (\<lambda>p. swallow (pl_apply_config p (NETNS_PREFIX @ n) (filter (\<lambda>svc. plugin_of svc = pl_name p) services))) (all_plugins (h_plugins h))"
    by (rule each_cong) (simp add: plugin_slice)
  ultimately have "snd (dispatch h n services k) = snd (andthen (each (\<lambda>p. swallow (pl_apply_config p (NETNS_PREFIX @ n)
             (filter (\<lambda>svc. plugin_of svc = pl_name p) services))) (all_plugins (h_plugins h)))
           (swallow (reconcile_destination_acl (h_kn h) n services)) k3)"
    by (simp add: dispatch_def Let_def)
  then show ?thesis using s'(1,2) dispatch_vips(1,2)[OF assms(1-4) dev vips] unfolding s'(3)[symmetric] by blast
qed

theorem pass_applies_fetched_state_witness:
  "\<exists>s'. reconcile_network (mem_host opt_out_transport) ''n1'' mem_agent = (Inr (), s')
     \<and> {c \<in> mem_addrs (ch_kernel (ag_chassis s')) demo_dev. is_vip_cidr c} = {''169.254.1.53/32''}
     \<and> {c \<in> mem_addrs (ch_kernel (ag_chassis s')) demo_dev. is_on_subnet_cidr c} = {''10.0.0.2/24''}"
proof -
  let ?h = "mem_host opt_out_transport"
  let ?svcs = "[(vip_service ''169.254.1.53'')\<lparr>sd_backends := Some []\<rparr>]"
  have kn: "k_ns_exists (h_kn ?h) (netns_name ''n1'') demo_k = (Inr True, demo_k)" "k_device_exists (h_kn ?h) demo_dev demo_k = (Inr True, demo_k)"
    by (simp_all add: mem_host_def)
  have k: "demo_k = ch_kernel (ag_chassis mem_agent)" by (simp add: mem_agent_def)
  obtain r k3 where vips: "reconcile_vips (h_set_order ?h) (h_kn ?h) ''n1'' (vip_cidrs ?svcs) demo_k = (Inr r, k3)"
    using mem_diff_returns[of remdups "[netns_name ''n1'']" is_vip_cidr demo_dev "vip_cidrs ?svcs" demo_k]
    by (auto simp: reconcile_vips_def mem_host_def Let_def demo_dev_def)
  have subnet: "{c \<in> mem_addrs demo_k demo_dev. is_on_subnet_cidr c} = {''10.0.0.2/24''}"
    by (auto simp: mem_addrs_def demo_k_def demo_kinds)
  have n: "''n1'' \<noteq> []" by simp
  obtain s' where s': "reconcile_network ?h ''n1'' mem_agent = (Inr (), s')" "vips_in_place mem_addrs ''n1'' ?svcs (ch_kernel (ag_chassis s'))"
      "{c \<in> mem_addrs (ch_kernel (ag_chassis s')) demo_dev. is_on_subnet_cidr c} = {c \<in> mem_addrs demo_k demo_dev. is_on_subnet_cidr c}"
    using pass_applies_fetched_state[OF mem_host_ok n mem_fetch k demo_dev_def kn vips] by (elim exE conjE)
  have "{c \<in> set (vip_cidrs ?svcs). is_vip_cidr c} = {''169.254.1.53/32''}"
    using demo_kinds(1) by (auto simp: mem_vips)
  then show ?thesis using s' subnet by (intro exI[of _ s']) (simp add: vips_in_place_def demo_dev_def)
qed

text \<open>
  Nothing the environment does takes the agent's threads down: the handlers of the three
  \<^verbatim>\<open>Port_Binding\<close> events, the periodic pass and the start-up return from every state, whatever the
  kernel, the registry, the plugins or the state file do.
\<close>

theorem agent_never_raises:
  "fst (on_event h ev row s) = Inr () \<and> fst (periodic_reconcile h s) = Inr () \<and> fst (start h s) = Inr ()
   \<and> fst (reconcile_vips_for_network h n s) = Inr ()"
proof -
  have create: "returns (run_create h row) ()"
    unfolding run_create_def Let_def
    by (intro returns_bnd returns_attempt) (auto simp: provision_underlay_def intro: returns_basic returns_andthen returns_logged reconcile_network_returns)
  have delete: "returns (run_delete h row) ()"
    unfolding run_delete_def Let_def forget_network_def
    by (intro returns_andthen returns_each returns_swallow returns_logged returns_basic)
  have "returns (on_event h ev row) ()"
    using create delete by (cases ev) (simp_all add: on_event_def run_update_def returns_basic)
  moreover have periodic: "returns (periodic_reconcile h) ()"
    unfolding periodic_reconcile_def by (rule returns_bnd[OF list_managed_returns]) (intro returns_each reconcile_network_returns)
  moreover have "returns (start h) ()"
    unfolding start_def
    by (intro returns_andthen returns_swallow periodic returns_bnd[OF list_managed_returns] returns_each)
      (simp add: provision_underlay_def returns_logged)
  moreover have "returns (reconcile_vips_for_network h n) ()"
    unfolding reconcile_vips_for_network_def
    by (auto intro!: returns_bnd returns_attempt returns_basic returns_logged split: option.split)
  ultimately show ?thesis unfolding returns_def by (metis fst_conv)
qed

end
