(* ===== verification/EndToEnd.thy ===== *)
theory EndToEnd
  imports ServicePlugin Extension
begin

text \<open>
  Server and agent together: what a pass of the service plugin publishes and what a pass of the agent on a chassis
  puts on the veth, over one catalog. The lemmas here join the components; the statements about the whole
  system are in the root theory.
\<close>

section \<open>The chassis\<close>

abbreviation veth_of :: "string \<Rightarrow> device" where
  "veth_of n \<equiv> (Some (netns_name n), snd (veth_names n))"

text \<open>The hypotheses on the machine of an agent, in one.\<close>

definition host_ok :: "('k, 'h) host \<Rightarrow> ('k \<Rightarrow> device \<Rightarrow> string set) \<Rightarrow> bool" where
  "host_ok h addrs \<longleftrightarrow> addr_ok (h_kn h) addrs \<and> addr_frame (h_kn h) addrs \<and> set_order_ok (h_set_order h) \<and> plugins_frame h addrs"

text \<open>The namespace of the network is provisioned and the calls on its veth do not fail.\<close>

definition veth_works :: "'k kernel \<Rightarrow> string \<Rightarrow> bool" where
  "veth_works kn n \<longleftrightarrow>
     (\<forall>k. (\<exists>k'. k_ns_exists kn (netns_name n) k = (Inr True, k')) \<and> (\<exists>k'. k_device_exists kn (veth_of n) k = (Inr True, k'))
        \<and> (\<exists>cs k'. k_addr_list kn (veth_of n) k = (Inr cs, k'))
        \<and> (\<forall>cs. \<exists>k'. k_addr_delete_multiple kn (veth_of n) cs k = (Inr (), k'))
        \<and> (\<forall>cs. \<exists>k'. k_addr_add_multiple kn (veth_of n) cs k = (Inr (), k')))"

text \<open>The agent's client talks to an API that answers from the catalog.\<close>

definition connected :: "('k, 'h) host \<Rightarrow> db \<Rightarrow> ('k, 'h) agent \<Rightarrow> bool" where
  "connected h d a \<longleftrightarrow> (\<exists>e. ready e (ag_client a) \<and> serves d (h_tr h) e)"

definition catalog_ok :: "db \<Rightarrow> bool" where
  "catalog_ok d \<longleftrightarrow> db_wf d \<and> [] \<notin> svc_id ` set (db_services d)"

lemma reconcile_vips_returns:
  assumes "veth_works kn n"
  obtains k1 k2 r k3 where "k_ns_exists kn (netns_name n) k = (Inr True, k1)" "k_device_exists kn (veth_of n) k1 = (Inr True, k2)"
    "reconcile_vips set_order kn n wanted k = (Inr r, k3)"
proof -
  obtain k1 k2 cs k3 where k: "k_ns_exists kn (netns_name n) k = (Inr True, k1)" "k_device_exists kn (veth_of n) k1 = (Inr True, k2)"
      "k_addr_list kn (veth_of n) k2 = (Inr cs, k3)"
    using assms unfolding veth_works_def by metis
  have ret: "returns (k_addr_delete_multiple kn (veth_of n) cs) ()" "returns (k_addr_add_multiple kn (veth_of n) cs) ()" for cs
    using assms by (simp_all add: veth_works_def returns_def)
  have "returns (andthen (doif b (k_addr_delete_multiple kn (veth_of n) ds)) (andthen (doif b' (k_addr_add_multiple kn (veth_of n) es)) (ret x))) x"
    for b b' ds es and x :: "string list \<times> string list"
    by (intro returns_andthen returns_doif returns_basic ret)
  then have "\<exists>r k4. diff_addrs set_order kn is_vip_cidr (veth_of n) wanted k2 = (Inr r, k4)"
    unfolding returns_def diff_addrs_def Let_def by (subst bnd_Inr[where m = "k_addr_list kn (veth_of n)", OF k(3)]) blast
  then obtain r k4 where "diff_addrs set_order kn is_vip_cidr (veth_of n) wanted k2 = (Inr r, k4)" by blast
  then show thesis using that[OF k(1,2), of r k4] k(1,2) by (simp add: reconcile_vips_def Let_def)
qed

text \<open>The VIPs of the services attached to a network, as addresses of a device.\<close>

definition attached_vips :: "db \<Rightarrow> string \<Rightarrow> string set" where
  "attached_vips d n = {v @ ''/32'' | s v. s \<in> set (db_services d) \<and> attached (\<lambda>_. True) d n s \<and> svc_local_ipv4 s = Some v \<and> v \<noteq> []}"

lemma vip_cidr_iff: "is_vip_cidr (v @ ''/32'') \<longleftrightarrow> CHR '':'' \<notin> set v"
  by (simp add: is_vip_cidr_def is_ipv4_def endswith_iff)

lemma vip_cidrs_set: "set (vip_cidrs svcs) = {v @ ''/32'' | s v. s \<in> set svcs \<and> sd_local_ipv4 s = Some v \<and> v \<noteq> []}"
  by (force simp: vip_cidrs_def truthy_str_iff)

lemma fetched_vips:
  assumes "db_wf d" "set_order_ok set_order"
  shows "set (vip_cidrs (map (with_backends d) (enabled_services_for_network set_order (\<lambda>_. True) d n))) = attached_vips d n"
  unfolding vip_cidrs_set set_map enabled_services_eq(1)[OF assms] attached_vips_def
  by (auto simp: with_backends_def)

lemma fetch_connected:
  assumes "connected h d a" "catalog_ok d" "set_order_ok (h_set_order h)"
  shows "fetch_outcome h n a = Inr (map (with_backends d) (enabled_services_for_network (h_set_order h) (\<lambda>_. True) d n))"
    "snd (desired_state_for_network (h_set_order h) (h_tr h) n (ag_client a)) = ag_client a"
  using assms(1) desired_state_serves[where c = "ag_client a" and tr = "h_tr h" and n = n, OF _ _ _ assms(3)] assms(2)
  by (auto simp: connected_def catalog_ok_def fetch_outcome_def simp del: map_map)

lemma agent_pass:
  assumes "host_ok h addrs" "veth_works (h_kn h) n" "n \<noteq> []" "connected h d a" "catalog_ok d"
  obtains a' where "Extension.reconcile_network h n a = (Inr (), a')"
    "connected h d a'"
    "addrs (ch_kernel (ag_chassis a')) = (addrs (ch_kernel (ag_chassis a)))(veth_of n :=
       {c \<in> addrs (ch_kernel (ag_chassis a)) (veth_of n). \<not> is_vip_cidr c} \<union> {c \<in> attached_vips d n. is_vip_cidr c})"
proof -
  let ?svcs = "map (with_backends d) (enabled_services_for_network (h_set_order h) (\<lambda>_. True) d n)"
  have kn: "addr_ok (h_kn h) addrs" "addr_frame (h_kn h) addrs" "set_order_ok (h_set_order h)" "plugins_frame h addrs"
    using assms(1) by (simp_all add: host_ok_def)
  have wf: "db_wf d" "[] \<notin> svc_id ` set (db_services d)" using assms(5) by (simp_all add: catalog_ok_def)
  have fetched: "fetch_outcome h n a = Inr ?svcs" by (rule fetch_connected(1)[OF assms(4,5) kn(3)])
  obtain a' where a': "Extension.reconcile_network h n a = (Inr (), a')" "ag_client a' = ag_client a"
      "ch_kernel (ag_chassis a') = snd (dispatch h n ?svcs (ch_kernel (ag_chassis a)))"
    using reconcile_network_run[OF assms(3), of h a] unfolding fetched fetch_connected(2)[OF assms(4,5) kn(3)] by auto
  have con: "connected h d a'" using assms(4) by (simp add: connected_def a'(2))
  obtain k1 k2 r k3 where k: "k_ns_exists (h_kn h) (netns_name n) (ch_kernel (ag_chassis a)) = (Inr True, k1)"
      "k_device_exists (h_kn h) (veth_of n) k1 = (Inr True, k2)"
      "reconcile_vips (h_set_order h) (h_kn h) n (vip_cidrs ?svcs) (ch_kernel (ag_chassis a)) = (Inr r, k3)"
    by (rule reconcile_vips_returns[OF assms(2)])
  from dispatch_vips(3)[OF kn refl k] a' con fetched_vips[OF wf(1) kn(3), of n] show thesis
    by (intro that[of a']) simp_all
qed

section \<open>The server\<close>

definition server_ok :: "('ip, 'net, 'w) env \<Rightarrow> ('w \<Rightarrow> port list) \<Rightarrow> ('w \<Rightarrow> subnet list) \<Rightarrow> string \<Rightarrow> 'w server \<Rightarrow> bool" where
  "server_ok ev ports subnets n v \<longleftrightarrow>
     core_ok (ev_cp ev) ports subnets \<and> set_order_ok (ev_order ev) \<and> ev_ctx ev = (\<lambda>_. True)
     \<and> subnets_wf (subnets (sv_core v)) \<and> length (our_ports (ev_oc ev) n (ports (sv_core v))) \<le> 1"

text \<open>A route of a subnet via the address our localport has there.\<close>

definition routed_to_us :: "('ip, 'net, 'w) env \<Rightarrow> ('w \<Rightarrow> port list) \<Rightarrow> 'w server \<Rightarrow> subnet \<Rightarrow> string \<Rightarrow> bool" where
  "routed_to_us ev ports v t dest \<longleftrightarrow>
     (\<exists>nh. subnet_nexthop (ev_oc ev) (ports (sv_core v)) t = Some nh \<and> (dest, nh) \<in> set (usable_pairs (routes_of t)))"

lemma merged_dest:
  "(dest, nh) \<in> set (usable_pairs (merge existing routes (Some nh))) \<longleftrightarrow>
     dest \<noteq> [] \<and> nh \<noteq> [] \<and> (\<exists>r \<in> set routes. rt_destination r = Some dest \<and> rt_nexthop r = Some nh)"
  by (auto simp: usable_pairs_mem merge_eq tenant_route_def)

text \<open>
  The update of a subnet that a pass over the catalog's network calls for was refused, with the ports there are after
  the pass.
\<close>

definition left_behind :: "('ip, 'net, 'w) env \<Rightarrow> ('w \<Rightarrow> port list) \<Rightarrow> ('w \<Rightarrow> subnet list) \<Rightarrow> string \<Rightarrow> 'w server \<Rightarrow> subnet \<Rightarrow> bool" where
  "left_behind ev ports subnets n v' t \<longleftrightarrow>
     update_refused ev ports subnets (ports (sv_core v')) (enabled_services_for_network (ev_order ev) (ev_ctx ev) (sv_db v') n) t"

text \<open>
  After a pass the routes to us of a subnet that was not left behind are those of the attached services that may be
  published in the subnet.
\<close>

lemma routed_iff:
  assumes ok: "server_ok ev ports subnets n v" and cat: "catalog_ok (sv_db v)"
    and run: "ServicePlugin.reconcile_network ev n v = (Inr (), v')"
    and t': "t' \<in> set (subnets (sv_core v'))" "sn_network_id t' = Some n" "sn_ip_version t' = Some 4"
    and went: "\<not> (t' \<in> set (subnets (sv_core v)) \<and> left_behind ev ports subnets n v' t')"
    and nh: "subnet_nexthop (ev_oc ev) (ports (sv_core v')) t' = Some nh" "nh \<noteq> []"
  shows "routed_to_us ev ports v' t' dest \<longleftrightarrow>
    (\<exists>s x. s \<in> set (db_services (sv_db v)) \<and> attached (\<lambda>_. True) (sv_db v) n s \<and> svc_local_ipv4 s = Some x \<and> dest = x @ ''/32''
       \<and> publishable (ev_na ev) (parse_cidr (ev_na ev) (dget (sn_cidr t'))) (make_service_dict s))"
proof -
  have cp: "core_ok (ev_cp ev) ports subnets" "subnets_wf (subnets (sv_core v))"
      and so: "set_order_ok (ev_order ev)" and ctx: "ev_ctx ev = (\<lambda>_. True)"
      and one: "length (our_ports (ev_oc ev) n (ports (sv_core v))) \<le> 1" and wf: "db_wf (sv_db v)"
    using ok cat by (simp_all add: server_ok_def catalog_ok_def)
  define svcs where "svcs = enabled_services_for_network (ev_order ev) (ev_ctx ev) (sv_db v) n"
  have "svcs \<noteq> []"
  proof
    assume none: "svcs = []"
    have "our_ports (ev_oc ev) n (ports (sv_core v')) = []"
      by (rule reconcile_leaves(3)[OF cp one svcs_def run none])
    then show False using nh(1) t'(2) by (simp add: subnet_nexthop_def)
  qed
  then obtain w1 R where w1: "ports (sv_core v') = ports w1" "sv_db v' = sv_db v"
      "\<forall>x \<in> R. update_refused ev ports subnets (ports w1) svcs x"
      "subnets (sv_core v') = map (refreshed_except R ev n (ports w1) svcs) (subnets (sv_core v))"
    by (rule reconcile_attached_run[OF cp svcs_def _ run]) blast
  have "x \<notin> R" if "t' = x" "x \<in> set (subnets (sv_core v))" for x
    using that went w1(1-3) unfolding left_behind_def by (auto simp: svcs_def)
  then obtain t where t: "t' = refreshed ev (ports w1) svcs t" "sn_network_id t = Some n" "sn_ip_version t = Some 4"
    using t' unfolding w1(4) by (auto simp: refreshed_except_def split: if_splits)
  have hop: "subnet_nexthop (ev_oc ev) (ports w1) t = Some nh"
    using nh(1) subnet_routes_cong(1)[of t t' "ev_oc ev" "ports w1"] by (simp add: t(1) w1(1))
  have "routed_to_us ev ports v' t' dest \<longleftrightarrow> (dest, nh) \<in> set (usable_pairs (wanted_routes ev (ports w1) svcs t))"
    using nh(1) refreshed_routes[OF t(3), of ev "ports w1" svcs] unfolding t(1) routes_equal_mset routed_to_us_def
    by (metis option.inject set_mset_mset)
  also have "\<dots> \<longleftrightarrow> (\<exists>svc \<in> set svcs. publishable (ev_na ev) (parse_cidr (ev_na ev) (dget (sn_cidr t'))) svc
      \<and> dest = the (sd_local_ipv4 svc) @ ''/32'')"
    unfolding wanted_routes_def hop merged_dest subnet_routes_def service_routes_filter t(1)
    using nh(2) by (auto simp: service_route_def)
  also have "\<dots> \<longleftrightarrow> (\<exists>s x. s \<in> set (db_services (sv_db v)) \<and> attached (\<lambda>_. True) (sv_db v) n s \<and> svc_local_ipv4 s = Some x \<and> dest = x @ ''/32''
       \<and> publishable (ev_na ev) (parse_cidr (ev_na ev) (dget (sn_cidr t'))) (make_service_dict s))"
    unfolding svcs_def ctx enabled_services_eq(1)[OF wf so] by (auto simp: publishable_def truthy_str_iff)
  finally show ?thesis .
qed

lemma routed_is_attached:
  assumes "server_ok ev ports subnets n v" "catalog_ok (sv_db v)" "ServicePlugin.reconcile_network ev n v = (Inr (), v')"
    "t' \<in> set (subnets (sv_core v'))" "sn_network_id t' = Some n" "sn_ip_version t' = Some 4"
    and route: "routed_to_us ev ports v' t' dest"
  shows "dest \<in> attached_vips (sv_db v) n \<or> t' \<in> set (subnets (sv_core v)) \<and> left_behind ev ports subnets n v' t'"
proof (rule disjCI)
  assume went: "\<not> (t' \<in> set (subnets (sv_core v)) \<and> left_behind ev ports subnets n v' t')"
  obtain nh where nh: "subnet_nexthop (ev_oc ev) (ports (sv_core v')) t' = Some nh" "nh \<noteq> []"
    using route by (auto simp: routed_to_us_def usable_pairs_mem)
  from route show "dest \<in> attached_vips (sv_db v) n"
    unfolding routed_iff[OF assms(1-6) went nh] attached_vips_def by (auto simp: publishable_def truthy_str_iff)
qed

lemma server_pass_keeps_catalog:
  "ServicePlugin.reconcile_network ev n v = (r, v') \<Longrightarrow> sv_db v' = sv_db v"
  using keepsD[OF reconcile_keeps_db] .

section \<open>Egress\<close>

text \<open>
  The endpoints the catalog gives a network: for each enabled backend of an attached service its data address and
  port, with the protocols of the service, and where the health check goes elsewhere that address and port, with
  both protocols.
\<close>

definition check_target :: "backend \<Rightarrow> string \<times> int" where
  "check_target b =
     (if truthy_str (be_health_check_address b) then the (be_health_check_address b) else be_address b,
      if truthy_int (be_health_check_port b) then the (be_health_check_port b) else be_port b)"

definition row_endpoints :: "string list \<Rightarrow> backend \<Rightarrow> (string \<times> string \<times> int) set" where
  "row_endpoints protos b =
     {(p, be_address b, be_port b) | p. p \<in> set protos \<and> be_address b \<noteq> [] \<and> be_port b \<noteq> 0}
     \<union> {(p, check_target b) | p. p \<in> {''tcp'', ''udp''} \<and> check_target b \<noteq> (be_address b, be_port b)
          \<and> fst (check_target b) \<noteq> [] \<and> snd (check_target b) \<noteq> 0}"

definition catalog_endpoints :: "db \<Rightarrow> string \<Rightarrow> (string \<times> string \<times> int) set" where
  "catalog_endpoints d n =
     (\<Union>s \<in> {s \<in> set (db_services d). attached (\<lambda>_. True) d n s}.
        \<Union>b \<in> {b \<in> set (db_backends d). be_service_id b = svc_id s \<and> be_enabled b}.
          if service_protos (make_service_dict s) = [] then {} else row_endpoints (service_protos (make_service_dict s)) b)"

lemma gather_all:
  assumes "\<And>x. x \<in> set xs \<Longrightarrow> \<exists>ys. f x = Inr ys \<and> set ys = g x"
  shows "\<exists>zs. gather f xs = Inr zs \<and> set zs = (\<Union>x \<in> set xs. g x)"
  using assms
proof (induction xs)
  case (Cons x xs)
  obtain ys where "f x = Inr ys" "set ys = g x" using Cons.prems by (metis list.set_intros(1))
  moreover obtain zs where "gather f xs = Inr zs" "set zs = (\<Union>x \<in> set xs. g x)" using Cons.IH Cons.prems by (metis list.set_intros(2))
  ultimately show ?case by simp
qed simp

lemma backend_rows_eq:
  assumes "be_enabled b"
  shows "\<exists>ys. backend_rows protos (make_backend_dict b) = Inr ys \<and> set ys = row_endpoints protos b"
proof -
  have "or_str (be_health_check_address b) (Some (be_address b)) = Some (fst (check_target b))"
      "or_int (be_health_check_port b) (Some (be_port b)) = Some (snd (check_target b))"
    by (auto simp: or_str_def or_int_def check_target_def truthy_str_iff truthy_int_iff)
  then show ?thesis
    using assms by (cases "check_target b") (auto simp: backend_rows_def make_backend_dict_def row_endpoints_def Let_def)
qed

lemma fetched_endpoints:
  assumes "db_wf d" "set_order_ok set_order"
  obtains eps where "backend_endpoints (map (with_backends d) (enabled_services_for_network set_order (\<lambda>_. True) d n)) = Inr eps"
    "set eps = catalog_endpoints d n"
proof -
  define g where "g s = (\<Union>b \<in> {b \<in> set (db_backends d). be_service_id b = svc_id s \<and> be_enabled b}.
      if service_protos (make_service_dict s) = [] then {} else row_endpoints (service_protos (make_service_dict s)) b)" for s
  have one: "\<exists>ys. service_rows (with_backends d (make_service_dict s)) = Inr ys \<and> set ys = g s" if "attached (\<lambda>_. True) d n s" for s
  proof (cases "service_protos (make_service_dict s) = []")
    case True
    then show ?thesis by (auto simp: service_rows_def with_backends_def service_protos_def g_def)
  next
    case False
    let ?p = "service_protos (make_service_dict s)"
    let ?bs = "filter (\<lambda>b. be_service_id b = svc_id s \<and> be_enabled b) (db_backends d)"
    have bs: "get_local_service_backends (\<lambda>_. True) \<lparr>bf_service_id = Some [svc_id s], bf_enabled = Some [True]\<rparr> d = map make_backend_dict ?bs"
      by (simp add: get_local_service_backends_def collection_query_def among_def)
    have on: "svc_enabled s" "?p = service_protos (with_backends d (make_service_dict s))"
      using that by (simp_all add: attached_def with_backends_def service_protos_def)
    have "\<exists>zs. gather (backend_rows ?p) (map make_backend_dict ?bs) = Inr zs
        \<and> set zs = (\<Union>x \<in> set (map make_backend_dict ?bs). set (projr (backend_rows ?p x)))"
      by (rule gather_all) (use backend_rows_eq in force)
    moreover have rows_b: "set (projr (backend_rows ?p (make_backend_dict b))) = row_endpoints ?p b" if "be_enabled b" for b
      using backend_rows_eq[OF that, of ?p] by (metis sum.sel(2))
    have "(\<Union>x \<in> set (map make_backend_dict ?bs). set (projr (backend_rows ?p x))) = g s"
      using False unfolding g_def by (simp add: rows_b)
    ultimately show ?thesis
      using False on bs by (simp add: service_rows_def) (simp add: with_backends_def)
  qed
  have rows: "set (projr (service_rows (with_backends d (make_service_dict s)))) = g s" if "attached (\<lambda>_. True) d n s" for s
    using one[OF that] by (metis sum.sel(2))
  let ?svcs = "enabled_services_for_network set_order (\<lambda>_. True) d n"
  have "\<exists>eps. gather service_rows (map (with_backends d) ?svcs) = Inr eps
      \<and> set eps = (\<Union>x \<in> set (map (with_backends d) ?svcs). set (projr (service_rows x)))"
  proof (rule gather_all)
    fix x assume "x \<in> set (map (with_backends d) ?svcs)"
    then obtain s where "attached (\<lambda>_. True) d n s" "x = with_backends d (make_service_dict s)"
      unfolding set_map enabled_services_eq(1)[OF assms] by blast
    then show "\<exists>ys. service_rows x = Inr ys \<and> set ys = set (projr (service_rows x))" using one by fastforce
  qed
  moreover have "(\<Union>x \<in> set (map (with_backends d) ?svcs). set (projr (service_rows x))) = catalog_endpoints d n"
    unfolding catalog_endpoints_def set_map enabled_services_eq(1)[OF assms] image_image g_def[symmetric]
    by (rule SUP_cong) (simp_all add: rows)
  ultimately show thesis using that by (auto simp: backend_endpoints_def)
qed

text \<open>The calls of a pass that have nothing to do with the filter of the chassis: addresses and plugins.\<close>

definition pass_frame :: "('k, 'h) host \<Rightarrow> ('k \<Rightarrow> string option \<Rightarrow> ruleset) \<Rightarrow> bool" where
  "pass_frame h fw \<longleftrightarrow> fw_frame (h_kn h) fw
     \<and> (\<forall>dev cs. frame fw (k_addr_add_multiple (h_kn h) dev cs)) \<and> (\<forall>dev cs. frame fw (k_addr_delete_multiple (h_kn h) dev cs))
     \<and> (\<forall>p \<in> set (all_plugins (h_plugins h)). \<forall>ns svcs. frame fw (pl_apply_config p ns svcs))"

lemma before_acl_frame:
  assumes "pass_frame h fw"
  shows "frame fw (andthen (logged (reconcile_vips (h_set_order h) (h_kn h) n wanted))
     (each (\<lambda>p. swallow (apply_plugin ns (group_services services (map (\<lambda>p. (pl_name p, [])) (all_plugins (h_plugins h)))) p)) (all_plugins (h_plugins h))))"
proof -
  note calls = fw_frame_calls[of "h_kn h" fw]
  have "fw_frame (h_kn h) fw" and more: "\<And>dev cs. frame fw (k_addr_add_multiple (h_kn h) dev cs)" "\<And>dev cs. frame fw (k_addr_delete_multiple (h_kn h) dev cs)"
      and pl: "\<And>p ns svcs. p \<in> set (all_plugins (h_plugins h)) \<Longrightarrow> frame fw (pl_apply_config p ns svcs)"
    using assms unfolding pass_frame_def by blast+
  then have "frame fw (reconcile_vips (h_set_order h) (h_kn h) n wanted)"
    unfolding reconcile_vips_def diff_addrs_def Let_def by (intro keeps_intros calls more)
  then show ?thesis
    unfolding logged_def by (intro keeps_intros) (simp_all add: plugin_slice pl keeps_basic)
qed

text \<open>A pass ends with the destination ACL, on a filter that the rest of the pass left alone.\<close>

lemma pass_acl:
  assumes "pass_frame h fw" "connected h d a" "catalog_ok d" "set_order_ok (h_set_order h)" "n \<noteq> []"
  obtains a' k where "Extension.reconcile_network h n a = (Inr (), a')" "rules_of fw k = rules_of fw (ch_kernel (ag_chassis a))"
    "ch_kernel (ag_chassis a') = snd (reconcile_destination_acl (h_kn h) n (map (with_backends d) (enabled_services_for_network (h_set_order h) (\<lambda>_. True) d n)) k)"
proof -
  let ?svcs = "map (with_backends d) (enabled_services_for_network (h_set_order h) (\<lambda>_. True) d n)"
  let ?front = "andthen (logged (reconcile_vips (h_set_order h) (h_kn h) n (vip_cidrs ?svcs)))
     (each (\<lambda>p. swallow (apply_plugin (NETNS_PREFIX @ n) (group_services ?svcs (map (\<lambda>p. (pl_name p, [])) (all_plugins (h_plugins h)))) p)) (all_plugins (h_plugins h)))"
  obtain a' where a': "Extension.reconcile_network h n a = (Inr (), a')" "ch_kernel (ag_chassis a') = snd (dispatch h n ?svcs (ch_kernel (ag_chassis a)))"
    using reconcile_network_run[OF assms(5), of h a] unfolding fetch_connected(1)[OF assms(2-4)] by auto
  have "returns ?front ()" by (intro returns_andthen returns_logged returns_each returns_swallow)
  then obtain k where k: "?front (ch_kernel (ag_chassis a)) = (Inr (), k)" unfolding returns_def by blast
  have "dispatch h n ?svcs (ch_kernel (ag_chassis a)) = swallow (reconcile_destination_acl (h_kn h) n ?svcs) k"
    using k unfolding dispatch_def Let_def by (auto elim!: andthen_cases simp del: map_map)
  then show thesis
    using that[OF a'(1) keepsD[OF before_acl_frame[OF assms(1)] k]] a'(2) by simp
qed

section \<open>An instance in memory\<close>

lemma mem_veth_works: "veth_works (mem_kn [netns_name n]) n"
  by (simp add: veth_works_def)

lemma demo_connected: "connected (mem_host demo_transport) demo_db mem_agent" "catalog_ok demo_db"
  using demo_serves demo_ids demo_db_wf by (auto simp: connected_def mem_host_def mem_agent_def catalog_ok_def)

lemma mem_host_fine: "host_ok (mem_host tr) mem_addrs" "veth_works (h_kn (mem_host tr)) ''n1''"
  using mem_host_ok mem_veth_works by (simp_all add: host_ok_def) (simp add: mem_host_def)

lemma demo_attached_vips: "attached_vips demo_db ''n1'' = {''169.254.1.53/32''}"
  using fetched_vips[OF demo_db_wf remdups_order, of "''n1''"] by (simp add: demo_services vip_cidrs_def with_backends_def) (simp add: demo_service_def)

lemma demo_server_ok: "server_ok demo_ev mem_ports mem_subnets ''n1'' demo_server"
  using mem_core_ok demo_wf remdups_order by (simp add: server_ok_def demo_server_def)

text \<open>The catalog with a backend, an API that answers from a catalog, and a host whose kernel has rule sets only.\<close>

definition demo_backend :: backend where
  "demo_backend = \<lparr>be_id = ''b1'', be_service_id = ''s1'', be_name = ''one'', be_availability_zone = None, be_weight = None,
     be_address = ''10.0.0.5'', be_port = 53, be_health_check_address = None, be_health_check_port = None, be_enabled = True\<rparr>"

definition demo_db2 :: db where
  "demo_db2 = demo_db\<lparr>db_backends := [demo_backend]\<rparr>"

definition db_transport :: "db \<Rightarrow> unit transport" where
  "db_transport d = demo_transport\<lparr>tr_get := (\<lambda>url h. (Inr (answer d (request_of url)), h))\<rparr>"

definition fw_host :: "(fw_mem, unit) host" where
  "fw_host = \<lparr>h_kn = fw_kn (\<lambda>_. True), h_tr = db_transport demo_db2, h_plugins = [], h_port_bindings = ret [],
     h_io = fs_ok, h_oc = demo_netns_oc, h_set_order = remdups, h_bridge = ''br-int'', h_pool_cidr = DEFAULT_UNDERLAY_EGRESS_CIDR\<rparr>"

definition fw_agent :: "fw_mem chassis \<Rightarrow> (fw_mem, unit) agent" where
  "fw_agent c = \<lparr>ag_chassis = c, ag_alloc_ready = True, ag_client = demo_client, ag_lkg_state = Map.empty, ag_lkg_ts = Map.empty, ag_now = 0\<rparr>"

lemma db_transport_serves: "serves d (db_transport d) []"
  by (simp add: serves_def db_transport_def request_of_path)

lemma demo2_ok: "catalog_ok demo_db2"
  by (simp add: catalog_ok_def demo_db2_def db_wf_def table_wf_def uniq_def service_row_ok_def port_range_def demo_defs demo_backend_def const_defs)

lemma fw_connected: "connected fw_host demo_db2 (fw_agent c)"
  using db_transport_serves demo_serves(2) by (auto simp: connected_def fw_host_def fw_agent_def)

lemma fw_pass_frame: "pass_frame fw_host (\<lambda>k. k)"
  using fw_kn_frame by (simp add: pass_frame_def fw_host_def all_plugins_def keeps_def fw_kn_def)

lemma demo2_endpoints: "catalog_endpoints demo_db2 ''net-b'' = {(''udp'', ''10.0.0.5'', 53)}"
proof -
  have "{s \<in> set (db_services demo_db2). attached (\<lambda>_. True) demo_db2 ''net-b'' s} = {demo_service}"
    by (auto simp: demo_db2_def demo_db_def attached_def has_binding_def demo_service_def)
  moreover have "{b \<in> set (db_backends demo_db2). be_service_id b = svc_id demo_service \<and> be_enabled b} = {demo_backend}"
    by (auto simp: demo_db2_def demo_backend_def demo_service_def)
  moreover have "service_protos (make_service_dict demo_service) = [''udp'']"
    by (simp add: service_protos_def make_service_dict_def demo_service_def const_defs lower_def lower_char_def Let_def)
  moreover have "check_target demo_backend = (''10.0.0.5'', 53)" by (simp add: check_target_def demo_backend_def)
  ultimately show ?thesis
    by (simp add: catalog_endpoints_def row_endpoints_def) (simp add: demo_backend_def)
qed

end
