(* ===== verification/VipFamily.thy ===== *)
theory VipFamily
  imports ServicePlugin
begin

text \<open>
  The family of a VIP. \<^verbatim>\<open>_validate_service_payload\<close> of \<^verbatim>\<open>db/local_services_db.py\<close> checks \<^verbatim>\<open>local_ipv4\<close> as an address,
  not as an IPv4 address; \<^verbatim>\<open>compute_service_routes\<close> of \<^verbatim>\<open>host_routes.py\<close> turns it into a route of an IPv4 subnet. Here is
  what that does to the routes of a network, with a core plugin that refuses such a route, as Neutron does
  (\<^verbatim>\<open>_validate_host_route\<close>: the destination must have the IP version of the subnet).
\<close>

definition refuses_foreign :: "('ip, 'net) netaddr \<Rightarrow> 'w core_plugin \<Rightarrow> ('w \<Rightarrow> subnet list) \<Rightarrow> bool" where
  "refuses_foreign na cp subnets \<longleftrightarrow>
     (\<forall>w t i rs r dest net. t \<in> set (subnets w) \<and> sn_id t = Some i \<and> sn_ip_version t = Some 4 \<and> r \<in> set rs
        \<and> rt_destination r = Some dest \<and> IPNetwork na dest = Some net \<and> net_version na net \<noteq> 4
        \<longrightarrow> (\<exists>e w'. cp_update_subnet cp i rs w = (Inl e, w')))"

text \<open>A service whose \<^verbatim>\<open>local_ipv4\<close> is an address of another family.\<close>

definition foreign_vip :: "('ip, 'net) netaddr \<Rightarrow> string \<Rightarrow> bool" where
  "foreign_vip na x \<longleftrightarrow> x \<noteq> [] \<and> (\<exists>ip. IPAddress na x = Some ip \<and> ip_version na ip \<noteq> 4)
     \<and> (\<exists>net. IPNetwork na (x @ ''/32'') = Some net \<and> net_version na net \<noteq> 4)"

text \<open>The subnets of a network that are marked IPv4 have an IPv4 CIDR.\<close>

definition v4_cidrs :: "('ip, 'net) netaddr \<Rightarrow> string \<Rightarrow> subnet list \<Rightarrow> bool" where
  "v4_cidrs na n ts \<longleftrightarrow> (\<forall>t net. t \<in> set ts \<and> sn_network_id t = Some n \<and> sn_ip_version t = Some 4
      \<and> parse_cidr na (dget (sn_cidr t)) = Some net \<longrightarrow> net_version na net = 4)"

lemma foreign_published:
  assumes "foreign_vip na x" "sd_local_ipv4 svc = Some x" "get_enabled (sd_enabled svc)"
    "\<And>net. parse_cidr na (dget (sn_cidr t)) = Some net \<Longrightarrow> net_version na net = 4"
  shows "publishable na (parse_cidr na (dget (sn_cidr t))) svc"
  using assms by (auto simp: publishable_def foreign_vip_def same_family_in_def truthy_str_iff)

lemma no_port_no_change: "routes_equal (merge existing [] None) existing"
proof -
  have "usable_pairs (filter (tenant_route [] None) rs) = usable_pairs rs" for rs
    by (induction rs) (auto simp: usable_pairs_def truthy_str_iff tenant_route_def)
  then show ?thesis by (simp add: routes_equal_mset merge_eq)
qed

text \<open>One subnet: the update is refused or not needed.\<close>

lemma refresh_blocked:
  assumes cp: "core_ok (ev_cp ev) ports subnets" "refuses_foreign (ev_na ev) (ev_cp ev) subnets"
    and svc: "foreign_vip (ev_na ev) x" "svc \<in> set svcs" "sd_local_ipv4 svc = Some x" "get_enabled (sd_enabled svc)"
    and t: "t \<in> set (subnets w)" "sn_network_id t = Some n" "sn_id t = Some i"
      "\<And>net. sn_ip_version t = Some 4 \<Longrightarrow> parse_cidr (ev_na ev) (dget (sn_cidr t)) = Some net \<Longrightarrow> net_version (ev_na ev) net = 4"
  obtains w' where "refresh_subnet ev svcs t w = (Inr (), w')" "ports w' = ports w" "subnets w' = subnets w"
proof (cases "sn_ip_version t \<noteq> Some 4 \<or> routes_equal (wanted_routes ev (ports w) svcs t) (routes_of t)")
  case True
  then show thesis using that refresh_subnet_run[OF cp(1) t(2,3), of svcs w] by simp
next
  case False
  let ?rs = "wanted_routes ev (ports w) svcs t"
  obtain nh where nh: "subnet_nexthop (ev_oc ev) (ports w) t = Some nh"
    using False no_port_no_change[of "routes_of t"]
    by (cases "subnet_nexthop (ev_oc ev) (ports w) t") (simp_all add: wanted_routes_def subnet_routes_def)
  have "publishable (ev_na ev) (parse_cidr (ev_na ev) (dget (sn_cidr t))) svc"
    using foreign_published[OF svc(1,3,4)] t(4) False by blast
  then have r: "service_route x nh \<in> set ?rs"
    using svc(2,3) nh by (force simp: wanted_routes_def subnet_routes_def merge_eq service_routes_filter)
  obtain net where net: "IPNetwork (ev_na ev) (x @ ''/32'') = Some net" "net_version (ev_na ev) net \<noteq> 4"
    using svc(1) by (auto simp: foreign_vip_def)
  have dest: "rt_destination (service_route x nh) = Some (x @ ''/32'')" by (simp add: service_route_def)
  obtain e w' where up: "cp_update_subnet (ev_cp ev) i ?rs w = (Inl e, w')"
    using cp(2) t(1,3) False r dest net unfolding refuses_foreign_def by blast
  show thesis
    using that[of w'] refresh_subnet_run[OF cp(1) t(2,3), of svcs w] False up core_update[OF cp(1) up] by simp
qed

section \<open>Properties\<close>

text \<open>
  C4. One service can stop the host routes of every network it is attached to. The validation of the payload takes an IPv6
  address in \<^verbatim>\<open>local_ipv4\<close> whenever it would take it in \<^verbatim>\<open>local_ipv6\<close>; once such a service is attached to a network (an opt-out
  service is attached to all), every refresh of the network returns and no IPv4 subnet gets a route or loses one,
  whatever the other services of the network are: the update of each subnet is refused as a whole.
\<close>

theorem foreign_vip_blocks_routes:
  assumes cp: "core_ok (ev_cp ev) ports subnets" "refuses_foreign (ev_na ev) (ev_cp ev) subnets"
    and ev: "set_order_ok (ev_order ev)" "db_wf (sv_db v)" "subnets_wf (subnets (sv_core v))" "v4_cidrs (ev_na ev) n (subnets (sv_core v))"
    and s: "s \<in> set (db_services (sv_db v))" "attached (ev_ctx ev) (sv_db v) n s" "svc_local_ipv4 s = Some x"
    and x: "foreign_vip (ev_na ev) x" "validate_service_payload (ev_na ev) (ev_conf ev) None (Some x) = Inr ()"
  shows "validate_service_payload (ev_na ev) (ev_conf ev) (Some x) None = Inr ()
    \<and> (\<exists>v'. refresh_subnet_routes ev n v = (Inr (), v')
        \<and> sv_db v' = sv_db v \<and> ports (sv_core v') = ports (sv_core v) \<and> subnets (sv_core v') = subnets (sv_core v))"
proof -
  let ?svcs = "enabled_services_for_network (ev_order ev) (ev_ctx ev) (sv_db v) n"
  let ?ts = "filter (\<lambda>t. sn_network_id t = Some n) (subnets (sv_core v))"
  have svc: "make_service_dict s \<in> set ?svcs" "sd_local_ipv4 (make_service_dict s) = Some x" "get_enabled (sd_enabled (make_service_dict s))"
    using s enabled_services_eq(1)[OF ev(2,1)] by (auto simp: attached_def)
  have one: "\<exists>w'. refresh_subnet ev ?svcs t w = (Inr (), w') \<and> ports w' = ports w \<and> subnets w' = subnets w"
    if t: "t \<in> set ?ts" and w: "subnets w = subnets (sv_core v)" for t w
  proof -
    obtain i where i: "sn_id t = Some i"
      using ev(3) t by (cases "sn_id t") (force simp: subnets_wf_def image_iff)+
    have "t \<in> set (subnets w)" "sn_network_id t = Some n"
        "\<And>net. sn_ip_version t = Some 4 \<Longrightarrow> parse_cidr (ev_na ev) (dget (sn_cidr t)) = Some net \<Longrightarrow> net_version (ev_na ev) net = 4"
      using t w ev(4) by (auto simp: v4_cidrs_def)
    from refresh_blocked[OF cp x(1) svc this(1,2) i this(3)] show ?thesis by metis
  qed
  have "\<exists>w'. each (refresh_subnet ev ?svcs) us w = (Inr (), w') \<and> ports w' = ports w \<and> subnets w' = subnets w"
    if "set us \<subseteq> set ?ts" "subnets w = subnets (sv_core v)" for us w
    using that
  proof (induction us arbitrary: w)
    case (Cons t us)
    obtain w1 where w1: "refresh_subnet ev ?svcs t w = (Inr (), w1)" "ports w1 = ports w" "subnets w1 = subnets w"
      using one[of t w] Cons.prems by auto
    with Cons.IH[of w1] Cons.prems show ?case by (simp add: andthen_def bnd_def)
  qed (simp add: ret_def)
  from this[of ?ts "sv_core v"] obtain w' where "each (refresh_subnet ev ?svcs) ?ts (sv_core v) = (Inr (), w')"
      "ports w' = ports (sv_core v)" "subnets w' = subnets (sv_core v)" by auto
  then have "refresh_subnet_routes ev n v = (Inr (), v\<lparr>sv_core := w'\<rparr>)" "ports w' = ports (sv_core v)" "subnets w' = subnets (sv_core v)"
    by (simp_all add: refresh_subnet_routes_def effective_services_def on_core_def bnd_def core_reads(2)[OF cp(1)])
  moreover have "validate_service_payload (ev_na ev) (ev_conf ev) (Some x) None = Inr ()"
    using x(2) by (auto simp: validate_service_payload_def validate_vip_def[of _ _ None] split: if_splits sum.splits)
  ultimately show ?thesis by auto
qed

text \<open>
  The witness: the default configuration, which allows \<^verbatim>\<open>fe80::/10\<close>, a netaddr that knows the addresses it names, and
  a service for DNS at \<^verbatim>\<open>fe80::53\<close>, entered as \<^verbatim>\<open>local_ipv4\<close>.
\<close>

definition ll_base :: nat where
  "ll_base = 338288524927261089654018896841347694592"

definition netaddr_dual :: "(nat, nat \<times> nat) netaddr" where
  "netaddr_dual = netaddr_v4\<lparr>
     IPAddress := (\<lambda>s. if s = ''fe80::53'' then Some (ll_base + 83) else parse_ipv4 s),
     IPNetwork := (\<lambda>s. if s = ''fe80::/10'' then Some (ll_base, 10) else if s = ''fe80::53/32'' then Some (ll_base, 32) else v4_net s),
     ip_version := (\<lambda>ip. if ip < 2 ^ 32 then 4 else 6), net_version := (\<lambda>(n, p). if n < 2 ^ 32 then 4 else 6),
     ip_in_net := (\<lambda>ip (n, p). n \<le> ip \<and> ip < n + 2 ^ ((if n < 2 ^ 32 then 32 else 128) - p)),
     ip_str := (\<lambda>ip. if ip = ll_base + 83 then ''fe80::53'' else str_ipv4 ip),
     is_reserved := (\<lambda>ip. ip < 2 ^ 32 \<and> 240 \<le> ip div 16777216),
     is_netmask := (\<lambda>ip. ip < 2 ^ 32 \<and> prefix_of_mask ip \<noteq> None),
     is_hostmask := (\<lambda>ip. ip < 2 ^ 32 \<and> prefix_of_mask (2 ^ 32 - 1 - ip) \<noteq> None)\<rparr>"

definition strict_core :: "mem core_plugin" where
  "strict_core = mem_core\<lparr>cp_update_subnet := (\<lambda>i rs w.
     if \<exists>r \<in> set rs. case rt_destination r of None \<Rightarrow> False | Some dest \<Rightarrow>
          (case IPNetwork netaddr_dual dest of None \<Rightarrow> False | Some net \<Rightarrow> net_version netaddr_dual net \<noteq> 4)
     then (Inl (Foreign ''InvalidInput''), w) else cp_update_subnet mem_core i rs w)\<rparr>"

definition dual_ev :: "(nat, nat \<times> nat, mem) env" where
  "dual_ev = demo_ev\<lparr>ev_na := netaddr_dual, ev_cp := strict_core\<rparr>"

definition foreign_service :: service where
  "foreign_service = demo_service\<lparr>svc_local_ipv4 := Some ''fe80::53''\<rparr>"

definition dual_server :: "mem server" where
  "dual_server = \<lparr>sv_db = demo_db\<lparr>db_services := [foreign_service]\<rparr>, sv_core = demo_mem\<rparr>"

lemma dual_ev_sel [simp]:
  "ev_na dual_ev = netaddr_dual" "ev_oc dual_ev = demo_oc" "ev_order dual_ev = remdups" "ev_ctx dual_ev = (\<lambda>_. True)"
  "ev_cp dual_ev = strict_core" "ev_conf dual_ev = default_vip_conf"
  by (simp_all add: dual_ev_def)

lemma strict_core_ok: "core_ok strict_core mem_ports mem_subnets" "refuses_foreign netaddr_dual strict_core mem_subnets"
proof -
  show "core_ok strict_core mem_ports mem_subnets"
    unfolding core_ok_def core_reads_ok_def core_writes_ok_def by (simp add: strict_core_def mem_port_ok)
  show "refuses_foreign netaddr_dual strict_core mem_subnets"
    unfolding refuses_foreign_def strict_core_def by (force split: option.splits)
qed

lemma foreign_53: "foreign_vip netaddr_dual ''fe80::53''"
  by (simp add: foreign_vip_def netaddr_dual_def ll_base_def)

lemma foreign_53_accepted: "validate_service_payload netaddr_dual default_vip_conf None (Some ''fe80::53'') = Inr ()"
  by (simp add: validate_service_payload_def validate_vip_def default_vip_conf_def const_defs v4_eval netaddr_dual_def
      ll_base_def truthy_str_iff)

lemma dual_server_ok:
  "db_wf (sv_db dual_server)" "subnets_wf (mem_subnets (sv_core dual_server))" "v4_cidrs netaddr_dual ''n1'' (mem_subnets (sv_core dual_server))"
  using demo_wf by (simp_all add: dual_server_def foreign_service_def demo_defs db_wf_def table_wf_def uniq_def service_row_ok_def
      port_range_def const_defs subnets_wf_def v4_cidrs_def parse_cidr_def v4_eval netaddr_dual_def)

theorem foreign_vip_blocks_routes_witness:
  "validate_service_payload netaddr_dual default_vip_conf (Some ''fe80::53'') None = Inr ()
   \<and> (\<exists>v'. refresh_subnet_routes dual_ev ''n1'' dual_server = (Inr (), v') \<and> mem_subnets (sv_core v') = [demo_subnet])"
proof -
  have s: "foreign_service \<in> set (db_services (sv_db dual_server))" "attached (\<lambda>_. True) (sv_db dual_server) ''n1'' foreign_service"
      "svc_local_ipv4 foreign_service = Some ''fe80::53''"
    by (simp_all add: dual_server_def foreign_service_def attached_def has_binding_def demo_defs)
  from foreign_vip_blocks_routes[where ev = dual_ev and ports = mem_ports and subnets = mem_subnets and v = dual_server and n = "''n1''",
      OF _ _ _ dual_server_ok(1,2) _ s(1) _ s(3)] strict_core_ok remdups_order dual_server_ok(3) s(2) foreign_53 foreign_53_accepted
  show ?thesis by (simp add: dual_server_def demo_mem_def) blast
qed

end
