(* ===== verification/PluginStart.thy ===== *)
theory PluginStart
  imports ServicePlugin
begin

text \<open>
  The service plugin as an object (\<^verbatim>\<open>plugin/plugin.py\<close>): construction, its subscriptions, the cached references to the
  core plugin and the mech driver, and the start of the periodic loop. The plugin directory, the
  configuration and the looping call are parameters. The core plugin is what its mechanism manager gives for the
  OVN driver: a driver, or the exception the lookup raises.
\<close>

section \<open>Definitions\<close>

datatype mech_ref = MechUnset | MechUnavailable | MechDriver "string \<Rightarrow> nat \<Rightarrow> lsp_lookup"

type_synonym core_ref = "exc + (string \<Rightarrow> nat \<Rightarrow> lsp_lookup)"

datatype subnet_event = BEFORE_CREATE | BEFORE_UPDATE

record plugin_obj =
  po_initialize_called :: bool
  po_core_plugin_ref :: "core_ref option"
  po_mech_driver_ref :: mech_ref
  po_subscriptions :: "subnet_event list"
  po_reconcile_thread :: "int option"

definition plugin_obj0 :: plugin_obj where
  "plugin_obj0 = \<lparr>po_initialize_called = False, po_core_plugin_ref = None, po_mech_driver_ref = MechUnset, po_subscriptions = [], po_reconcile_thread = None\<rparr>"

definition subscribe :: "subnet_event \<Rightarrow> (plugin_obj, unit) act" where
  "subscribe e = modify (\<lambda>p. p\<lparr>po_subscriptions := po_subscriptions p @ [e]\<rparr>)"

definition handler_register :: "(plugin_obj, unit) act" where
  "handler_register = andthen (subscribe BEFORE_CREATE) (subscribe BEFORE_UPDATE)"

text \<open>\<open>interval\<close> is \<open>None\<close> when the option is not registered; \<open>launch\<close> is the exception with which starting the loop fails.\<close>

definition start_reconciler :: "int option \<Rightarrow> exc option \<Rightarrow> (plugin_obj, unit) act" where
  "start_reconciler interval launch =
     (case interval of
        None \<Rightarrow> ret ()
      | Some seconds \<Rightarrow>
          attempt
            (andthen (modify (\<lambda>p. p\<lparr>po_reconcile_thread := Some seconds\<rparr>))
               (case launch of None \<Rightarrow> ret () | Some e \<Rightarrow> raise e))
            (\<lambda>_. modify (\<lambda>p. p\<lparr>po_reconcile_thread := None\<rparr>)))"

definition init_plugin :: "string list option \<Rightarrow> int option \<Rightarrow> exc option \<Rightarrow> (plugin_obj, unit) act" where
  "init_plugin providers interval launch =
     andthen (modify (\<lambda>p. p\<lparr>po_initialize_called := False, po_core_plugin_ref := None, po_mech_driver_ref := MechUnset\<rparr>))
       (if octavia_provider_loaded providers then raise OctaviaConflictError
        else andthen handler_register
          (andthen (modify (\<lambda>p. p\<lparr>po_reconcile_thread := None\<rparr>)) (start_reconciler interval launch)))"

definition initialize_plugin :: "string list option \<Rightarrow> (plugin_obj, unit) act" where
  "initialize_plugin providers =
     andthen (modify (\<lambda>p. p\<lparr>po_initialize_called := True\<rparr>))
       (if octavia_provider_loaded providers then raise OctaviaConflictError else ret ())"

text \<open>\<open>directory\<close> is what \<^verbatim>\<open>directory.get_plugin()\<close> returns at the time of the call, \<^verbatim>\<open>None\<close> when no core plugin is loaded.\<close>

definition core_plugin_of :: "core_ref option \<Rightarrow> (plugin_obj, core_ref option) act" where
  "core_plugin_of directory =
     bnd (gets po_core_plugin_ref) (\<lambda>r.
       andthen (doif (r = None) (modify (\<lambda>p. p\<lparr>po_core_plugin_ref := directory\<rparr>)))
         (gets po_core_plugin_ref))"

definition mech_lookup :: "core_ref option \<Rightarrow> (plugin_obj, string \<Rightarrow> nat \<Rightarrow> lsp_lookup) act" where
  "mech_lookup core =
     (case core of
        None \<Rightarrow> raise AttributeError
      | Some (Inl e) \<Rightarrow> raise e
      | Some (Inr drv) \<Rightarrow> ret drv)"

definition is_key_error :: "exc \<Rightarrow> bool" where
  "is_key_error e = (case e of KeyError k \<Rightarrow> True | _ \<Rightarrow> False)"

definition mech_driver_of :: "core_ref option \<Rightarrow> (plugin_obj, mech_driver) act" where
  "mech_driver_of directory =
     bnd (gets po_mech_driver_ref) (\<lambda>r.
       andthen
         (doif (r = MechUnset)
            (attempt
               (bnd (core_plugin_of directory) (\<lambda>core.
                bnd (mech_lookup core) (\<lambda>drv. modify (\<lambda>p. p\<lparr>po_mech_driver_ref := MechDriver drv\<rparr>))))
               (\<lambda>e. if e = AttributeError \<or> is_key_error e \<or> e = Foreign ''TypeError''
                    then modify (\<lambda>p. p\<lparr>po_mech_driver_ref := MechUnavailable\<rparr>) else raise e)))
         (gets (\<lambda>p. case po_mech_driver_ref p of MechDriver drv \<Rightarrow> Some drv | _ \<Rightarrow> None)))"

section \<open>Properties\<close>

text \<open>
  Construction is guarded: next to the OVN Octavia provider it raises before it has subscribed to anything or
  started the loop; otherwise it returns with both subscriptions, and the loop runs exactly when its interval is
  registered and it could be started.
\<close>

theorem startup_guarded:
  "(case init_plugin providers interval launch plugin_obj0 of
      (r, p) \<Rightarrow>
        r = (if octavia_provider_loaded providers then Inl OctaviaConflictError else Inr ())
        \<and> po_subscriptions p = (if octavia_provider_loaded providers then [] else [BEFORE_CREATE, BEFORE_UPDATE])
        \<and> po_reconcile_thread p = (if octavia_provider_loaded providers \<or> launch \<noteq> None then None else interval))"
  by (cases interval; cases launch)
     (simp_all add: init_plugin_def handler_register_def subscribe_def start_reconciler_def plugin_obj0_def andthen_def bnd_def attempt_def)

text \<open>The references of a plugin only ever go from unset to a value.\<close>

lemma mech_driver_settled:
  assumes "po_mech_driver_ref p \<noteq> MechUnset"
  shows "mech_driver_of directory p = (Inr (case po_mech_driver_ref p of MechDriver drv \<Rightarrow> Some drv | _ \<Rightarrow> None), p)"
  using assms by (simp add: mech_driver_of_def bnd_def andthen_def doif_def)

text \<open>
  The verdict on the mech driver is final: when the first look finds no core plugin or no OVN driver, the check
  of the type of a localport is skipped for good, whatever the plugin directory says later.
\<close>

theorem unavailable_mech_is_final:
  assumes "po_mech_driver_ref p = MechUnset" "po_core_plugin_ref p = None"
    and "core = None \<or> core = Some (Inl AttributeError) \<or> core = Some (Inl (KeyError ''ovn''))"
  obtains p' where "mech_driver_of core p = (Inr None, p')"
    and "\<And>later. mech_driver_of later p' = (Inr None, p')"
    and "verify_lsp_type oc None i n retries = Inr None"
proof -
  let ?p = "p\<lparr>po_core_plugin_ref := core, po_mech_driver_ref := MechUnavailable\<rparr>"
  have first: "mech_driver_of core p = (Inr None, ?p)"
    using assms
    by (elim disjE) (simp_all add: mech_driver_of_def core_plugin_of_def mech_lookup_def is_key_error_def bnd_def andthen_def doif_def attempt_def)
  have "mech_driver_of later ?p = (Inr None, ?p)" for later
    using mech_driver_settled[of ?p later] by simp
  then show thesis using first that[of ?p] by (simp add: verify_lsp_type_def)
qed

end
