(* ===== verification/Locks.thy ===== *)
theory Locks
  imports Prelude
begin

text \<open>
  The per-network locks of \<^verbatim>\<open>agent/underlay.py\<close>, \<^verbatim>\<open>agent/plugins/nat.py\<close> and \<^verbatim>\<open>agent/plugins/proxy.py\<close>. Each module has a
  dictionary from networks to locks; one function looks the lock of a network up or makes it, another forgets it, both under
  a guard, hence atomic. An operation is a thread that fetches the lock, takes it, runs its body and releases
  it. Teardown drops the lock at its end; that of the underlay takes it before, those of the plugins do not. An
  operation whose body raises releases its lock but goes no further, so a teardown that raises drops nothing. The
  threads interleave in any order, as eventlet's do.

  What an operation needs of the lock table is the locale \<open>lock_provider\<close>; the exclusion is proved there, once, and
  the three modules are its interpretations.
\<close>

section \<open>Definitions\<close>

text \<open>Lock objects are numbered in the order of their creation.\<close>

record lock_table =
  lt_locks :: "string \<rightharpoonup> nat"
  lt_next :: nat

definition per_net_lock :: "string \<Rightarrow> lock_table \<Rightarrow> nat \<times> lock_table" where
  "per_net_lock network_id lt =
     (case lt_locks lt network_id of
        Some lock \<Rightarrow> (lock, lt)
      | None \<Rightarrow> (lt_next lt, lt\<lparr>lt_locks := (lt_locks lt)(network_id \<mapsto> lt_next lt), lt_next := Suc (lt_next lt)\<rparr>))"

definition drop_per_net_lock :: "string \<Rightarrow> lock_table \<Rightarrow> lock_table" where
  "drop_per_net_lock network_id lt = lt\<lparr>lt_locks := (lt_locks lt)(network_id := None)\<rparr>"

text \<open>The functions of the NAT plugin, on the dictionary of its module.\<close>

definition nat_apply_lock_for :: "string \<Rightarrow> lock_table \<Rightarrow> nat \<times> lock_table" where
  "nat_apply_lock_for network_id lt =
     (let lock = lt_locks lt network_id
      in case lock of
           None \<Rightarrow> (lt_next lt, lt\<lparr>lt_locks := (lt_locks lt)(network_id \<mapsto> lt_next lt), lt_next := Suc (lt_next lt)\<rparr>)
         | Some l \<Rightarrow> (l, lt))"

definition nat_drop_apply_lock :: "string \<Rightarrow> lock_table \<Rightarrow> lock_table" where
  "nat_drop_apply_lock network_id lt = lt\<lparr>lt_locks := (lt_locks lt)(network_id := None)\<rparr>"

text \<open>The functions of the proxy plugin, on the dictionary of its module.\<close>

definition proxy_apply_lock_for :: "string \<Rightarrow> lock_table \<Rightarrow> nat \<times> lock_table" where
  "proxy_apply_lock_for network_id lt =
     (let lock = lt_locks lt network_id
      in case lock of
           None \<Rightarrow> (lt_next lt, lt\<lparr>lt_locks := (lt_locks lt)(network_id \<mapsto> lt_next lt), lt_next := Suc (lt_next lt)\<rparr>)
         | Some l \<Rightarrow> (l, lt))"

definition proxy_drop_apply_lock :: "string \<Rightarrow> lock_table \<Rightarrow> lock_table" where
  "proxy_drop_apply_lock network_id lt = lt\<lparr>lt_locks := (lt_locks lt)(network_id := None)\<rparr>"

lemmas lock_ops = per_net_lock_def drop_per_net_lock_def nat_apply_lock_for_def nat_drop_apply_lock_def
  proxy_apply_lock_for_def proxy_drop_apply_lock_def Let_def

datatype locked_op = Provision | Reconcile | Apply | Teardown

text \<open>
  Where a thread stands: before its lock, waiting for it, in its body with it (\<open>Inside\<close>) or without one (\<open>Bare\<close>),
  after its body, at its end.
\<close>

datatype stage = Start | Waiting nat | Inside nat | Bare | Left | Finished

record thread =
  th_op :: locked_op
  th_net :: string
  th_raises :: bool
  th_stage :: stage

record 't lock_world =
  lw_table :: 't
  lw_threads :: "thread list"

definition free_lock :: "thread list \<Rightarrow> nat \<Rightarrow> bool" where
  "free_lock ts lock = list_all (\<lambda>t. th_stage t \<noteq> Inside lock) ts"

text \<open>Whether the thread comes to the statement after its body that drops the lock; the body may raise.\<close>

definition drops :: "thread \<Rightarrow> bool" where
  "drops t = (th_op t = Teardown \<and> \<not> th_raises t)"

text \<open>
  One step of thread \<open>i\<close>; \<open>None\<close> when it is blocked or finished. \<open>fetch\<close> and \<open>forget\<close> are the functions of the module,
  \<open>takes\<close> says which operations take the lock.
\<close>

definition locked_step :: "(string \<Rightarrow> 't \<Rightarrow> nat \<times> 't) \<Rightarrow> (string \<Rightarrow> 't \<Rightarrow> 't) \<Rightarrow> (locked_op \<Rightarrow> bool) \<Rightarrow>
    nat \<Rightarrow> 't lock_world \<Rightarrow> 't lock_world option" where
  "locked_step fetch forget takes i w =
     (if length (lw_threads w) \<le> i then None
      else
        (let t = lw_threads w ! i;
             goto = (\<lambda>s. (lw_threads w)[i := t\<lparr>th_stage := s\<rparr>]);
             leave = (if drops t then Left else Finished)
         in case th_stage t of
              Start \<Rightarrow>
                if takes (th_op t) then
                  (case fetch (th_net t) (lw_table w) of
                     (lock, lt) \<Rightarrow> Some \<lparr>lw_table = lt, lw_threads = goto (Waiting lock)\<rparr>)
                else Some (w\<lparr>lw_threads := goto Bare\<rparr>)
            | Waiting lock \<Rightarrow>
                if free_lock (lw_threads w) lock then Some (w\<lparr>lw_threads := goto (Inside lock)\<rparr>) else None
            | Inside lock \<Rightarrow> Some (w\<lparr>lw_threads := goto leave\<rparr>)
            | Bare \<Rightarrow> Some (w\<lparr>lw_threads := goto leave\<rparr>)
            | Left \<Rightarrow>
                Some \<lparr>lw_table = forget (th_net t) (lw_table w), lw_threads = goto Finished\<rparr>
            | Finished \<Rightarrow> None))"

text \<open>The operations of the underlay, and the two methods of each plugin.\<close>

definition thread_step :: "nat \<Rightarrow> lock_table lock_world \<Rightarrow> lock_table lock_world option" where
  "thread_step = locked_step per_net_lock drop_per_net_lock (\<lambda>_. True)"

definition nat_step :: "nat \<Rightarrow> lock_table lock_world \<Rightarrow> lock_table lock_world option" where
  "nat_step = locked_step nat_apply_lock_for nat_drop_apply_lock (\<lambda>p. p = Apply)"

definition proxy_step :: "nat \<Rightarrow> lock_table lock_world \<Rightarrow> lock_table lock_world option" where
  "proxy_step = locked_step proxy_apply_lock_for proxy_drop_apply_lock (\<lambda>p. p = Apply)"

definition no_locks :: lock_table where
  "no_locks = \<lparr>lt_locks = Map.empty, lt_next = 0\<rparr>"

inductive reachable :: "(nat \<Rightarrow> 't lock_world \<Rightarrow> 't lock_world option) \<Rightarrow> 't \<Rightarrow> 't lock_world \<Rightarrow> bool"
  for next_of :: "nat \<Rightarrow> 't lock_world \<Rightarrow> 't lock_world option" and lt0 :: 't where
  init: "\<forall>t \<in> set ts. th_stage t = Start \<Longrightarrow> reachable next_of lt0 \<lparr>lw_table = lt0, lw_threads = ts\<rparr>"
| step: "reachable next_of lt0 w \<Longrightarrow> next_of i w = Some w' \<Longrightarrow> reachable next_of lt0 w'"

abbreviation lock_reach :: "lock_table lock_world \<Rightarrow> bool" where
  "lock_reach \<equiv> reachable thread_step no_locks"

text \<open>The schedule of a run, for evaluation.\<close>

fun run_threads :: "(nat \<Rightarrow> 't lock_world \<Rightarrow> 't lock_world option) \<Rightarrow> nat list \<Rightarrow> 't lock_world \<Rightarrow> 't lock_world option" where
  "run_threads next_of [] w = Some w"
| "run_threads next_of (i # is) w = (case next_of i w of None \<Rightarrow> None | Some w' \<Rightarrow> run_threads next_of is w')"

lemma run_threads_reach: "reachable next_of lt0 w \<Longrightarrow> run_threads next_of is w = Some w' \<Longrightarrow> reachable next_of lt0 w'"
  by (induction "is" arbitrary: w) (auto split: option.splits intro: reachable.step)

section \<open>The invariant\<close>

definition inside :: "thread \<Rightarrow> bool" where
  "inside t \<longleftrightarrow> th_stage t = Bare \<or> (\<exists>lock. th_stage t = Inside lock)"

text \<open>The lock a thread holds on to.\<close>

fun lock_ref :: "stage \<Rightarrow> nat option" where
  "lock_ref (Waiting l) = Some l"
| "lock_ref (Inside l) = Some l"
| "lock_ref _ = None"

text \<open>Each lock has at most one thread inside; this holds for all networks.\<close>

definition one_inside :: "thread list \<Rightarrow> bool" where
  "one_inside ts \<longleftrightarrow> (\<forall>i j lock. i < length ts \<longrightarrow> j < length ts \<longrightarrow> th_stage (ts ! i) = Inside lock \<longrightarrow>
     th_stage (ts ! j) = Inside lock \<longrightarrow> i = j)"

lemma drops_stage [simp]: "drops (t\<lparr>th_stage := s\<rparr>) = drops t"
  by (simp add: drops_def)

lemma locked_step_cases:
  assumes "locked_step fetch forget takes i w = Some w'"
  obtains (fetch) lock lt where "i < length (lw_threads w)" "th_stage (lw_threads w ! i) = Start"
      "fetch (th_net (lw_threads w ! i)) (lw_table w) = (lock, lt)"
      "w' = \<lparr>lw_table = lt, lw_threads = (lw_threads w)[i := (lw_threads w ! i)\<lparr>th_stage := Waiting lock\<rparr>]\<rparr>"
    | (move) s where "i < length (lw_threads w)" "w' = w\<lparr>lw_threads := (lw_threads w)[i := (lw_threads w ! i)\<lparr>th_stage := s\<rparr>]\<rparr>"
      "s = Bare \<and> \<not> takes (th_op (lw_threads w ! i))
         \<or> (\<exists>lock. s = Inside lock \<and> th_stage (lw_threads w ! i) = Waiting lock \<and> free_lock (lw_threads w) lock)
         \<or> s = (if drops (lw_threads w ! i) then Left else Finished)"
    | (forget) "i < length (lw_threads w)" "th_stage (lw_threads w ! i) = Left"
      "w' = \<lparr>lw_table = forget (th_net (lw_threads w ! i)) (lw_table w),
            lw_threads = (lw_threads w)[i := (lw_threads w ! i)\<lparr>th_stage := Finished\<rparr>]\<rparr>"
  using assms by (auto simp: locked_step_def Let_def split: if_splits stage.splits prod.splits)

lemma one_inside_upd:
  assumes "one_inside ts" "i < length ts" "\<And>lock. s = Inside lock \<Longrightarrow> free_lock ts lock"
  shows "one_inside (ts[i := (ts ! i)\<lparr>th_stage := s\<rparr>])"
  unfolding one_inside_def
proof (intro allI impI)
  fix j k lock
  assume a: "j < length (ts[i := (ts ! i)\<lparr>th_stage := s\<rparr>])" "k < length (ts[i := (ts ! i)\<lparr>th_stage := s\<rparr>])"
    "th_stage (ts[i := (ts ! i)\<lparr>th_stage := s\<rparr>] ! j) = Inside lock" "th_stage (ts[i := (ts ! i)\<lparr>th_stage := s\<rparr>] ! k) = Inside lock"
  have other: "th_stage (ts ! m) \<noteq> Inside lock" if "m < length ts" "s = Inside lock" for m
    using assms(3)[OF that(2)] that(1) by (auto simp: free_lock_def list_all_iff)
  show "j = k"
    using a other assms(1,2) unfolding one_inside_def by (cases "j = i"; cases "k = i") auto
qed

lemma reach_one_inside: "reachable (locked_step fetch forget takes) lt0 w \<Longrightarrow> one_inside (lw_threads w)"
proof (induction rule: reachable.induct)
  case (init ts)
  have "th_stage (ts ! i) = Start" if "i < length ts" for i using init that by simp
  then show ?case by (auto simp: one_inside_def)
next
  case (step w i w')
  from step(2) show ?case
  proof (cases rule: locked_step_cases)
    case (move s)
    have "one_inside ((lw_threads w)[i := (lw_threads w ! i)\<lparr>th_stage := s\<rparr>])"
      by (rule one_inside_upd[OF step.IH move(1)]) (use move(3) in \<open>auto split: if_splits\<close>)
    then show ?thesis by (simp add: move(2))
  qed (use one_inside_upd[OF step.IH] in auto)
qed

text \<open>Which operation a thread runs never changes.\<close>

lemma locked_step_jobs:
  assumes "locked_step fetch forget takes i w = Some w'"
  shows "map (\<lambda>t. (th_op t, th_net t, th_raises t)) (lw_threads w') = map (\<lambda>t. (th_op t, th_net t, th_raises t)) (lw_threads w)"
  using assms by (cases rule: locked_step_cases) (auto simp: map_update list_update_same_conv intro!: list_update_id[THEN trans])

section \<open>What the operations rely on\<close>

locale lock_provider =
  fixes fetch :: "string \<Rightarrow> 't \<Rightarrow> nat \<times> 't" and forget :: "string \<Rightarrow> 't \<Rightarrow> 't" and lookup :: "'t \<Rightarrow> string \<Rightarrow> nat option"
    and takes :: "locked_op \<Rightarrow> bool"
  assumes fetched: "fetch n lt = (lock, lt') \<Longrightarrow> lookup lt' n = Some lock"
    and fetch_keeps: "fetch n lt = (lock, lt') \<Longrightarrow> lookup lt m = Some l \<Longrightarrow> lookup lt' m = Some l"
    and forget_other: "m \<noteq> n \<Longrightarrow> lookup (forget n lt) m = lookup lt m"
begin

text \<open>For a network whose lock no thread drops, every reference is the one in the table and no body runs without a lock.\<close>

definition refs_current :: "string \<Rightarrow> 't lock_world \<Rightarrow> bool" where
  "refs_current n w \<longleftrightarrow> (\<forall>t \<in> set (lw_threads w). th_net t = n \<longrightarrow>
     \<not> drops t \<and> takes (th_op t) \<and> th_stage t \<noteq> Left \<and> th_stage t \<noteq> Bare
     \<and> (\<forall>lock. lock_ref (th_stage t) = Some lock \<longrightarrow> lookup (lw_table w) n = Some lock))"

lemma refs_current_step:
  assumes "refs_current n w" "locked_step fetch forget takes i w = Some w'"
  shows "refs_current n w'"
  using assms(2)
proof (cases rule: locked_step_cases)
  case (fetch lock lt)
  have "lw_threads w ! i \<in> set (lw_threads w)" using fetch(1) by simp
  then show ?thesis
    using assms(1) fetch_keeps[OF fetch(3)] fetched[OF fetch(3)] unfolding refs_current_def fetch(4)
    by (auto dest!: subsetD[OF set_update_subset_insert])
next
  case (move s)
  then have i: "lw_threads w ! i \<in> set (lw_threads w)" by simp
  then have "th_net (lw_threads w ! i) = n \<Longrightarrow> s \<noteq> Left \<and> s \<noteq> Bare \<and> (lock_ref s = Some l \<longrightarrow> lookup (lw_table w) n = Some l)" for l
    using assms(1) move(3) by (auto simp: refs_current_def split: if_splits)
  then show ?thesis
    using assms(1) i unfolding refs_current_def move(2) by (auto dest!: subsetD[OF set_update_subset_insert])
next
  case forget
  then have i: "lw_threads w ! i \<in> set (lw_threads w)" by simp
  then have "th_net (lw_threads w ! i) \<noteq> n" using assms(1) forget(2) by (auto simp: refs_current_def)
  then show ?thesis
    using assms(1) unfolding refs_current_def forget(3)
    by (auto simp: forget_other dest!: subsetD[OF set_update_subset_insert])
qed

lemma reach_refs_current:
  assumes "reachable (locked_step fetch forget takes) lt0 w"
    "\<forall>t \<in> set (lw_threads w). th_net t = n \<longrightarrow> \<not> drops t \<and> takes (th_op t)"
  shows "refs_current n w"
  using assms
proof (induction rule: reachable.induct)
  case (init ts)
  then show ?case by (auto simp: refs_current_def)
next
  case (step w i w')
  have "set (map (\<lambda>t. (th_op t, th_net t, th_raises t)) (lw_threads w')) = set (map (\<lambda>t. (th_op t, th_net t, th_raises t)) (lw_threads w))"
    using locked_step_jobs[OF step(2)] by (rule arg_cong)
  then have jobs: "(\<lambda>t. (th_op t, th_net t, th_raises t)) ` set (lw_threads w) = (\<lambda>t. (th_op t, th_net t, th_raises t)) ` set (lw_threads w')" by simp
  have "\<not> drops t \<and> takes (th_op t)" if t: "t \<in> set (lw_threads w)" "th_net t = n" for t
  proof -
    obtain t' where "t' \<in> set (lw_threads w')" "th_op t' = th_op t" "th_net t' = th_net t" "th_raises t' = th_raises t"
      using imageI[OF t(1), of "\<lambda>t. (th_op t, th_net t, th_raises t)"] unfolding jobs by auto
    then show ?thesis using step.prems t(2) unfolding drops_def by metis
  qed
  then have "\<forall>t \<in> set (lw_threads w). th_net t = n \<longrightarrow> \<not> drops t \<and> takes (th_op t)" by blast
  then show ?case by (rule refs_current_step[OF step.IH step(2)])
qed

lemma excludes:
  assumes "reachable (locked_step fetch forget takes) lt0 w"
    "\<forall>t \<in> set (lw_threads w). th_net t = n \<longrightarrow> \<not> drops t \<and> takes (th_op t)"
    and "i < length (lw_threads w)" "inside (lw_threads w ! i)" "th_net (lw_threads w ! i) = n"
    and "j < length (lw_threads w)" "inside (lw_threads w ! j)" "th_net (lw_threads w ! j) = n"
  shows "i = j"
proof -
  have cur: "\<exists>l. th_stage (lw_threads w ! k) = Inside l \<and> lookup (lw_table w) n = Some l"
    if "k < length (lw_threads w)" "th_net (lw_threads w ! k) = n" "inside (lw_threads w ! k)" for k
    using reach_refs_current[OF assms(1,2)] that by (fastforce simp: refs_current_def inside_def)
  obtain l where "th_stage (lw_threads w ! i) = Inside l" "th_stage (lw_threads w ! j) = Inside l"
    using cur[OF assms(3,5,4)] cur[OF assms(6,8,7)] by auto
  then show ?thesis
    using reach_one_inside[OF assms(1)] assms(3,6) unfolding one_inside_def by blast
qed

end

interpretation underlay_locks: lock_provider per_net_lock drop_per_net_lock lt_locks "\<lambda>_. True"
  by unfold_locales (auto simp: lock_ops split: option.splits if_splits)

interpretation nat_locks: lock_provider nat_apply_lock_for nat_drop_apply_lock lt_locks "\<lambda>p. p = Apply"
  by unfold_locales (auto simp: lock_ops split: option.splits if_splits)

interpretation proxy_locks: lock_provider proxy_apply_lock_for proxy_drop_apply_lock lt_locks "\<lambda>p. p = Apply"
  by unfold_locales (auto simp: lock_ops split: option.splits if_splits)

text \<open>Threads at their start, none of which will raise.\<close>

definition threads_of :: "(locked_op \<times> string) list \<Rightarrow> lock_table lock_world" where
  "threads_of jobs = \<lparr>lw_table = no_locks, lw_threads = map (\<lambda>(p, n). \<lparr>th_op = p, th_net = n, th_raises = False, th_stage = Start\<rparr>) jobs\<rparr>"

lemma threads_of_reach: "reachable next_of no_locks (threads_of jobs)"
  unfolding threads_of_def by (rule reachable.init) auto

lemmas thread_eval = threads_of_def no_locks_def thread_step_def nat_step_def proxy_step_def locked_step_def drops_def lock_ops free_lock_def

section \<open>Properties\<close>

text \<open>
  C37. The locks serialise the operations on a network that is not torn down: in every reachable
  state of any number of threads, of any interleaving, two threads inside their bodies for a
  network that no thread tears down are the same thread, whatever the threads of the other
  networks do and whichever bodies raise. A teardown that raises, and so never drops the lock, is
  serialised with the others too.
\<close>

theorem locks_exclude:
  assumes "lock_reach w" "\<forall>t \<in> set (lw_threads w). th_net t = n \<longrightarrow> \<not> drops t"
    and "i < length (lw_threads w)" "inside (lw_threads w ! i)" "th_net (lw_threads w ! i) = n"
    and "j < length (lw_threads w)" "inside (lw_threads w ! j)" "th_net (lw_threads w ! j) = n"
  shows "i = j"
  using underlay_locks.excludes[OF _ _ assms(3-8)] assms(1,2) by (simp add: thread_step_def)

theorem locks_exclude_witness:
  "\<exists>w. run_threads thread_step [0, 1, 0] (threads_of [(Provision, ''n''), (Reconcile, ''n'')]) = Some w
     \<and> lock_reach w \<and> inside (lw_threads w ! 0) \<and> \<not> inside (lw_threads w ! 1)"
proof -
  obtain w where w: "run_threads thread_step [0, 1, 0] (threads_of [(Provision, ''n''), (Reconcile, ''n'')]) = Some w"
    by (simp add: thread_eval)
  have r: "lock_reach w" by (rule run_threads_reach[OF threads_of_reach w])
  have e: "lw_threads w = [\<lparr>th_op = Provision, th_net = ''n'', th_raises = False, th_stage = Inside 0\<rparr>, \<lparr>th_op = Reconcile, th_net = ''n'', th_raises = False, th_stage = Waiting 0\<rparr>]"
    using w by (auto simp: thread_eval)
  have "inside (lw_threads w ! 1) \<Longrightarrow> (0::nat) = 1"
    by (rule locks_exclude[OF r, of "''n''"]) (simp_all add: e inside_def drops_def)
  then show ?thesis using w r e by (auto simp: inside_def)
qed

text \<open>
  C38. Teardown breaks the exclusion: it drops the lock from the table after releasing it, while another
  thread may hold a reference to it and wait. There is a reachable state in which a provision and a
  reconcile of one network are inside their bodies at the same time, each with a lock of its own.
\<close>

theorem teardown_breaks_exclusion:
  "\<exists>w. lock_reach w \<and> length (lw_threads w) = 3
     \<and> lw_threads w ! 1 = \<lparr>th_op = Provision, th_net = n, th_raises = False, th_stage = Inside 0\<rparr>
     \<and> lw_threads w ! 2 = \<lparr>th_op = Reconcile, th_net = n, th_raises = False, th_stage = Inside 1\<rparr>"
proof -
  obtain w where w: "run_threads thread_step [0, 1, 0, 0, 0, 1, 2, 2] (threads_of [(Teardown, n), (Provision, n), (Reconcile, n)]) = Some w"
    "length (lw_threads w) = 3" "lw_threads w ! 1 = \<lparr>th_op = Provision, th_net = n, th_raises = False, th_stage = Inside 0\<rparr>"
    "lw_threads w ! 2 = \<lparr>th_op = Reconcile, th_net = n, th_raises = False, th_stage = Inside 1\<rparr>"
    by (simp add: thread_eval)
  then show ?thesis using run_threads_reach[OF threads_of_reach] by blast
qed

text \<open>
  The apply locks of the plugins: passes of one network that is not torn down exclude each other, in the NAT plugin and in the
  proxy plugin, whatever happens to other networks.
\<close>

theorem passes_exclude:
  assumes "reachable nat_step no_locks w \<or> reachable proxy_step no_locks w"
    and "\<forall>t \<in> set (lw_threads w). th_net t = n \<longrightarrow> th_op t = Apply"
    and "i < length (lw_threads w)" "inside (lw_threads w ! i)" "th_net (lw_threads w ! i) = n"
    and "j < length (lw_threads w)" "inside (lw_threads w ! j)" "th_net (lw_threads w ! j) = n"
  shows "i = j"
  using nat_locks.excludes[OF _ _ assms(3-8)] proxy_locks.excludes[OF _ _ assms(3-8)] assms(1,2)
  by (auto simp: nat_step_def proxy_step_def drops_def)

theorem passes_exclude_witness:
  "\<exists>w. run_threads nat_step [0, 1, 0] (threads_of [(Apply, ''n''), (Apply, ''n'')]) = Some w
     \<and> reachable nat_step no_locks w \<and> inside (lw_threads w ! 0) \<and> \<not> inside (lw_threads w ! 1)"
proof -
  obtain w where w: "run_threads nat_step [0, 1, 0] (threads_of [(Apply, ''n''), (Apply, ''n'')]) = Some w"
    by (simp add: thread_eval)
  have r: "reachable nat_step no_locks w" by (rule run_threads_reach[OF threads_of_reach w])
  have e: "lw_threads w = [\<lparr>th_op = Apply, th_net = ''n'', th_raises = False, th_stage = Inside 0\<rparr>, \<lparr>th_op = Apply, th_net = ''n'', th_raises = False, th_stage = Waiting 0\<rparr>]"
    using w by (auto simp: thread_eval)
  have "inside (lw_threads w ! 1) \<Longrightarrow> (0::nat) = 1"
    by (rule passes_exclude[of w "''n''"]) (simp_all add: r e inside_def)
  then show ?thesis using w r e by (auto simp: inside_def)
qed

text \<open>
  C39. The teardown of a plugin is not serialised with its passes: it never takes the apply lock. There is a reachable state, in the NAT
  plugin and in the proxy plugin, in which a pass and a teardown of one network are in their bodies, and one in which the
  dropped lock lets two passes in.
\<close>

theorem plugin_teardown_unserialised:
  assumes "next_of = nat_step \<or> next_of = proxy_step"
  shows "(\<exists>w. reachable next_of no_locks w \<and> length (lw_threads w) = 2
       \<and> lw_threads w ! 0 = \<lparr>th_op = Apply, th_net = n, th_raises = False, th_stage = Inside 0\<rparr>
       \<and> lw_threads w ! 1 = \<lparr>th_op = Teardown, th_net = n, th_raises = False, th_stage = Bare\<rparr>)
    \<and> (\<exists>w. reachable next_of no_locks w \<and> length (lw_threads w) = 3
       \<and> lw_threads w ! 0 = \<lparr>th_op = Apply, th_net = n, th_raises = False, th_stage = Inside 0\<rparr>
       \<and> lw_threads w ! 2 = \<lparr>th_op = Apply, th_net = n, th_raises = False, th_stage = Inside 1\<rparr>)"
proof -
  obtain w where "run_threads next_of [0, 0, 1] (threads_of [(Apply, n), (Teardown, n)]) = Some w"
    "length (lw_threads w) = 2" "lw_threads w ! 0 = \<lparr>th_op = Apply, th_net = n, th_raises = False, th_stage = Inside 0\<rparr>"
    "lw_threads w ! 1 = \<lparr>th_op = Teardown, th_net = n, th_raises = False, th_stage = Bare\<rparr>"
    using assms by (auto simp: thread_eval)
  moreover obtain w' where "run_threads next_of [0, 0, 1, 1, 1, 2, 2] (threads_of [(Apply, n), (Teardown, n), (Apply, n)]) = Some w'"
    "length (lw_threads w') = 3" "lw_threads w' ! 0 = \<lparr>th_op = Apply, th_net = n, th_raises = False, th_stage = Inside 0\<rparr>"
    "lw_threads w' ! 2 = \<lparr>th_op = Apply, th_net = n, th_raises = False, th_stage = Inside 1\<rparr>"
    using assms by (auto simp: thread_eval)
  ultimately show ?thesis using run_threads_reach[OF threads_of_reach] by blast
qed

theorem plugin_teardown_unserialised_witness:
  "\<exists>w. reachable nat_step no_locks w \<and> inside (lw_threads w ! 0) \<and> inside (lw_threads w ! 1)"
proof -
  have "\<exists>w. reachable nat_step no_locks w \<and> length (lw_threads w) = 2
       \<and> lw_threads w ! 0 = \<lparr>th_op = Apply, th_net = ''n'', th_raises = False, th_stage = Inside 0\<rparr>
       \<and> lw_threads w ! 1 = \<lparr>th_op = Teardown, th_net = ''n'', th_raises = False, th_stage = Bare\<rparr>"
    using plugin_teardown_unserialised[of nat_step "''n''"] by blast
  then show ?thesis by (auto simp: inside_def)
qed

end
