(* ===== verification/Keepalived.thy ===== *)
theory Keepalived
  imports Ipaddress CatalogDB Constants
begin

text \<open>
  The configuration the NAT plugin writes for keepalived (\<^verbatim>\<open>agent/plugins/nat.py\<close>): the renderer as
  the source composes it, a reader for the lines it is made of, and the correspondence of the two.
\<close>

section \<open>Definitions\<close>

abbreviation nl :: char where "nl \<equiv> CHR 0x0A"

text \<open>\<^verbatim>\<open>'\n'.join(ls)\<close>, lines that each end in a newline, and \<^verbatim>\<open>s.rstrip('\n')\<close>.\<close>

fun join_nl :: "string list \<Rightarrow> string" where
  "join_nl [] = []"
| "join_nl [l] = l"
| "join_nl (l # ls) = l @ nl # join_nl ls"

definition text_lines :: "string list \<Rightarrow> string" where
  "text_lines ls = concat (map (\<lambda>l. l @ [nl]) ls)"

definition rstrip_nl :: "string \<Rightarrow> string" where
  "rstrip_nl s = rev (dropWhile (\<lambda>c. c = nl) (rev s))"

text \<open>\<^verbatim>\<open>'%s' % v\<close> of a value the registry's dictionaries always carry; a null prints as \<^verbatim>\<open>None\<close>.\<close>

definition fmt_s :: "string option \<Rightarrow> string" where
  "fmt_s v = (case v of None \<Rightarrow> ''None'' | Some s \<Rightarrow> s)"

text \<open>
  Where the check scripts are looked for: \<open>isfile\<close> is \<^verbatim>\<open>os.path.isfile\<close> at that moment, \<open>here\<close> the directory
  of the module.
\<close>

definition CHECK_SCRIPT_NAMES :: "string \<rightharpoonup> string" where
  "CHECK_SCRIPT_NAMES = [HC_DNS \<mapsto> ''check_dns.sh'', HC_NTP \<mapsto> ''check_ntp.sh'']"

definition resolve_check_script :: "(string \<Rightarrow> bool) \<Rightarrow> string \<Rightarrow> string \<Rightarrow> string option" where
  "resolve_check_script isfile here name =
     find isfile [here @ ''/check_scripts/'' @ name, ''/usr/local/lib/neutron-local-services/'' @ name,
                  ''/usr/lib/neutron-local-services/'' @ name]"

definition LB_ALGO :: "string \<rightharpoonup> string" where
  "LB_ALGO = [DIST_ROUND_ROBIN \<mapsto> ''wrr'', DIST_LEAST_CONNECTION \<mapsto> ''wlc'', DIST_ACTIVE_BACKUP \<mapsto> ''wrr'']"

definition proto_keepalived :: "string \<Rightarrow> string option" where
  "proto_keepalived proto = (if proto = PROTO_TCP then Some ''TCP'' else if proto = PROTO_UDP then Some ''UDP'' else None)"

definition expand_protocols :: "service_dict \<Rightarrow> string list" where
  "expand_protocols svc =
     (case sd_protocol svc of
        None \<Rightarrow> []
      | Some proto \<Rightarrow>
          if proto = PROTO_TCP_UDP then [PROTO_TCP, PROTO_UDP]
          else if proto = PROTO_TCP \<or> proto = PROTO_UDP then [proto]
          else [])"

definition check_block :: "string list \<Rightarrow> string \<Rightarrow> int \<Rightarrow> string" where
  "check_block intro_lines hc_addr hc_port =
     text_lines (intro_lines @
       [''            connect_ip '' @ hc_addr, ''            connect_port '' @ str_int hc_port,
        ''            connect_timeout 3'', ''        }''])"

text \<open>
  The renderer calls it for backends with an address and a port only, so the address and port to
  probe are there.
\<close>

definition render_health_check :: "(string \<Rightarrow> bool) \<Rightarrow> string \<Rightarrow> service_dict \<Rightarrow> backend_dict \<Rightarrow> string" where
  "render_health_check isfile here svc backend =
     (let hc_type = the (or_str (sd_health_check_type svc) (Some HC_NONE));
          hc_addr = fmt_s (or_str (bd_health_check_address backend) (bd_address backend));
          hc_port = the (or_int (bd_health_check_port backend) (bd_port backend))
      in if hc_type = HC_NONE then []
         else if hc_type = HC_TCP then check_block [''        TCP_CHECK {''] hc_addr hc_port
         else if hc_type = HC_HTTP then
           check_block [''        HTTP_GET {'', ''            url { path / status_code 200 }''] hc_addr hc_port
         else if hc_type = HC_HTTPS then
           check_block [''        SSL_GET {'', ''            url { path / status_code 200 }''] hc_addr hc_port
         else
           (case CHECK_SCRIPT_NAMES hc_type of
              None \<Rightarrow> []
            | Some name \<Rightarrow>
                (case resolve_check_script isfile here name of
                   None \<Rightarrow> []
                 | Some script \<Rightarrow>
                     if script = [] then []
                     else text_lines [''        MISC_CHECK {'',
                            ''            misc_path \"'' @ script @ '' '' @ hc_addr @ '' '' @ str_int hc_port @ ''\"'',
                            ''            misc_timeout 3'', ''        }''])))"

definition real_server_lines :: "(string \<Rightarrow> bool) \<Rightarrow> string \<Rightarrow> service_dict \<Rightarrow> backend_dict \<Rightarrow> string list" where
  "real_server_lines isfile here svc b =
     (if \<not> truthy_str (bd_address b) \<or> \<not> truthy_int (bd_port b) then []
      else
        (let weight = (case bd_weight b of None \<Rightarrow> 1 | Some w \<Rightarrow> w)
         in [''    real_server '' @ the (bd_address b) @ '' '' @ str_int (the (bd_port b)) @ '' {'',
             ''        weight '' @ str_int weight,
             rstrip_nl (render_health_check isfile here svc b),
             ''    }'']))"

definition enabled_backends :: "service_dict \<Rightarrow> backend_dict list" where
  "enabled_backends svc = filter (\<lambda>b. get_enabled (bd_enabled b)) (case sd_backends svc of None \<Rightarrow> [] | Some bs \<Rightarrow> bs)"

definition lb_algo :: "service_dict \<Rightarrow> string" where
  "lb_algo svc = (case LB_ALGO (the (or_str (sd_distribution_policy svc) (Some DIST_ROUND_ROBIN))) of None \<Rightarrow> ''wrr'' | Some a \<Rightarrow> a)"

definition virtual_server_lines :: "(string \<Rightarrow> bool) \<Rightarrow> string \<Rightarrow> service_dict \<Rightarrow> string \<Rightarrow> string list" where
  "virtual_server_lines isfile here svc kp_proto =
     [''virtual_server '' @ the (sd_local_ipv4 svc) @ '' '' @ str_int (the (sd_port svc)) @ '' {'',
      ''    delay_loop 6'', ''    lb_algo '' @ lb_algo svc, ''    lb_kind NAT'', ''    protocol '' @ kp_proto,
      ''    # service: '' @ fmt_s (sd_name svc) @ '' ('' @ fmt_s (sd_id svc) @ '')'']
     @ concat (map (real_server_lines isfile here svc) (enabled_backends svc)) @ [''}'']"

definition service_blocks :: "(string \<Rightarrow> bool) \<Rightarrow> string \<Rightarrow> service_dict \<Rightarrow> string list" where
  "service_blocks isfile here svc =
     (if \<not> get_enabled (sd_enabled svc) then []
      else if \<not> truthy_str (sd_local_ipv4 svc) \<or> \<not> truthy_int (sd_port svc) then []
      else
        concat (map (\<lambda>proto.
          case proto_keepalived proto of
            None \<Rightarrow> []
          | Some kp_proto \<Rightarrow> [join_nl (virtual_server_lines isfile here svc kp_proto) @ [nl]]) (expand_protocols svc)))"

definition global_block :: "string \<Rightarrow> string" where
  "global_block network_id =
     text_lines [''global_defs {'', ''    router_id ls-'' @ take 8 network_id, ''    enable_script_security'', ''    script_user root'', ''}'']"

definition render_keepalived_conf :: "(string \<Rightarrow> bool) \<Rightarrow> string \<Rightarrow> string \<Rightarrow> service_dict list \<Rightarrow> string" where
  "render_keepalived_conf isfile here network_id services =
     join_nl (global_block network_id # concat (map (service_blocks isfile here) services))"

section \<open>Reading a configuration\<close>

text \<open>
  A reader for the statements that decide where traffic goes and how a backend is probed. A line is a list of words
  separated by blanks; a first word that begins with \<^verbatim>\<open>#\<close> or \<^verbatim>\<open>!\<close> makes it a comment. A line of a block keyword that ends in an
  opening brace opens a block, a closing brace alone closes the innermost one, and every statement is read in the block it
  stands in: a virtual server at the top level, a real server, the scheduler and the protocol in a virtual server,
  the weight and the checks in a real server. Anything else (global definitions, blocks in the wrong place, unknown
  statements) is passed over, with its braces. The one block the renderer writes on a single line (\<^verbatim>\<open>url\<close>) is a statement.
\<close>

record real_server =
  rs_addr :: string
  rs_port :: string
  rs_weight :: string
  rs_checks :: "(string \<times> string list list) list"

record virtual_server =
  vs_vip :: string
  vs_port :: string
  vs_algo :: string
  vs_proto :: string
  vs_reals :: "real_server list"

record conf =
  cf_open :: "string list"
  cf_servers :: "virtual_server list"

abbreviation empty_conf :: conf where "empty_conf \<equiv> \<lparr>cf_open = [], cf_servers = []\<rparr>"

definition words :: "string \<Rightarrow> string list" where
  "words s = filter (\<lambda>w. w \<noteq> []) (split_on (CHR '' '') s)"

definition on_last :: "('a \<Rightarrow> 'a) \<Rightarrow> 'a list \<Rightarrow> 'a list" where
  "on_last f xs = (if xs = [] then [] else butlast xs @ [f (last xs)])"

definition upd_real :: "(real_server \<Rightarrow> real_server) \<Rightarrow> virtual_server list \<Rightarrow> virtual_server list" where
  "upd_real f = on_last (\<lambda>v. v\<lparr>vs_reals := on_last f (vs_reals v)\<rparr>)"

definition CHECK_BLOCKS :: "string list" where
  "CHECK_BLOCKS = [''TCP_CHECK'', ''HTTP_GET'', ''SSL_GET'', ''MISC_CHECK'']"

definition BLOCKS :: "string list" where
  "BLOCKS = [''global_defs'', ''virtual_server'', ''real_server''] @ CHECK_BLOCKS"

text \<open>The stack of open blocks, innermost first, is what \<open>cf_open\<close> holds.\<close>

definition open_block :: "string \<Rightarrow> string list \<Rightarrow> conf \<Rightarrow> conf" where
  "open_block k args st =
     (if k = ''virtual_server'' \<and> cf_open st = [] \<and> length args = 3 then
        \<lparr>cf_open = [k],
         cf_servers = cf_servers st @ [\<lparr>vs_vip = args ! 0, vs_port = args ! 1, vs_algo = [], vs_proto = [], vs_reals = []\<rparr>]\<rparr>
      else if k = ''real_server'' \<and> cf_open st = [''virtual_server''] \<and> length args = 3 then
        \<lparr>cf_open = k # cf_open st,
         cf_servers = on_last (\<lambda>v. v\<lparr>vs_reals := vs_reals v @ [\<lparr>rs_addr = args ! 0, rs_port = args ! 1, rs_weight = [], rs_checks = []\<rparr>]\<rparr>)
           (cf_servers st)\<rparr>
      else if k \<in> set CHECK_BLOCKS \<and> cf_open st = [''real_server'', ''virtual_server''] then
        \<lparr>cf_open = k # cf_open st, cf_servers = upd_real (\<lambda>r. r\<lparr>rs_checks := rs_checks r @ [(k, [])]\<rparr>) (cf_servers st)\<rparr>
      else st\<lparr>cf_open := ''other'' # cf_open st\<rparr>)"

definition statement :: "string list \<Rightarrow> conf \<Rightarrow> conf" where
  "statement ws st =
     (if cf_open st = [''virtual_server''] \<and> length ws = 2 \<and> ws ! 0 = ''lb_algo'' then
        st\<lparr>cf_servers := on_last (\<lambda>v. v\<lparr>vs_algo := ws ! 1\<rparr>) (cf_servers st)\<rparr>
      else if cf_open st = [''virtual_server''] \<and> length ws = 2 \<and> ws ! 0 = ''protocol'' then
        st\<lparr>cf_servers := on_last (\<lambda>v. v\<lparr>vs_proto := ws ! 1\<rparr>) (cf_servers st)\<rparr>
      else if cf_open st = [''real_server'', ''virtual_server''] \<and> length ws = 2 \<and> ws ! 0 = ''weight'' then
        st\<lparr>cf_servers := upd_real (\<lambda>r. r\<lparr>rs_weight := ws ! 1\<rparr>) (cf_servers st)\<rparr>
      else if tl (cf_open st) = [''real_server'', ''virtual_server''] \<and> hd (cf_open st) \<in> set CHECK_BLOCKS then
        st\<lparr>cf_servers := upd_real (\<lambda>r. r\<lparr>rs_checks := on_last (\<lambda>(c, ss). (c, ss @ [ws])) (rs_checks r)\<rparr>) (cf_servers st)\<rparr>
      else st)"

definition read_words :: "string list \<Rightarrow> conf \<Rightarrow> conf" where
  "read_words ws st =
     (case ws of
        [] \<Rightarrow> st
      | k # args \<Rightarrow>
          if startswith k ''#'' \<or> startswith k ''!'' then st
          else if ws = [''}''] then st\<lparr>cf_open := tl (cf_open st)\<rparr>
          else if k \<in> set BLOCKS \<and> last ws = ''{'' then open_block k args st
          else statement ws st)"

definition read_conf :: "string \<Rightarrow> conf \<Rightarrow> conf" where
  "read_conf s st = fold (\<lambda>l. read_words (words l)) (split_on nl s) st"

text \<open>What the services ask for. The probe of a backend is the statements of its check block.\<close>

definition health_checks :: "(string \<Rightarrow> bool) \<Rightarrow> string \<Rightarrow> service_dict \<Rightarrow> backend_dict \<Rightarrow> (string \<times> string list list) list" where
  "health_checks isfile here svc b =
     (let hc_type = the (or_str (sd_health_check_type svc) (Some HC_NONE));
          addr = fmt_s (or_str (bd_health_check_address b) (bd_address b));
          port = str_int (the (or_int (bd_health_check_port b) (bd_port b)));
          connect = [''connect_ip'' # words addr, [''connect_port'', port], [''connect_timeout'', ''3'']];
          url = [''url'', ''{'', ''path'', ''/'', ''status_code'', ''200'', ''}'']
      in if hc_type = HC_TCP then [(''TCP_CHECK'', connect)]
         else if hc_type = HC_HTTP then [(''HTTP_GET'', url # connect)]
         else if hc_type = HC_HTTPS then [(''SSL_GET'', url # connect)]
         else
           (case Option.bind (CHECK_SCRIPT_NAMES hc_type) (resolve_check_script isfile here) of
              None \<Rightarrow> []
            | Some script \<Rightarrow>
                if script = [] then []
                else [(''MISC_CHECK'', [''misc_path'' # words (CHR 0x22 # script @ '' '' @ addr @ '' '' @ port @ [CHR 0x22]),
                                        [''misc_timeout'', ''3'']])]))"

definition real_servers :: "(string \<Rightarrow> bool) \<Rightarrow> string \<Rightarrow> service_dict \<Rightarrow> real_server list" where
  "real_servers isfile here svc = map (\<lambda>b. \<lparr>rs_addr = the (bd_address b), rs_port = str_int (the (bd_port b)),
       rs_weight = str_int (case bd_weight b of None \<Rightarrow> 1 | Some w \<Rightarrow> w), rs_checks = health_checks isfile here svc b\<rparr>)
     (filter (\<lambda>b. truthy_str (bd_address b) \<and> truthy_int (bd_port b)) (enabled_backends svc))"

definition virtual_servers :: "(string \<Rightarrow> bool) \<Rightarrow> string \<Rightarrow> service_dict \<Rightarrow> virtual_server list" where
  "virtual_servers isfile here svc =
     (if get_enabled (sd_enabled svc) \<and> truthy_str (sd_local_ipv4 svc) \<and> truthy_int (sd_port svc)
      then map (\<lambda>proto. \<lparr>vs_vip = the (sd_local_ipv4 svc), vs_port = str_int (the (sd_port svc)), vs_algo = lb_algo svc,
                         vs_proto = the (proto_keepalived proto), vs_reals = real_servers isfile here svc\<rparr>) (expand_protocols svc)
      else [])"

section \<open>Lemmas on the reader\<close>

lemma on_last_snoc [simp]: "on_last f (xs @ [x]) = xs @ [f x]"
  by (simp add: on_last_def)

lemma on_last_single [simp]: "on_last f [x] = [f x]"
  by (simp add: on_last_def)

lemma on_last_id [simp]: "on_last (\<lambda>x. x) xs = xs"
  by (simp add: on_last_def)

lemma on_last_comp: "on_last f (on_last g xs) = on_last (\<lambda>x. f (g x)) xs"
  by (simp add: on_last_def)

lemma upd_real_comp: "upd_real f (upd_real g vs) = upd_real (\<lambda>r. f (g r)) vs"
  by (simp add: upd_real_def on_last_comp)

lemma upd_real_snoc [simp]: "upd_real f (acc @ [v]) = acc @ [v\<lparr>vs_reals := on_last f (vs_reals v)\<rparr>]"
  by (simp add: upd_real_def)

lemma split_on_append_gen: "split_on c (a @ c # b) = split_on c a @ split_on c b"
  by (induction a) (auto split: list.splits)

lemma read_conf_app: "read_conf (a @ nl # b) st = read_conf b (read_conf a st)"
  by (simp add: read_conf_def split_on_append_gen)

lemma read_conf_line: "nl \<notin> set l \<Longrightarrow> read_conf l st = read_words (words l) st"
  by (simp add: read_conf_def split_on_clean)

lemma read_conf_empty [simp]: "read_conf [] st = st"
  by (simp add: read_conf_def words_def read_words_def)

lemma read_conf_join: "read_conf (join_nl ls) st = fold read_conf ls st"
  by (induction ls arbitrary: st rule: join_nl.induct) (simp_all add: read_conf_app)

lemma read_conf_text: "read_conf (text_lines ls) st = fold read_conf ls st"
proof (induction ls arbitrary: st)
  case (Cons l ls)
  then show ?case using read_conf_app[of l "text_lines ls"] by (simp add: text_lines_def)
qed (simp add: text_lines_def)

lemma read_conf_rstrip: "read_conf (rstrip_nl s) st = read_conf s st"
proof (induction s rule: rev_induct)
  case (snoc c s)
  then show ?case using read_conf_app[of s "[]"] by (cases "c = nl") (simp_all add: rstrip_nl_def)
qed (simp add: rstrip_nl_def)

lemma words_blank: "words (CHR '' '' # s) = words s"
  by (simp add: words_def)

lemma words_app: "words (a @ CHR '' '' # b) = words a @ words b"
  by (simp add: words_def split_on_append_gen)

lemma words_word: "CHR '' '' \<notin> set w \<Longrightarrow> w \<noteq> [] \<Longrightarrow> words w = [w]"
  by (simp add: words_def split_on_clean)

lemma str_nat_chars: "\<not> is_digit c \<Longrightarrow> c \<notin> set (str_nat n)"
  using str_nat_digits[of n] by (auto simp: list_all_iff)

lemma str_int_chars [simp]: "CHR '' '' \<notin> set (str_int i)" "nl \<notin> set (str_int i)" "str_int i \<noteq> []"
  by (simp_all add: str_int_def str_nat_chars is_digit_def)

lemmas reader_defs = read_words_def statement_def open_block_def BLOCKS_def CHECK_BLOCKS_def startswith_def

section \<open>Lines of the renderer\<close>

definition clean :: "string \<Rightarrow> bool" where
  "clean s \<longleftrightarrow> nl \<notin> set s"

definition word_ok :: "string \<Rightarrow> bool" where
  "word_ok s \<longleftrightarrow> s \<noteq> [] \<and> CHR '' '' \<notin> set s \<and> nl \<notin> set s"

text \<open>
  Addresses are single words and the free text has no line break. Neutron validates the former as
  IP addresses; nothing in the repository checks the latter.
\<close>

definition backend_clean :: "backend_dict \<Rightarrow> bool" where
  "backend_clean b \<longleftrightarrow> (\<forall>a. bd_address b = Some a \<longrightarrow> a \<noteq> [] \<longrightarrow> word_ok a) \<and> (\<forall>a. bd_health_check_address b = Some a \<longrightarrow> clean a)"

definition service_clean :: "service_dict \<Rightarrow> bool" where
  "service_clean svc \<longleftrightarrow> clean (fmt_s (sd_name svc)) \<and> clean (fmt_s (sd_id svc))
     \<and> (\<forall>v. sd_local_ipv4 svc = Some v \<longrightarrow> v \<noteq> [] \<longrightarrow> word_ok v) \<and> (\<forall>b \<in> set (enabled_backends svc). backend_clean b)"

text \<open>Comments, closing braces, and statements of a virtual server that do not matter here.\<close>

lemma read_comment: "nl \<notin> set a \<Longrightarrow> read_conf (''    #'' @ a) st = st" "nl \<notin> set a \<Longrightarrow> read_conf (CHR ''#'' # a) st = st"
proof -
  obtain w ws where "words (CHR ''#'' # a) = (CHR ''#'' # w) # ws"
    by (cases "split_on (CHR '' '') a") (auto simp: words_def)
  then show "nl \<notin> set a \<Longrightarrow> read_conf (''    #'' @ a) st = st" "nl \<notin> set a \<Longrightarrow> read_conf (CHR ''#'' # a) st = st"
    by (simp_all add: read_conf_line words_blank reader_defs)
qed

lemma read_close:
  "read_conf ''        }'' st = st\<lparr>cf_open := tl (cf_open st)\<rparr>" "read_conf ''    }'' st = st\<lparr>cf_open := tl (cf_open st)\<rparr>"
  "read_conf ''}'' st = st\<lparr>cf_open := tl (cf_open st)\<rparr>"
  by (simp_all add: read_conf_line words_def read_words_def startswith_def)

lemma read_passed_over:
  "read_conf ''    delay_loop 6'' \<lparr>cf_open = [''virtual_server''], cf_servers = acc\<rparr> = \<lparr>cf_open = [''virtual_server''], cf_servers = acc\<rparr>"
  "read_conf ''    lb_kind NAT'' \<lparr>cf_open = [''virtual_server''], cf_servers = acc\<rparr> = \<lparr>cf_open = [''virtual_server''], cf_servers = acc\<rparr>"
  by (simp_all add: read_conf_line words_def reader_defs)

lemma read_keyword:
  "CHR '' '' \<notin> set a \<Longrightarrow> nl \<notin> set a \<Longrightarrow> a \<noteq> [] \<Longrightarrow>
     read_conf (''    lb_algo '' @ a) \<lparr>cf_open = [''virtual_server''], cf_servers = acc\<rparr> =
       \<lparr>cf_open = [''virtual_server''], cf_servers = on_last (\<lambda>v. v\<lparr>vs_algo := a\<rparr>) acc\<rparr>"
  "CHR '' '' \<notin> set a \<Longrightarrow> nl \<notin> set a \<Longrightarrow> a \<noteq> [] \<Longrightarrow>
     read_conf (''    protocol '' @ a) \<lparr>cf_open = [''virtual_server''], cf_servers = acc\<rparr> =
       \<lparr>cf_open = [''virtual_server''], cf_servers = on_last (\<lambda>v. v\<lparr>vs_proto := a\<rparr>) acc\<rparr>"
  "CHR '' '' \<notin> set a \<Longrightarrow> nl \<notin> set a \<Longrightarrow> a \<noteq> [] \<Longrightarrow>
     read_conf (''        weight '' @ a) \<lparr>cf_open = [''real_server'', ''virtual_server''], cf_servers = acc\<rparr> =
       \<lparr>cf_open = [''real_server'', ''virtual_server''], cf_servers = upd_real (\<lambda>r. r\<lparr>rs_weight := a\<rparr>) acc\<rparr>"
  using words_app[of "''lb_algo''" a] words_app[of "''protocol''" a] words_app[of "''weight''" a]
  by (simp_all add: read_conf_line words_blank words_word reader_defs)

lemma words_server:
  assumes "word_ok a"
  shows "words (''virtual_server '' @ a @ '' '' @ str_int p @ '' {'') = [''virtual_server'', a, str_int p, ''{'']"
    "words (''    real_server '' @ a @ '' '' @ str_int p @ '' {'') = [''real_server'', a, str_int p, ''{'']"
  using words_app[of "''virtual_server''" "a @ '' '' @ str_int p @ '' {''"] words_app[of "''real_server''" "a @ '' '' @ str_int p @ '' {''"]
    words_app[of a "str_int p @ '' {''"] words_app[of "str_int p" "''{''"] assms
  by (simp_all add: words_blank words_word word_ok_def)

lemma read_server:
  assumes "word_ok a"
  shows "read_conf (''virtual_server '' @ a @ '' '' @ str_int p @ '' {'') \<lparr>cf_open = [], cf_servers = acc\<rparr> =
      \<lparr>cf_open = [''virtual_server''], cf_servers = acc @ [\<lparr>vs_vip = a, vs_port = str_int p, vs_algo = [], vs_proto = [], vs_reals = []\<rparr>]\<rparr>"
    "read_conf (''    real_server '' @ a @ '' '' @ str_int p @ '' {'') \<lparr>cf_open = [''virtual_server''], cf_servers = acc\<rparr> =
      \<lparr>cf_open = [''real_server'', ''virtual_server''], cf_servers =
        on_last (\<lambda>v. v\<lparr>vs_reals := vs_reals v @ [\<lparr>rs_addr = a, rs_port = str_int p, rs_weight = [], rs_checks = []\<rparr>]\<rparr>) acc\<rparr>"
  using assms words_server[OF assms] by (simp_all add: read_conf_line reader_defs word_ok_def)

section \<open>Check blocks\<close>

text \<open>A line in a check block that is a statement, and the block it stands in.\<close>

definition plain :: "string \<Rightarrow> bool" where
  "plain l \<longleftrightarrow> nl \<notin> set l \<and> (\<exists>k ws. words l = k # ws \<and> k \<in> {''url'', ''connect_ip'', ''connect_port'', ''connect_timeout'', ''misc_path'', ''misc_timeout''})"

abbreviation in_check :: "string \<Rightarrow> virtual_server list \<Rightarrow> conf" where
  "in_check c acc \<equiv> \<lparr>cf_open = [c, ''real_server'', ''virtual_server''], cf_servers = acc\<rparr>"

lemma read_plain:
  assumes "plain l" "c \<in> set CHECK_BLOCKS"
  shows "read_conf l (in_check c acc) =
    in_check c (upd_real (\<lambda>r. r\<lparr>rs_checks := on_last (\<lambda>(c, ss). (c, ss @ [words l])) (rs_checks r)\<rparr>) acc)"
  using assms unfolding plain_def by (auto simp: read_conf_line reader_defs)

lemma read_plains:
  assumes "\<forall>l \<in> set ls. plain l" "c \<in> set CHECK_BLOCKS"
  shows "fold read_conf ls (in_check c (upd_real (\<lambda>r. r\<lparr>rs_checks := rs_checks r @ [(c, ss)]\<rparr>) acc)) =
    in_check c (upd_real (\<lambda>r. r\<lparr>rs_checks := rs_checks r @ [(c, ss @ map words ls)]\<rparr>) acc)"
  using assms(1)
proof (induction ls arbitrary: ss)
  case (Cons l ls)
  then show ?case using Cons.IH[of "ss @ [words l]"] by (simp add: read_plain[OF _ assms(2)] upd_real_comp)
qed simp

lemma read_check_open:
  assumes "c \<in> set CHECK_BLOCKS"
  shows "read_conf (''        '' @ c @ '' {'') \<lparr>cf_open = [''real_server'', ''virtual_server''], cf_servers = acc\<rparr> =
    in_check c (upd_real (\<lambda>r. r\<lparr>rs_checks := rs_checks r @ [(c, [])]\<rparr>) acc)"
proof -
  have c: "words (c @ '' {'') = [c, ''{'']" "nl \<notin> set c"
    using assms by (auto simp: CHECK_BLOCKS_def words_def)
  then have "words (''        '' @ c @ '' {'') = [c, ''{'']" by (simp add: words_blank)
  then show ?thesis using assms c(2) by (auto simp: read_conf_line reader_defs)
qed

lemma read_check:
  assumes "\<forall>l \<in> set ls. plain l" "c \<in> set CHECK_BLOCKS"
  shows "read_conf (text_lines ((''        '' @ c @ '' {'') # ls @ [''        }''])) \<lparr>cf_open = [''real_server'', ''virtual_server''], cf_servers = acc\<rparr> =
    \<lparr>cf_open = [''real_server'', ''virtual_server''], cf_servers = upd_real (\<lambda>r. r\<lparr>rs_checks := rs_checks r @ [(c, map words ls)]\<rparr>) acc\<rparr>"
  using read_plains[OF assms, of "[]" acc]
  by (simp add: read_conf_text read_check_open[OF assms(2), simplified] read_close)

lemma plain_lines:
  "nl \<notin> set a \<Longrightarrow> plain (''            connect_ip '' @ a)" "plain (''            connect_port '' @ str_int p)"
  "plain ''            connect_timeout 3''" "plain ''            url { path / status_code 200 }''"
  "nl \<notin> set a \<Longrightarrow> plain (''            misc_path '' @ a)" "plain ''            misc_timeout 3''"
  using words_app[of "''connect_ip''" a] words_app[of "''connect_port''" "str_int p"] words_app[of "''misc_path''" a]
  by (auto simp: plain_def words_blank words_word) (simp_all add: words_def)

lemma plain_words:
  "words (''            connect_ip '' @ a) = ''connect_ip'' # words a"
  "words (''            connect_port '' @ str_int p) = [''connect_port'', str_int p]"
  "words ''            connect_timeout 3'' = [''connect_timeout'', ''3'']"
  "words ''            url { path / status_code 200 }'' = [''url'', ''{'', ''path'', ''/'', ''status_code'', ''200'', ''}'']"
  "words (''            misc_path '' @ a) = ''misc_path'' # words a" "words ''            misc_timeout 3'' = [''misc_timeout'', ''3'']"
  using words_app[of "''connect_ip''" a] words_app[of "''connect_port''" "str_int p"] words_app[of "''misc_path''" a]
  by (simp_all add: words_blank words_word) (simp_all add: words_def)

lemmas plain_words_flat = plain_words[simplified]

text \<open>The check blocks the renderer writes, by kind.\<close>

lemma rendered_check:
  assumes "clean here" "backend_clean b" "truthy_str (bd_address b)"
  shows "health_checks isfile here svc b = [] \<and> render_health_check isfile here svc b = []
    \<or> (\<exists>c ls. c \<in> set CHECK_BLOCKS \<and> (\<forall>l \<in> set ls. plain l) \<and> health_checks isfile here svc b = [(c, map words ls)]
        \<and> render_health_check isfile here svc b = text_lines ((''        '' @ c @ '' {'') # ls @ [''        }'']))"
proof -
  let ?a = "fmt_s (or_str (bd_health_check_address b) (bd_address b))" and ?p = "the (or_int (bd_health_check_port b) (bd_port b))"
  let ?t = "the (or_str (sd_health_check_type svc) (Some HC_NONE))"
  let ?connect = "[''            connect_ip '' @ ?a, ''            connect_port '' @ str_int ?p, ''            connect_timeout 3'']"
  let ?url = "''            url { path / status_code 200 }''"
  have a: "nl \<notin> set ?a"
    using assms(2,3) by (cases "bd_health_check_address b"; cases "bd_address b")
      (auto simp: backend_clean_def or_str_def fmt_s_def word_ok_def clean_def split: if_splits)
  have p: "\<forall>l \<in> set ?connect. plain l" "\<forall>l \<in> set (?url # ?connect). plain l" using plain_lines(1)[OF a] plain_lines(2-4) by auto
  consider "?t = HC_TCP" | "?t = HC_HTTP" | "?t = HC_HTTPS" | "?t \<notin> {HC_TCP, HC_HTTP, HC_HTTPS}" by blast
  then show ?thesis
  proof cases
    case 1
    have "health_checks isfile here svc b = [(''TCP_CHECK'', map words ?connect)]"
        "render_health_check isfile here svc b = text_lines ((''        '' @ ''TCP_CHECK'' @ '' {'') # ?connect @ [''        }''])"
      using 1 by (simp_all add: health_checks_def render_health_check_def check_block_def plain_words_flat const_defs Let_def)
    then show ?thesis using p(1) by (intro disjI2 exI[of _ "''TCP_CHECK''"] exI[of _ ?connect]) (simp add: CHECK_BLOCKS_def)
  next
    case 2
    have "health_checks isfile here svc b = [(''HTTP_GET'', map words (?url # ?connect))]"
        "render_health_check isfile here svc b = text_lines ((''        '' @ ''HTTP_GET'' @ '' {'') # (?url # ?connect) @ [''        }''])"
      using 2 by (simp_all add: health_checks_def render_health_check_def check_block_def plain_words_flat const_defs Let_def)
    then show ?thesis using p(2) by (intro disjI2 exI[of _ "''HTTP_GET''"] exI[of _ "?url # ?connect"]) (simp add: CHECK_BLOCKS_def)
  next
    case 3
    have "health_checks isfile here svc b = [(''SSL_GET'', map words (?url # ?connect))]"
        "render_health_check isfile here svc b = text_lines ((''        '' @ ''SSL_GET'' @ '' {'') # (?url # ?connect) @ [''        }''])"
      using 3 by (simp_all add: health_checks_def render_health_check_def check_block_def plain_words_flat const_defs Let_def)
    then show ?thesis using p(2) by (intro disjI2 exI[of _ "''SSL_GET''"] exI[of _ "?url # ?connect"]) (simp add: CHECK_BLOCKS_def)
  next
    case 4
    show ?thesis
    proof (cases "Option.bind (CHECK_SCRIPT_NAMES ?t) (resolve_check_script isfile here)")
      case None
      then show ?thesis
        using 4 by (auto simp: health_checks_def render_health_check_def Let_def split: option.splits)
    next
      case (Some script)
      then obtain name where name: "CHECK_SCRIPT_NAMES ?t = Some name" "resolve_check_script isfile here name = Some script"
        by (cases "CHECK_SCRIPT_NAMES ?t") auto
      have none: "?t \<noteq> HC_NONE" using name(1) by (auto simp: CHECK_SCRIPT_NAMES_def const_defs split: if_splits)
      have "clean script"
        using name assms(1) by (auto simp: resolve_check_script_def CHECK_SCRIPT_NAMES_def clean_def split: if_splits)
      then have quoted: "nl \<notin> set (CHR 0x22 # script @ '' '' @ ?a @ '' '' @ str_int ?p @ [CHR 0x22])" using a by (simp add: clean_def)
      let ?misc = "[''            misc_path '' @ CHR 0x22 # script @ '' '' @ ?a @ '' '' @ str_int ?p @ [CHR 0x22], ''            misc_timeout 3'']"
      have plain: "\<forall>l \<in> set ?misc. plain l" using plain_lines(5)[OF quoted] plain_lines(6) by auto
      have "health_checks isfile here svc b = (if script = [] then [] else [(''MISC_CHECK'', map words ?misc)])"
        using 4 Some by (auto simp: health_checks_def plain_words_flat(5,6) Let_def)
      moreover have "render_health_check isfile here svc b =
          (if script = [] then [] else text_lines ((''        '' @ ''MISC_CHECK'' @ '' {'') # ?misc @ [''        }'']))"
        using 4 name none by (auto simp: render_health_check_def Let_def)
      ultimately show ?thesis
        using plain by (cases "script = []") (auto simp: CHECK_BLOCKS_def intro!: exI[of _ "''MISC_CHECK''"] exI[of _ ?misc])
    qed
  qed
qed

lemma read_health_check:
  assumes "clean here" "backend_clean b" "truthy_str (bd_address b)"
  shows "read_conf (render_health_check isfile here svc b) \<lparr>cf_open = [''real_server'', ''virtual_server''], cf_servers = acc\<rparr> =
    \<lparr>cf_open = [''real_server'', ''virtual_server''], cf_servers = upd_real (\<lambda>r. r\<lparr>rs_checks := rs_checks r @ health_checks isfile here svc b\<rparr>) acc\<rparr>"
proof -
  have id: "upd_real (\<lambda>r. r) acc = acc" by (simp add: upd_real_def)
  show ?thesis using rendered_check[OF assms, of isfile svc] read_check id by auto
qed

section \<open>Servers\<close>

abbreviation in_server :: "virtual_server list \<Rightarrow> conf" where
  "in_server acc \<equiv> \<lparr>cf_open = [''virtual_server''], cf_servers = acc\<rparr>"

text \<open>One backend adds one real server to the virtual server that is open.\<close>

lemma read_real_server:
  assumes "clean here" "backend_clean b"
  shows "fold read_conf (real_server_lines isfile here svc b) (in_server (acc @ [v])) = in_server (acc @ [v\<lparr>vs_reals := vs_reals v @
    (if truthy_str (bd_address b) \<and> truthy_int (bd_port b)
     then [\<lparr>rs_addr = the (bd_address b), rs_port = str_int (the (bd_port b)),
            rs_weight = str_int (case bd_weight b of None \<Rightarrow> 1 | Some w \<Rightarrow> w), rs_checks = health_checks isfile here svc b\<rparr>] else [])\<rparr>])"
proof (cases "truthy_str (bd_address b) \<and> truthy_int (bd_port b)")
  case True
  then obtain a where a: "bd_address b = Some a" "word_ok a" using assms(2) by (auto simp: truthy_str_iff backend_clean_def)
  have t: "truthy_str (bd_address b)" using True by simp
  let ?w = "str_int (case bd_weight b of None \<Rightarrow> 1 | Some w \<Rightarrow> w)"
  have "real_server_lines isfile here svc b = [''    real_server '' @ a @ '' '' @ str_int (the (bd_port b)) @ '' {'',
      ''        weight '' @ ?w, rstrip_nl (render_health_check isfile here svc b), ''    }'']"
    using True a(1) by (simp add: real_server_lines_def Let_def)
  then have "fold read_conf (real_server_lines isfile here svc b) (in_server (acc @ [v])) =
      read_conf ''    }'' (read_conf (render_health_check isfile here svc b) (read_conf (''        weight '' @ ?w)
        (read_conf (''    real_server '' @ a @ '' '' @ str_int (the (bd_port b)) @ '' {'') (in_server (acc @ [v])))))"
    by (simp only: fold_simps read_conf_rstrip comp_def id_def)
  also have "\<dots> = in_server (acc @ [v\<lparr>vs_reals := vs_reals v @
      [\<lparr>rs_addr = a, rs_port = str_int (the (bd_port b)), rs_weight = ?w, rs_checks = health_checks isfile here svc b\<rparr>]\<rparr>])"
    unfolding read_server(2)[OF a(2)] read_keyword(3)[OF str_int_chars] read_health_check[OF assms t] read_close by simp
  finally show ?thesis using True a(1) by simp
next
  case False
  then show ?thesis by (auto simp: real_server_lines_def)
qed

lemma read_real_servers:
  assumes "clean here" "\<And>b. b \<in> set bs \<Longrightarrow> backend_clean b"
  shows "fold read_conf (concat (map (real_server_lines isfile here svc) bs)) (in_server (acc @ [v])) = in_server (acc @ [v\<lparr>vs_reals := vs_reals v @
    map (\<lambda>b. \<lparr>rs_addr = the (bd_address b), rs_port = str_int (the (bd_port b)), rs_weight = str_int (case bd_weight b of None \<Rightarrow> 1 | Some w \<Rightarrow> w),
        rs_checks = health_checks isfile here svc b\<rparr>)
      (filter (\<lambda>b. truthy_str (bd_address b) \<and> truthy_int (bd_port b)) bs)\<rparr>])"
  using assms(2)
proof (induction bs arbitrary: v)
  case (Cons b bs)
  then show ?case using read_real_server[OF assms(1), of b isfile svc acc v] by simp
qed simp

lemma lb_algo_word: "CHR '' '' \<notin> set (lb_algo svc)" "nl \<notin> set (lb_algo svc)" "lb_algo svc \<noteq> []"
  by (auto simp: lb_algo_def LB_ALGO_def split: option.splits if_splits)

lemma proto_word: "proto_keepalived proto = Some kp \<Longrightarrow> CHR '' '' \<notin> set kp \<and> nl \<notin> set kp \<and> kp \<noteq> []"
  by (auto simp: proto_keepalived_def split: if_splits)

lemma expanded_known: "proto \<in> set (expand_protocols svc) \<Longrightarrow> \<exists>kp. proto_keepalived proto = Some kp"
  by (auto simp: expand_protocols_def proto_keepalived_def const_defs split: option.splits if_splits)

text \<open>The virtual server of a service, before its backends, and the comment that carries the service's name.\<close>

abbreviation served :: "service_dict \<Rightarrow> string \<Rightarrow> real_server list \<Rightarrow> virtual_server" where
  "served svc kp rs \<equiv> \<lparr>vs_vip = the (sd_local_ipv4 svc), vs_port = str_int (the (sd_port svc)), vs_algo = lb_algo svc, vs_proto = kp, vs_reals = rs\<rparr>"

definition comment :: "service_dict \<Rightarrow> string" where
  "comment svc = ''    # service: '' @ fmt_s (sd_name svc) @ '' ('' @ fmt_s (sd_id svc) @ '')''"

definition servable_text :: "service_dict \<Rightarrow> bool" where
  "servable_text svc \<longleftrightarrow> (\<forall>v. sd_local_ipv4 svc = Some v \<longrightarrow> v \<noteq> [] \<longrightarrow> word_ok v) \<and> (\<forall>b \<in> set (enabled_backends svc). backend_clean b)"

lemma read_virtual_server_gen:
  assumes cl: "clean here" "servable_text svc" and v: "truthy_str (sd_local_ipv4 svc)" and kp: "proto_keepalived proto = Some kp"
    and named: "\<And>acc. read_conf (comment svc) (in_server (acc @ [served svc kp []])) = in_server (acc @ extra @ [w])"
  shows "read_conf (join_nl (virtual_server_lines isfile here svc kp) @ [nl]) \<lparr>cf_open = [], cf_servers = acc\<rparr> =
    \<lparr>cf_open = [], cf_servers = acc @ extra @ [w\<lparr>vs_reals := vs_reals w @ real_servers isfile here svc\<rparr>]\<rparr>"
proof -
  obtain a where a: "sd_local_ipv4 svc = Some a" "word_ok a" using cl(2) v by (auto simp: servable_text_def truthy_str_iff)
  have kpw: "CHR '' '' \<notin> set kp" "nl \<notin> set kp" "kp \<noteq> []" using proto_word[OF kp] by simp_all
  have named': "read_conf (comment svc) (in_server (acc @ [\<lparr>vs_vip = a, vs_port = str_int (the (sd_port svc)), vs_algo = lb_algo svc, vs_proto = kp, vs_reals = []\<rparr>]))
      = in_server (acc @ extra @ [w])" for acc
    using named[of acc] by (simp add: a(1))
  have "read_conf (join_nl (virtual_server_lines isfile here svc kp) @ [nl]) \<lparr>cf_open = [], cf_servers = acc\<rparr> =
      fold read_conf (virtual_server_lines isfile here svc kp) \<lparr>cf_open = [], cf_servers = acc\<rparr>"
    using read_conf_app[of "join_nl (virtual_server_lines isfile here svc kp)" "[]"] by (simp add: read_conf_join)
  also have "\<dots> = read_conf ''}'' (fold read_conf (concat (map (real_server_lines isfile here svc) (enabled_backends svc))) (in_server ((acc @ extra) @ [w])))"
    unfolding virtual_server_lines_def comment_def[symmetric] fold_append comp_def fold_simps
    by (simp only: a(1) option.sel read_server(1)[OF a(2)] read_keyword(1)[OF lb_algo_word] read_keyword(2)[OF kpw] read_passed_over
        on_last_snoc virtual_server.update_convs fold_simps named' append_assoc)
  also have "\<dots> = \<lparr>cf_open = [], cf_servers = acc @ extra @ [w\<lparr>vs_reals := vs_reals w @ real_servers isfile here svc\<rparr>]\<rparr>"
    using cl by (subst read_real_servers) (simp_all add: servable_text_def read_close real_servers_def)
  finally show ?thesis .
qed

lemma read_service_blocks_gen:
  assumes cl: "clean here" "servable_text svc"
    and named: "\<And>proto kp acc. proto \<in> set (expand_protocols svc) \<Longrightarrow> proto_keepalived proto = Some kp \<Longrightarrow>
      read_conf (comment svc) (in_server (acc @ [served svc kp []])) = in_server (acc @ extra kp @ [w kp])"
  shows "fold read_conf (service_blocks isfile here svc) \<lparr>cf_open = [], cf_servers = acc\<rparr> =
    \<lparr>cf_open = [], cf_servers = acc @
      (if get_enabled (sd_enabled svc) \<and> truthy_str (sd_local_ipv4 svc) \<and> truthy_int (sd_port svc)
       then concat (map (\<lambda>proto. let kp = the (proto_keepalived proto) in extra kp @ [(w kp)\<lparr>vs_reals := vs_reals (w kp) @ real_servers isfile here svc\<rparr>])
              (expand_protocols svc)) else [])\<rparr>"
proof -
  have "fold read_conf (concat (map (\<lambda>proto. case proto_keepalived proto of None \<Rightarrow> []
            | Some kp_proto \<Rightarrow> [join_nl (virtual_server_lines isfile here svc kp_proto) @ [nl]]) ps)) \<lparr>cf_open = [], cf_servers = acc\<rparr> =
      \<lparr>cf_open = [], cf_servers = acc @
        concat (map (\<lambda>proto. let kp = the (proto_keepalived proto) in extra kp @ [(w kp)\<lparr>vs_reals := vs_reals (w kp) @ real_servers isfile here svc\<rparr>]) ps)\<rparr>"
    if v: "truthy_str (sd_local_ipv4 svc)" and ps: "set ps \<subseteq> set (expand_protocols svc)" for ps
    using ps
  proof (induction ps arbitrary: acc)
    case (Cons p ps)
    then have p: "p \<in> set (expand_protocols svc)" by simp
    then obtain kp where kp: "proto_keepalived p = Some kp" using expanded_known by blast
    from read_virtual_server_gen[OF cl v kp named[OF p kp]] Cons kp show ?case by simp
  qed simp
  then show ?thesis by (auto simp: service_blocks_def)
qed

lemma read_service_blocks:
  assumes cl: "clean here" "service_clean svc"
  shows "fold read_conf (service_blocks isfile here svc) \<lparr>cf_open = [], cf_servers = acc\<rparr> =
    \<lparr>cf_open = [], cf_servers = acc @ virtual_servers isfile here svc\<rparr>"
proof -
  have "read_conf (comment svc) st = st" for st
    using cl(2) read_comment(1)[of "'' service: '' @ fmt_s (sd_name svc) @ '' ('' @ fmt_s (sd_id svc) @ '')''" st]
    by (simp add: service_clean_def clean_def comment_def)
  moreover have "servable_text svc" using cl(2) by (simp add: service_clean_def servable_text_def)
  ultimately have "fold read_conf (service_blocks isfile here svc) \<lparr>cf_open = [], cf_servers = acc\<rparr> =
    \<lparr>cf_open = [], cf_servers = acc @
      (if get_enabled (sd_enabled svc) \<and> truthy_str (sd_local_ipv4 svc) \<and> truthy_int (sd_port svc)
       then concat (map (\<lambda>proto. let kp = the (proto_keepalived proto) in [] @ [(served svc kp [])\<lparr>vs_reals := vs_reals (served svc kp []) @ real_servers isfile here svc\<rparr>])
              (expand_protocols svc)) else [])\<rparr>"
    by (intro read_service_blocks_gen[OF cl(1)]) simp_all
  then show ?thesis by (simp add: virtual_servers_def Let_def map_eq_conv[symmetric] concat_map_singleton)
qed

lemma read_services:
  assumes "clean here" "\<forall>svc \<in> set services. service_clean svc"
  shows "fold read_conf (concat (map (service_blocks isfile here) services)) \<lparr>cf_open = [], cf_servers = acc\<rparr> =
    \<lparr>cf_open = [], cf_servers = acc @ concat (map (virtual_servers isfile here) services)\<rparr>"
  using assms(2)
proof (induction services arbitrary: acc)
  case (Cons svc services)
  then show ?case using read_service_blocks[OF assms(1), of svc] by simp
qed simp

lemma read_global:
  assumes "clean network_id"
  shows "read_conf (global_block network_id) \<lparr>cf_open = [], cf_servers = acc\<rparr> = \<lparr>cf_open = [], cf_servers = acc\<rparr>"
proof -
  have n: "nl \<notin> set (take 8 network_id)" using assms by (auto simp: clean_def dest: in_set_takeD)
  let ?in = "\<lparr>cf_open = [''other''], cf_servers = acc\<rparr>"
  have "words (''    router_id ls-'' @ take 8 network_id) = ''router_id'' # words (''ls-'' @ take 8 network_id)"
    using words_app[of "''router_id''" "''ls-'' @ take 8 network_id"] by (simp add: words_blank words_word)
  then have router: "read_conf (''    router_id ls-'' @ take 8 network_id) ?in = ?in"
    using n by (subst read_conf_line) (simp_all add: reader_defs)
  have "read_conf ''    enable_script_security'' ?in = ?in" "read_conf ''    script_user root'' ?in = ?in"
      "read_conf ''global_defs {'' \<lparr>cf_open = [], cf_servers = acc\<rparr> = ?in"
    by (simp_all add: read_conf_line words_def reader_defs)
  then show ?thesis
    unfolding global_block_def read_conf_text fold_simps comp_def using router by (simp only: read_close conf.simps list.sel id_apply)
qed

section \<open>Properties\<close>

text \<open>
  C21. The configuration says what the services ask for: read back, with its blocks, the rendered text
  has exactly one virtual server per enabled service with a VIP and a port and per protocol,
  in order, with its scheduler and, in order, the enabled backends that have an address and a
  port with their weights and the check the service's health check type asks for, and no others; every block is
  closed. It needs names without line breaks.
\<close>

theorem conf_roundtrip:
  assumes "clean here" "clean network_id" "\<forall>svc \<in> set services. service_clean svc"
  shows "read_conf (render_keepalived_conf isfile here network_id services) empty_conf =
    \<lparr>cf_open = [], cf_servers = concat (map (virtual_servers isfile here) services)\<rparr>"
  using read_services[OF assms(1,3), of isfile "[]"]
  by (simp add: render_keepalived_conf_def read_conf_join read_global[OF assms(2)])

definition web_service :: "string \<Rightarrow> service_dict" where
  "web_service name =
     \<lparr>sd_id = Some ''s1'', sd_project_id = None, sd_name = Some name, sd_description = None,
      sd_local_ipv4 = Some ''169.254.1.1'', sd_local_ipv6 = None, sd_protocol = Some ''tcp'', sd_port = Some 80,
      sd_attachment_policy = None, sd_distribution_policy = Some ''least-connection'', sd_exposure_plugin = None,
      sd_health_check_type = Some ''tcp'', sd_health_check_config = None, sd_enabled = Some True,
      sd_backends = Some [\<lparr>bd_id = None, bd_service_id = None, bd_name = None, bd_availability_zone = None, bd_weight = None,
        bd_address = Some ''10.0.0.5'', bd_port = Some 8080, bd_health_check_address = None, bd_health_check_port = None, bd_enabled = None\<rparr>]\<rparr>"

abbreviation web_real :: real_server where
  "web_real \<equiv> \<lparr>rs_addr = ''10.0.0.5'', rs_port = str_int 8080, rs_weight = str_int 1,
     rs_checks = [(''TCP_CHECK'', [[''connect_ip'', ''10.0.0.5''], [''connect_port'', str_int 8080], [''connect_timeout'', ''3'']])]\<rparr>"

lemma web_servers: "virtual_servers (\<lambda>_. False) ''/opt'' (web_service name) =
   [\<lparr>vs_vip = ''169.254.1.1'', vs_port = str_int 80, vs_algo = ''wlc'', vs_proto = ''TCP'', vs_reals = [web_real]\<rparr>]"
  by (simp add: virtual_servers_def real_servers_def enabled_backends_def expand_protocols_def proto_keepalived_def lb_algo_def LB_ALGO_def
      health_checks_def web_service_def or_str_def or_int_def fmt_s_def words_def const_defs Let_def)

theorem conf_roundtrip_witness:
  "read_conf (render_keepalived_conf (\<lambda>_. False) ''/opt'' ''net-a'' [web_service ''web'']) empty_conf =
     \<lparr>cf_open = [], cf_servers =
       [\<lparr>vs_vip = ''169.254.1.1'', vs_port = str_int 80, vs_algo = ''wlc'', vs_proto = ''TCP'', vs_reals = [web_real]\<rparr>]\<rparr>"
proof -
  have "service_clean (web_service ''web'')"
    by (simp add: service_clean_def web_service_def clean_def word_ok_def fmt_s_def enabled_backends_def backend_clean_def)
  then show ?thesis
    using conf_roundtrip[of "''/opt''" "''net-a''" "[web_service ''web'']" "\<lambda>_. False"] web_servers by (simp add: clean_def)
qed

text \<open>
  A name of three or more lines: the first ends the comment, the second closes the virtual server of the service, the third
  opens one for the address \<open>v\<close> and the port \<open>p\<close>, and the last begins a comment that takes in the rest of the line.
\<close>

definition breaking_name :: "string \<Rightarrow> string \<Rightarrow> int \<Rightarrow> string \<Rightarrow> string" where
  "breaking_name x v p y = x @ nl # ''}'' @ nl # (''virtual_server '' @ v @ '' '' @ str_int p @ '' {'') @ nl # CHR ''#'' # y"

lemma breaking_comment:
  assumes "sd_name svc = Some (breaking_name x v p y)" "clean (fmt_s (sd_id svc))" "clean x" "clean y" "word_ok v"
  shows "read_conf (comment svc) (in_server acc) =
    in_server (acc @ [\<lparr>vs_vip = v, vs_port = str_int p, vs_algo = [], vs_proto = [], vs_reals = []\<rparr>])"
proof -
  let ?rest = "y @ '' ('' @ fmt_s (sd_id svc) @ '')''"
  have "comment svc = (''    #'' @ '' service: '' @ x) @ nl # ''}'' @ nl # (''virtual_server '' @ v @ '' '' @ str_int p @ '' {'') @ nl # (CHR ''#'' # ?rest)"
    using assms(1) by (simp add: comment_def breaking_name_def fmt_s_def)
  moreover have "read_conf (''    #'' @ '' service: '' @ x) st = st" "read_conf (CHR ''#'' # ?rest) st = st" for st
    using assms(2-4) by (intro read_comment; simp add: clean_def)+
  ultimately show ?thesis
    by (simp only: read_conf_app read_close read_server(1)[OF assms(5)] conf.simps list.sel)
qed

text \<open>
  C22. A service name is written into the configuration as it is. For any services of which one has a name with line
  breaks that reads as above, and otherwise anything a service may have, the rendered text is well formed and has,
  for each protocol of that service, beside the virtual server the service asks for, now without backends, one for
  the address and port in the name, and this one has the backends. No service asks for it, and the other services
  are as they were.
\<close>

theorem name_injects_virtual_server:
  assumes "clean here" "clean network_id" "\<forall>s \<in> set (before @ after). service_clean s"
    and svc: "sd_name svc = Some (breaking_name x v p y)" "service_clean (svc\<lparr>sd_name := None\<rparr>)" "clean x" "clean y" "word_ok v"
  shows "read_conf (render_keepalived_conf isfile here network_id (before @ svc # after)) empty_conf =
    \<lparr>cf_open = [], cf_servers = concat (map (virtual_servers isfile here) before)
       @ concat (map (\<lambda>s. [s\<lparr>vs_reals := []\<rparr>, \<lparr>vs_vip = v, vs_port = str_int p, vs_algo = [], vs_proto = [], vs_reals = vs_reals s\<rparr>])
           (virtual_servers isfile here svc))
       @ concat (map (virtual_servers isfile here) after)\<rparr>"
proof -
  let ?w = "\<lparr>vs_vip = v, vs_port = str_int p, vs_algo = [], vs_proto = [], vs_reals = []\<rparr>"
  have txts: "servable_text svc" "clean (fmt_s (sd_id svc))"
    using svc(2) by (auto simp: service_clean_def servable_text_def enabled_backends_def)
  have "read_conf (comment svc) (in_server (acc @ [served svc kp []])) = in_server (acc @ [served svc kp []] @ [?w])" for acc kp
    using breaking_comment[OF svc(1) txts(2) svc(3-5)] by simp
  from read_service_blocks_gen[OF assms(1) txts(1), of "\<lambda>kp. [served svc kp []]" "\<lambda>_. ?w" isfile, OF this]
  have blocks: "fold read_conf (service_blocks isfile here svc) \<lparr>cf_open = [], cf_servers = acc\<rparr> =
      \<lparr>cf_open = [], cf_servers = acc @ concat (map (\<lambda>s. [s\<lparr>vs_reals := []\<rparr>, ?w\<lparr>vs_reals := vs_reals s\<rparr>]) (virtual_servers isfile here svc))\<rparr>" for acc
    by (auto simp: virtual_servers_def Let_def comp_def)
  have b: "\<forall>s \<in> set before. service_clean s" and a: "\<forall>s \<in> set after. service_clean s" using assms(3) by simp_all
  show ?thesis
    unfolding render_keepalived_conf_def read_conf_join map_append list.map concat_append concat.simps fold_append fold_simps comp_def
      read_global[OF assms(2)] read_services[OF assms(1) b] read_services[OF assms(1) a] blocks
    by simp
qed

theorem name_injects_virtual_server_witness:
  "cf_servers (read_conf (render_keepalived_conf (\<lambda>_. False) ''/opt'' ''net-a'' [web_service (breaking_name ''x'' ''10.9.9.9'' 22 [])]) empty_conf) =
     [\<lparr>vs_vip = ''169.254.1.1'', vs_port = str_int 80, vs_algo = ''wlc'', vs_proto = ''TCP'', vs_reals = []\<rparr>,
      \<lparr>vs_vip = ''10.9.9.9'', vs_port = str_int 22, vs_algo = [], vs_proto = [], vs_reals = [web_real]\<rparr>]"
proof -
  let ?svc = "web_service (breaking_name ''x'' ''10.9.9.9'' 22 [])"
  have "sd_name ?svc = Some (breaking_name ''x'' ''10.9.9.9'' 22 [])" "service_clean (?svc\<lparr>sd_name := None\<rparr>)"
      "clean ''x''" "clean []" "word_ok ''10.9.9.9''" "clean ''/opt''" "clean ''net-a''"
    by (simp_all add: service_clean_def web_service_def clean_def word_ok_def fmt_s_def enabled_backends_def backend_clean_def)
  from name_injects_virtual_server[of "''/opt''" "''net-a''" "[]" "[]" ?svc "''x''" "''10.9.9.9''" 22 "[]" "\<lambda>_. False", OF this(6,7) _ this(1-5)]
  show ?thesis using web_servers by simp
qed

end
