(* ===== verification/Osys.thy ===== *)
theory Osys
  imports Kernel
begin

text \<open>
  What the exposure plugins ask of the operating system beside the kernel: files, processes, time
  and commands in a namespace. \<open>'w\<close> is the state of the machine; every call may raise. The laws
  the code relies on are in \<open>os_ok\<close>.
\<close>

record 'w os =
  os_makedirs :: "string \<Rightarrow> ('w, unit) act"
  os_read :: "string \<Rightarrow> ('w, string) act"
  os_write :: "string \<Rightarrow> string \<Rightarrow> ('w, unit) act"
  os_replace :: "string \<Rightarrow> string \<Rightarrow> ('w, unit) act"
  os_isfile :: "'w \<Rightarrow> string \<Rightarrow> bool"
  os_isdir :: "'w \<Rightarrow> string \<Rightarrow> bool"
  os_rmtree :: "string \<Rightarrow> ('w, unit) act"
  os_kill0 :: "int \<Rightarrow> ('w, unit) act"
  os_monotonic :: "('w, int) act"
  os_sleep :: "int \<Rightarrow> ('w, unit) act"
  os_exec_in_ns :: "string \<Rightarrow> string list \<Rightarrow> ('w, unit) act"

definition is_oserror :: "exc \<Rightarrow> bool" where
  "is_oserror e = (case e of OSError _ \<Rightarrow> True | _ \<Rightarrow> False)"

text \<open>\<^verbatim>\<open>os.path.join(a, b)\<close>: an absolute second part replaces the first.\<close>

definition path_join :: "string \<Rightarrow> string \<Rightarrow> string" where
  "path_join a b = (if startswith b ''/'' then b else if a = [] \<or> endswith a ''/'' then a @ b else a @ ''/'' @ b)"

text \<open>\<^verbatim>\<open>_read_pid\<close> and \<^verbatim>\<open>_process_alive\<close>, which both plugins have.\<close>

definition read_pid :: "'w os \<Rightarrow> string \<Rightarrow> ('w, int option) act" where
  "read_pid os pid_path =
     attempt (bnd (os_read os pid_path) (\<lambda>s.
                case py_int (if s = [] then ''0'' else s) of None \<Rightarrow> raise ValueError | Some pid \<Rightarrow> ret (Some pid)))
       (\<lambda>e. if is_oserror e \<or> e = ValueError then ret None else raise e)"

text \<open>The truth of a pid, then \<^verbatim>\<open>os.kill(pid, 0)\<close> with its three kinds of \<^verbatim>\<open>OSError\<close>.\<close>

definition process_alive :: "'w os \<Rightarrow> int option \<Rightarrow> ('w, bool) act" where
  "process_alive os pid =
     (if \<not> truthy_int pid then ret False
      else
        attempt (andthen (os_kill0 os (the pid)) (ret True))
          (\<lambda>e. if e = OSError ''ESRCH'' then ret False
               else if e = OSError ''EPERM'' then ret True
               else if is_oserror e then ret False
               else raise e))"

text \<open>
  The laws: reading and probing change nothing; a write or a replace that returns has done what it
  says and nothing else to the files; commands and the clock do not touch the files named in \<open>own\<close>.
\<close>

definition os_ok :: "'w os \<Rightarrow> ('w \<Rightarrow> string \<Rightarrow> string option) \<Rightarrow> (string \<Rightarrow> bool) \<Rightarrow> bool" where
  "os_ok os files own \<longleftrightarrow>
     (\<forall>p w. os_read os p w = (case files w p of Some s \<Rightarrow> (Inr s, w) | None \<Rightarrow> (Inl (OSError ''ENOENT''), w)))
     \<and> (\<forall>p s w w'. os_write os p s w = (Inr (), w') \<longrightarrow> files w' = (files w)(p \<mapsto> s))
     \<and> (\<forall>a b w w'. os_replace os a b w = (Inr (), w') \<longrightarrow> files w' = (files w)(a := None, b := files w a))
     \<and> (\<forall>pid w. snd (os_kill0 os pid w) = w)
     \<and> (\<forall>p ns cmd w. own p \<longrightarrow> files (snd (os_exec_in_ns os ns cmd w)) p = files w p)
     \<and> (\<forall>p w. own p \<longrightarrow> files (snd (os_monotonic os w)) p = files w p)
     \<and> (\<forall>p t w. own p \<longrightarrow> files (snd (os_sleep os t w)) p = files w p)"

lemma os_okD:
  assumes "os_ok os files own"
  shows "os_read os p w = (case files w p of Some s \<Rightarrow> (Inr s, w) | None \<Rightarrow> (Inl (OSError ''ENOENT''), w))"
    "os_write os p s w = (Inr (), w') \<Longrightarrow> files w' = (files w)(p \<mapsto> s)"
    "os_replace os a b w = (Inr (), w') \<Longrightarrow> files w' = (files w)(a := None, b := files w a)"
    "snd (os_kill0 os pid w) = w"
    "own p \<Longrightarrow> keeps (\<lambda>w. files w p) (os_exec_in_ns os ns cmd)" "own p \<Longrightarrow> keeps (\<lambda>w. files w p) (os_monotonic os)"
    "own p \<Longrightarrow> keeps (\<lambda>w. files w p) (os_sleep os t)"
  using assms unfolding os_ok_def keeps_def by simp_all

text \<open>What the pid file says, and whether that process answers.\<close>

definition pid_in :: "('w \<Rightarrow> string \<Rightarrow> string option) \<Rightarrow> string \<Rightarrow> 'w \<Rightarrow> int option" where
  "pid_in files p w = (case files w p of None \<Rightarrow> None | Some s \<Rightarrow> py_int (if s = [] then ''0'' else s))"

lemma read_pid_run: "os_ok os files own \<Longrightarrow> read_pid os p w = (Inr (pid_in files p w), w)"
  by (simp add: read_pid_def pid_in_def os_okD(1) bnd_def attempt_def is_oserror_def split: option.split)

lemma process_alive_same: "os_ok os files own \<Longrightarrow> process_alive os pid w = (fst (process_alive os pid w), w)"
  using os_okD(4)[of os files own "the pid" w]
  by (auto simp: process_alive_def andthen_def bnd_def attempt_def split: prod.split sum.split)

end
