(* ===== verification/NatPlugin.thy ===== *)
theory NatPlugin
  imports Keepalived Osys Plugins
begin

text \<open>
  The lifecycle of the NAT plugin (\<^verbatim>\<open>agent/plugins/nat.py\<close>): preparing the namespace, writing the
  configuration, starting and reloading keepalived, teardown. The per-network lock around
  \<^verbatim>\<open>_apply_locked\<close> is of the kind the theory Locks describes. \<open>sha\<close> is the digest of \<^verbatim>\<open>hashlib\<close>; times are
  in milliseconds.
\<close>

section \<open>Definitions\<close>

definition DEFAULT_STATE_DIR :: string where "DEFAULT_STATE_DIR = ''/var/lib/neutron-local-services''"

definition state_dir :: "string \<Rightarrow> string" where
  "state_dir network_id = path_join (path_join DEFAULT_STATE_DIR network_id) ''nat''"

definition conf_path :: "string \<Rightarrow> string" where
  "conf_path network_id = path_join (state_dir network_id) ''keepalived.conf''"

definition pid_path :: "string \<Rightarrow> string" where
  "pid_path network_id = path_join (state_dir network_id) ''keepalived.pid''"

definition hash_path :: "string \<Rightarrow> string" where
  "hash_path network_id = path_join (state_dir network_id) ''config.hash''"

definition KEEPALIVED_START_TIMEOUT :: int where "KEEPALIVED_START_TIMEOUT = 30000"

definition KEEPALIVED_START_POLL :: int where "KEEPALIVED_START_POLL = 250"

definition prepare_netns :: "'w os \<Rightarrow> string \<Rightarrow> ('w, unit) act" where
  "prepare_netns os ns_name =
     andthen (swallow (os_exec_in_ns os ns_name [''modprobe'', ''ip_vs'']))
     (andthen (swallow (os_exec_in_ns os ns_name [''sysctl'', ''-w'', ''net.ipv4.vs.conntrack=1'']))
     (andthen (swallow (os_exec_in_ns os ns_name [''sysctl'', ''-w'', ''net.ipv4.ip_forward=1'']))
     (attempt (os_exec_in_ns os ns_name [''iptables'', ''-t'', ''nat'', ''-C'', ''POSTROUTING'', ''-j'', ''MASQUERADE''])
        (\<lambda>_. swallow (os_exec_in_ns os ns_name [''iptables'', ''-t'', ''nat'', ''-A'', ''POSTROUTING'', ''-j'', ''MASQUERADE''])))))"

text \<open>
  The polling loop: \<open>Some True\<close> when keepalived is up, \<open>Some False\<close> at the deadline, \<open>None\<close> when \<open>fuel\<close> turns
  were not enough (\<open>wait_ends\<close>: that takes a clock that does not advance).
\<close>

fun wait_pidfile :: "'w os \<Rightarrow> nat \<Rightarrow> string \<Rightarrow> int \<Rightarrow> ('w, bool option) act" where
  "wait_pidfile os 0 path deadline = ret None"
| "wait_pidfile os (Suc fuel) path deadline =
     bnd (os_monotonic os) (\<lambda>now.
       if \<not> now < deadline then ret (Some False)
       else
         bnd (read_pid os path) (\<lambda>pid.
         bnd (process_alive os pid) (\<lambda>alive.
           if alive then ret (Some True)
           else andthen (os_sleep os KEEPALIVED_START_POLL) (wait_pidfile os fuel path deadline))))"

definition POLL_TURNS :: nat where "POLL_TURNS = nat (KEEPALIVED_START_TIMEOUT div KEEPALIVED_START_POLL) + 1"

definition start_keepalived :: "'w os \<Rightarrow> string \<Rightarrow> string \<Rightarrow> ('w, unit) act" where
  "start_keepalived os network_id ns_name =
     andthen (os_exec_in_ns os ns_name [''keepalived'', ''-f'', conf_path network_id, ''-p'', pid_path network_id, ''-D''])
     (bnd (os_monotonic os) (\<lambda>now.
      bnd (wait_pidfile os POLL_TURNS (pid_path network_id) (now + KEEPALIVED_START_TIMEOUT)) (\<lambda>_. ret ())))"

definition reload_keepalived :: "'w os \<Rightarrow> string \<Rightarrow> int option \<Rightarrow> ('w, bool) act" where
  "reload_keepalived os network_id pid_arg =
     bnd (case pid_arg of None \<Rightarrow> read_pid os (pid_path network_id) | Some p \<Rightarrow> ret (Some p)) (\<lambda>pid.
     bnd (process_alive os pid) (\<lambda>alive.
       if \<not> alive then ret False
       else
         attempt (andthen (os_exec_in_ns os (NETNS_PREFIX @ network_id) [''kill'', ''-HUP'', str_int (the pid)]) (ret True))
           (\<lambda>_. ret False)))"

definition read_hash :: "'w os \<Rightarrow> string \<Rightarrow> ('w, string option) act" where
  "read_hash os path =
     attempt (bnd (os_read os path) (\<lambda>s. ret (Some (strip s)))) (\<lambda>e. if is_oserror e then ret None else raise e)"

text \<open>Writing the configuration and its hash, then bringing keepalived to it.\<close>

definition commit_conf :: "'w os \<Rightarrow> string \<Rightarrow> string \<Rightarrow> string \<Rightarrow> ('w, unit) act" where
  "commit_conf os network_id new_conf new_hash =
     andthen (os_write os (conf_path network_id @ ''.tmp'') new_conf)
     (andthen (os_replace os (conf_path network_id @ ''.tmp'') (conf_path network_id))
        (os_write os (hash_path network_id) new_hash))"

definition activate :: "'w os \<Rightarrow> string \<Rightarrow> string \<Rightarrow> int option \<Rightarrow> bool \<Rightarrow> ('w, unit) act" where
  "activate os network_id ns_name pid running =
     andthen (prepare_netns os ns_name)
     (bnd (if running then reload_keepalived os network_id pid else ret False) (\<lambda>reloaded.
        if reloaded then ret () else start_keepalived os network_id ns_name))"

definition apply_locked :: "'w os \<Rightarrow> (string \<Rightarrow> string) \<Rightarrow> string \<Rightarrow> string \<Rightarrow> string \<Rightarrow> service_dict list \<Rightarrow> ('w, unit) act" where
  "apply_locked os sha here network_id ns_name services =
     bnd (if services = [] then bnd (read_pid os (pid_path network_id)) (process_alive os) else ret True) (\<lambda>go.
       if \<not> go then ret ()
       else
         bnd (gets (\<lambda>w. render_keepalived_conf (os_isfile os w) here network_id services)) (\<lambda>new_conf.
         bnd (read_hash os (hash_path network_id)) (\<lambda>old_hash.
         bnd (read_pid os (pid_path network_id)) (\<lambda>pid.
         bnd (process_alive os pid) (\<lambda>running.
           if old_hash = Some (sha new_conf) \<and> running then ret ()
           else
             andthen (commit_conf os network_id new_conf (sha new_conf))
               (activate os network_id ns_name pid running))))))"

definition apply_config :: "'w os \<Rightarrow> (string \<Rightarrow> string) \<Rightarrow> string \<Rightarrow> string \<Rightarrow> service_dict list \<Rightarrow> ('w, unit) act" where
  "apply_config os sha here ns_name services =
     (if \<not> startswith ns_name NETNS_PREFIX then ret ()
      else
        (let network_id = drop (length NETNS_PREFIX) ns_name
         in andthen (os_makedirs os (state_dir network_id)) (apply_locked os sha here network_id ns_name services)))"

definition nat_teardown :: "'w os \<Rightarrow> string \<Rightarrow> ('w, unit) act" where
  "nat_teardown os ns_name =
     (if \<not> startswith ns_name NETNS_PREFIX then ret ()
      else
        (let network_id = drop (length NETNS_PREFIX) ns_name
         in bnd (read_pid os (pid_path network_id)) (\<lambda>pid.
            bnd (process_alive os pid) (\<lambda>alive.
            andthen (doif alive (swallow (os_exec_in_ns os ns_name [''kill'', ''-TERM'', str_int (the pid)])))
            (bnd (gets (\<lambda>w. os_isdir os w (state_dir network_id))) (\<lambda>there.
               doif there (attempt (os_rmtree os (state_dir network_id)) (\<lambda>e. if is_oserror e then ret () else raise e))))))))"

definition nat_plugin :: "'w os \<Rightarrow> (string \<Rightarrow> string) \<Rightarrow> string \<Rightarrow> 'w plugin" where
  "nat_plugin os sha here = \<lparr>pl_name = EXPOSURE_NAT, pl_apply_config = apply_config os sha here, pl_teardown = nat_teardown os\<rparr>"

section \<open>The plugin as the agent relies on it\<close>

text \<open>What no call of the operating system touches, the plugin does not touch.\<close>

definition os_frame :: "'w os \<Rightarrow> ('w \<Rightarrow> 'v) \<Rightarrow> bool" where
  "os_frame os v \<longleftrightarrow> (\<forall>p. keeps v (os_makedirs os p)) \<and> (\<forall>p. keeps v (os_read os p)) \<and> (\<forall>p s. keeps v (os_write os p s))
     \<and> (\<forall>a b. keeps v (os_replace os a b)) \<and> (\<forall>p. keeps v (os_rmtree os p)) \<and> (\<forall>pid. keeps v (os_kill0 os pid))
     \<and> keeps v (os_monotonic os) \<and> (\<forall>t. keeps v (os_sleep os t)) \<and> (\<forall>ns cmd. keeps v (os_exec_in_ns os ns cmd))"

lemma os_frame_calls:
  assumes "os_frame os v"
  shows "keeps v (os_makedirs os p)" "keeps v (os_read os p)" "keeps v (os_write os p s)" "keeps v (os_replace os a b)"
    "keeps v (os_rmtree os p)" "keeps v (os_kill0 os pid)" "keeps v (os_monotonic os)" "keeps v (os_sleep os t)" "keeps v (os_exec_in_ns os ns cmd)"
  using assms unfolding os_frame_def by simp_all

lemma keeps_option: "(\<And>x. keeps v (f x)) \<Longrightarrow> keeps v m \<Longrightarrow> keeps v (case x0 of None \<Rightarrow> m | Some x \<Rightarrow> f x)"
  by (cases x0) simp_all

lemma pid_frame:
  assumes "os_frame os v"
  shows "keeps v (read_pid os p)" "keeps v (process_alive os pid)"
  unfolding read_pid_def process_alive_def
  by (intro keeps_intros keeps_option os_frame_calls[OF assms])+

lemma wait_frame:
  assumes "os_frame os v"
  shows "keeps v (wait_pidfile os fuel p d)"
proof (induction fuel)
  case 0
  show ?case unfolding wait_pidfile.simps by (intro keeps_intros)
next
  case (Suc fuel)
  show ?case unfolding wait_pidfile.simps by (intro keeps_intros pid_frame[OF assms] os_frame_calls[OF assms] Suc)
qed

lemma activate_frame:
  assumes "os_frame os v"
  shows "keeps v (activate os n ns pid running)"
  unfolding activate_def prepare_netns_def reload_keepalived_def start_keepalived_def
  by (intro keeps_intros keeps_option pid_frame[OF assms] wait_frame[OF assms] os_frame_calls[OF assms])

lemma nat_plugin_frame:
  assumes "os_frame os v"
  shows "keeps v (pl_apply_config (nat_plugin os sha here) ns svcs)" "keeps v (pl_teardown (nat_plugin os sha here) ns)"
proof -
  show "keeps v (pl_apply_config (nat_plugin os sha here) ns svcs)"
    unfolding nat_plugin_def plugin.select_convs apply_config_def apply_locked_def commit_conf_def read_hash_def Let_def
    by (intro keeps_intros pid_frame[OF assms] activate_frame[OF assms] os_frame_calls[OF assms])
  show "keeps v (pl_teardown (nat_plugin os sha here) ns)"
    unfolding nat_plugin_def plugin.select_convs nat_teardown_def Let_def
    by (intro keeps_intros pid_frame[OF assms] os_frame_calls[OF assms])
qed

section \<open>Waiting ends\<close>

text \<open>A clock that sleeping advances, and that no other call of the loop turns back.\<close>

definition clock_ok :: "'w os \<Rightarrow> ('w \<Rightarrow> int) \<Rightarrow> bool" where
  "clock_ok os clock \<longleftrightarrow>
     (\<forall>w. os_monotonic os w = (Inr (clock w), w))
     \<and> (\<forall>t w r w'. os_sleep os t w = (r, w') \<longrightarrow> clock w + t \<le> clock w')"

lemma wait_ends:
  assumes ck: "clock_ok os clock" and ok: "os_ok os files own"
    and fuel: "deadline \<le> clock w + KEEPALIVED_START_POLL * int fuel"
    and run: "wait_pidfile os (Suc fuel) path deadline w = (Inr r, w')"
  shows "r \<noteq> None"
  using fuel run
proof (induction fuel arbitrary: w)
  case 0
  then show ?case using ck by (auto simp: clock_ok_def bnd_def)
next
  case (Suc fuel)
  have m: "os_monotonic os w = (Inr (clock w), w)" using ck by (simp add: clock_ok_def)
  obtain a where a: "process_alive os (pid_in files path w) w = (a, w)"
    using process_alive_same[OF ok] by metis
  show ?case
  proof (cases "clock w < deadline \<and> a = Inr False")
    case True
    obtain x w1 where sl: "os_sleep os KEEPALIVED_START_POLL w = (x, w1)" by fastforce
    have step: "wait_pidfile os (Suc (Suc fuel)) path deadline w =
        andthen (os_sleep os KEEPALIVED_START_POLL) (wait_pidfile os (Suc fuel) path deadline) w"
      using True m a read_pid_run[OF ok, of path w] by (simp add: bnd_def)
    then have w1: "wait_pidfile os (Suc fuel) path deadline w1 = (Inr r, w')"
      using Suc.prems(2) sl unfolding step by (cases x) simp_all
    have "clock w + KEEPALIVED_START_POLL \<le> clock w1" using ck sl unfolding clock_ok_def by blast
    then have "deadline \<le> clock w1 + KEEPALIVED_START_POLL * int fuel"
      using Suc.prems(1) by (simp add: algebra_simps)
    then show ?thesis by (rule Suc.IH[OF _ w1])
  next
    case False
    then show ?thesis using Suc.prems(2) m a read_pid_run[OF ok, of path w]
      by (cases a) (auto simp: bnd_def split: if_splits)
  qed
qed

section \<open>A pass settles\<close>

lemma prepare_returns: "\<exists>w'. prepare_netns os ns w = (Inr (), w')"
proof -
  have "fst (prepare_netns os ns w) = Inr ()"
    by (simp add: prepare_netns_def andthen_def bnd_def swallow_run attempt_def split: prod.split sum.split)
  then show ?thesis by (metis prod.collapse)
qed

definition own_file :: "string \<Rightarrow> string \<Rightarrow> bool" where
  "own_file n p \<longleftrightarrow> p \<in> {conf_path n, hash_path n}"

lemma paths_distinct: "hash_path n \<noteq> conf_path n" "hash_path n \<noteq> conf_path n @ ''.tmp''" "pid_path n \<noteq> hash_path n" "pid_path n \<noteq> conf_path n"
    "pid_path n \<noteq> conf_path n @ ''.tmp''"
  by (simp_all add: hash_path_def conf_path_def pid_path_def path_join_def startswith_def)

lemma dropWhile_id: "s = [] \<or> \<not> P (hd s) \<Longrightarrow> dropWhile P s = s"
  by (cases s) auto

lemma strip_same:
  assumes "s = [] \<or> (\<not> is_space (hd s) \<and> \<not> is_space (last s))"
  shows "strip s = s"
  using assms dropWhile_id[of s is_space] dropWhile_id[of "rev s" is_space]
  by (cases "s = []") (simp_all add: strip_def hd_rev)

lemma read_hash_run: "os_ok os files own \<Longrightarrow> read_hash os p w = (Inr (map_option strip (files w p)), w)"
  by (simp add: read_hash_def os_okD(1) bnd_def attempt_def is_oserror_def split: option.split)

lemma commit_run:
  assumes ok: "os_ok os files own" and run: "commit_conf os n conf h w = (Inr (), w')"
  shows "files w' (hash_path n) = Some h" "files w' (conf_path n) = Some conf" "files w' (pid_path n) = files w (pid_path n)"
proof -
  from run obtain w1 w2 where w1: "os_write os (conf_path n @ ''.tmp'') conf w = (Inr (), w1)"
    and w2: "os_replace os (conf_path n @ ''.tmp'') (conf_path n) w1 = (Inr (), w2)" and w3: "os_write os (hash_path n) h w2 = (Inr (), w')"
    unfolding commit_conf_def by (elim andthen_cases) simp_all
  show "files w' (hash_path n) = Some h" "files w' (conf_path n) = Some conf" "files w' (pid_path n) = files w (pid_path n)"
    using paths_distinct[of n] by (simp_all add: os_okD(2)[OF ok w3] os_okD(3)[OF ok w2] os_okD(2)[OF ok w1])
qed

text \<open>What comes after the commit leaves the configuration and the hash alone, however it ends.\<close>

lemma activate_keeps_own:
  assumes ok: "os_ok os files (own_file n)" and p: "own_file n p"
  shows "keeps (\<lambda>w. files w p) (activate os n ns pid running)"
proof -
  have r: "keeps (\<lambda>w. files w p) (read_pid os q)" for q
    using read_pid_run[OF ok] by (simp add: keeps_def)
  have a: "keeps (\<lambda>w. files w p) (process_alive os pid)" for pid
    unfolding keeps_def using process_alive_same[OF ok] by (metis snd_conv)
  note calls = os_okD(5,6,7)[OF ok p]
  have w: "keeps (\<lambda>w. files w p) (wait_pidfile os fuel q d)" for fuel q d
  proof (induction fuel)
    case 0
    show ?case unfolding wait_pidfile.simps by (intro keeps_intros)
  next
    case (Suc fuel)
    show ?case unfolding wait_pidfile.simps by (intro keeps_intros r a calls Suc)
  qed
  show ?thesis
    unfolding activate_def prepare_netns_def reload_keepalived_def start_keepalived_def
    by (intro keeps_intros keeps_option r a w calls)
qed

abbreviation conf_of :: "'w os \<Rightarrow> string \<Rightarrow> string \<Rightarrow> service_dict list \<Rightarrow> 'w \<Rightarrow> string" where
  "conf_of os here n services w \<equiv> render_keepalived_conf (os_isfile os w) here n services"

text \<open>A pass that finds the hash of its configuration and a live daemon does nothing.\<close>

lemma settled_pass:
  assumes ok: "os_ok os files own" and sha: "\<And>s c. c \<in> set (sha s) \<Longrightarrow> \<not> is_space c"
    and h: "files w (hash_path n) = Some (sha (conf_of os here n services w))"
    and alive: "process_alive os (pid_in files (pid_path n) w) w = (Inr True, w)"
  shows "apply_locked os sha here n ns services w = (Inr (), w)"
proof -
  have strip: "strip (sha x) = sha x" for x using sha[of _ x] by (intro strip_same) (cases "sha x"; simp)
  show ?thesis
    using h alive by (simp add: apply_locked_def bnd_def read_pid_run[OF ok] read_hash_run[OF ok] strip)
qed

text \<open>A pass of a live daemon with a new configuration, after the reads.\<close>

lemma changed_pass:
  assumes ok: "os_ok os files own" and svcs: "services \<noteq> []"
    and alive: "process_alive os (pid_in files (pid_path n) w) w = (Inr True, w)"
    and h: "map_option strip (files w (hash_path n)) \<noteq> Some (sha (conf_of os here n services w))"
  shows "apply_locked os sha here n ns services w =
    andthen (commit_conf os n (conf_of os here n services w) (sha (conf_of os here n services w)))
      (activate os n ns (pid_in files (pid_path n) w) True) w"
  using svcs alive h by (simp add: apply_locked_def bnd_def read_pid_run[OF ok] read_hash_run[OF ok] del: map_option_eq_Some)

section \<open>Properties\<close>

text \<open>
  C23. A failed reload is never retried. The plugin records the hash of a configuration before
  keepalived has taken it. When the daemon is alive but the SIGHUP fails and so does the start of
  a second daemon, the pass raises, with the new configuration and its hash on disk; the next pass
  for the same services finds the hash and the live daemon and returns without doing
  anything, and so does every later one, while keepalived still runs the old configuration.
\<close>

theorem failed_reload_never_retried:
  assumes ok: "os_ok os files (\<lambda>p. own_file n p \<or> p = pid_path n)" and sha: "\<And>s c. c \<in> set (sha s) \<Longrightarrow> \<not> is_space c"
    and svcs: "services \<noteq> []"
    and writes: "\<And>p s w. \<exists>w'. os_write os p s w = (Inr (), w')" "\<And>a b w. \<exists>w'. os_replace os a b w = (Inr (), w')"
    and scripts: "\<And>w'. os_isfile os w' = os_isfile os w"
    and daemon: "pid_in files (pid_path n) w = Some pid" "\<And>w'. process_alive os (Some pid) w' = (Inr True, w')"
    and new: "map_option strip (files w (hash_path n)) \<noteq> Some (sha (conf_of os here n services w))"
    and hup: "\<And>w'. \<exists>e w''. os_exec_in_ns os (NETNS_PREFIX @ n) [''kill'', ''-HUP'', str_int pid] w' = (Inl e, w'')"
    and start: "\<And>w'. \<exists>e w''. os_exec_in_ns os ns [''keepalived'', ''-f'', conf_path n, ''-p'', pid_path n, ''-D''] w' = (Inl e, w'')"
  shows "\<exists>e w1. apply_locked os sha here n ns services w = (Inl e, w1)
    \<and> files w1 (conf_path n) = Some (conf_of os here n services w)
    \<and> apply_locked os sha here n ns services w1 = (Inr (), w1)"
proof -
  let ?conf = "conf_of os here n services w"
  obtain w0 where w0: "commit_conf os n ?conf (sha ?conf) w = (Inr (), w0)"
    unfolding commit_conf_def using writes by (metis andthen_Inr)
  note files0 = commit_run[OF ok w0]
  obtain w2 where w2: "prepare_netns os ns w0 = (Inr (), w2)"
    using prepare_returns by metis
  obtain e3 w3 where w3: "os_exec_in_ns os (NETNS_PREFIX @ n) [''kill'', ''-HUP'', str_int pid] w2 = (Inl e3, w3)" using hup by blast
  obtain e4 w4 where w4: "os_exec_in_ns os ns [''keepalived'', ''-f'', conf_path n, ''-p'', pid_path n, ''-D''] w3 = (Inl e4, w4)" using start by blast
  have reload: "reload_keepalived os n (Some pid) w2 = (Inr False, w3)"
    using w3 daemon(2) by (simp add: reload_keepalived_def bnd_def attempt_def)
  have act: "activate os n ns (Some pid) True w0 = (Inl e4, w4)"
    using w2 reload w4 by (simp add: activate_def start_keepalived_def bnd_def)
  have alive: "process_alive os (pid_in files (pid_path n) w) w = (Inr True, w)" using daemon by simp
  have pass: "apply_locked os sha here n ns services w = (Inl e4, w4)"
    unfolding changed_pass[where sha = sha and here = here and ns = ns, OF ok svcs alive new] using daemon w0 act by simp
  have same: "files w4 p = files w0 p" if "own_file n p \<or> p = pid_path n" for p
  proof -
    have "keeps (\<lambda>w. files w p) (prepare_netns os ns)"
      unfolding prepare_netns_def by (intro keeps_intros os_okD(5)[OF ok]) (rule that)+
    then have "files w2 p = files w0 p" using w2 by (rule keepsD)
    then show ?thesis using keepsD[OF os_okD(5)[OF ok that] w3] keepsD[OF os_okD(5)[OF ok that] w4] by simp
  qed
  have f4: "files w4 (conf_path n) = Some ?conf" "files w4 (hash_path n) = Some (sha ?conf)" "files w4 (pid_path n) = files w (pid_path n)"
    using files0 same by (simp_all add: own_file_def)
  have "apply_locked os sha here n ns services w4 = (Inr (), w4)"
    by (rule settled_pass[OF ok sha]) (use f4 daemon scripts[of w4] in \<open>simp_all add: pid_in_def\<close>)
  then show ?thesis using pass f4(1) by blast
qed

text \<open>A machine with files only, on which every process answers and every command fails.\<close>

definition mem_os :: "(string \<rightharpoonup> string) os" where
  "mem_os =
     \<lparr>os_makedirs = (\<lambda>_. ret ()), os_read = (\<lambda>p w. case w p of Some s \<Rightarrow> (Inr s, w) | None \<Rightarrow> (Inl (OSError ''ENOENT''), w)),
      os_write = (\<lambda>p s. modify (\<lambda>w. w(p \<mapsto> s))), os_replace = (\<lambda>a b. modify (\<lambda>w. w(a := None, b := w a))),
      os_isfile = (\<lambda>_ _. False), os_isdir = (\<lambda>_ _. True), os_rmtree = (\<lambda>_. ret ()), os_kill0 = (\<lambda>_. ret ()),
      os_monotonic = ret 0, os_sleep = (\<lambda>_. ret ()), os_exec_in_ns = (\<lambda>_ _. raise (Foreign ''ProcessExecutionError''))\<rparr>"

definition mem_sha :: "string \<Rightarrow> string" where
  "mem_sha s = str_nat (length s)"

lemma mem_os_ok: "os_ok mem_os (\<lambda>w. w) own"
  by (simp add: os_ok_def mem_os_def)

lemma mem_sha_ok: "c \<in> set (mem_sha s) \<Longrightarrow> \<not> is_space c"
  using str_nat_digits[of "length s"] by (auto simp: mem_sha_def list_all_iff is_space_def is_digit_def)

theorem failed_reload_never_retried_witness:
  "\<exists>e w1. apply_locked mem_os mem_sha ''/opt'' ''net-a'' (NETNS_PREFIX @ ''net-a'') [web_service ''web''] [pid_path ''net-a'' \<mapsto> ''7''] = (Inl e, w1)
    \<and> w1 (conf_path ''net-a'') = Some (conf_of mem_os ''/opt'' ''net-a'' [web_service ''web''] [pid_path ''net-a'' \<mapsto> ''7''])
    \<and> apply_locked mem_os mem_sha ''/opt'' ''net-a'' (NETNS_PREFIX @ ''net-a'') [web_service ''web''] w1 = (Inr (), w1)"
proof (rule failed_reload_never_retried[OF mem_os_ok mem_sha_ok])
  show "pid_in (\<lambda>w. w) (pid_path ''net-a'') [pid_path ''net-a'' \<mapsto> ''7''] = Some 7"
    by (simp add: pid_in_def py_int_def strip_def is_space_def parse_digits_def is_digit_def contains_def startswith_def digit_val_def)
  show "process_alive mem_os (Some 7) w' = (Inr True, w')" for w'
    by (simp add: process_alive_def mem_os_def andthen_def bnd_def attempt_def)
qed (simp_all add: mem_os_def paths_distinct not_sym[OF paths_distinct(3)])

end
