(* ===== verification/Json.thy ===== *)
theory Json
  imports Prelude
begin

text \<open>
  JSON text as \<^verbatim>\<open>json.dumps\<close> with \<^verbatim>\<open>separators=(',', ':')\<close> writes it and \<^verbatim>\<open>json.loads\<close> reads it. A character of
  the model is a code point below 256; numbers are integers: text with a fraction, an exponent or a larger
  code point is outside the model and does not parse.
\<close>

datatype json = JNull | JBool bool | JInt int | JStr string | JArr "json list" | JObj "(string \<times> json) list"

definition HEX :: string where "HEX = ''0123456789abcdef''"

definition hex_digit :: "nat \<Rightarrow> char" where
  "hex_digit n = HEX ! (n mod 16)"

definition hex_val :: "char \<Rightarrow> nat option" where
  "hex_val c =
     (let n = of_char c :: nat
      in if 48 \<le> n \<and> n \<le> 57 then Some (n - 48)
         else if 97 \<le> n \<and> n \<le> 102 then Some (n - 87)
         else if 65 \<le> n \<and> n \<le> 70 then Some (n - 55)
         else None)"

abbreviation QUOTE :: char where "QUOTE \<equiv> CHR 0x22"
abbreviation BACKSLASH :: char where "BACKSLASH \<equiv> CHR 0x5C"

section \<open>Printing\<close>

text \<open>The short escapes, as pairs of the character and its letter.\<close>

definition ESCAPES :: "(char \<times> char) list" where
  "ESCAPES = [(QUOTE, QUOTE), (BACKSLASH, BACKSLASH), (CHR 0x0A, CHR ''n''), (CHR 0x0D, CHR ''r''), (CHR 0x09, CHR ''t''),
     (CHR 0x0C, CHR ''f''), (CHR 0x08, CHR ''b'')]"

definition escape_char :: "char \<Rightarrow> string" where
  "escape_char c =
     (case map_of ESCAPES c of
        Some l \<Rightarrow> [BACKSLASH, l]
      | None \<Rightarrow>
          (let n = of_char c :: nat
           in if 32 \<le> n \<and> n \<le> 126 then [c]
              else [BACKSLASH, CHR ''u'', CHR ''0'', CHR ''0'', hex_digit (n div 16), hex_digit n]))"

definition quoted :: "string \<Rightarrow> string" where
  "quoted s = QUOTE # concat (map escape_char s) @ [QUOTE]"

fun commas :: "string list \<Rightarrow> string" where
  "commas [] = []"
| "commas [x] = x"
| "commas (x # y # ys) = x @ CHR '','' # commas (y # ys)"

fun dumps :: "json \<Rightarrow> string" where
  "dumps JNull = ''null''"
| "dumps (JBool b) = (if b then ''true'' else ''false'')"
| "dumps (JInt n) = str_int n"
| "dumps (JStr s) = quoted s"
| "dumps (JArr xs) = CHR ''['' # commas (map dumps xs) @ '']''"
| "dumps (JObj kvs) = CHR ''{'' # commas (map (\<lambda>kv. quoted (fst kv) @ CHR '':'' # dumps (snd kv)) kvs) @ ''}''"

section \<open>Parsing\<close>

definition is_ws :: "char \<Rightarrow> bool" where
  "is_ws c = (c = CHR 0x20 \<or> c = CHR 0x09 \<or> c = CHR 0x0A \<or> c = CHR 0x0D)"

definition skip_ws :: "string \<Rightarrow> string" where
  "skip_ws s = dropWhile is_ws s"

definition expect :: "char \<Rightarrow> string \<Rightarrow> string option" where
  "expect c s = (case skip_ws s of [] \<Rightarrow> None | x # r \<Rightarrow> if x = c then Some r else None)"

definition parse_u :: "string \<Rightarrow> (char \<times> string) option" where
  "parse_u s =
     (case s of
        a # b # c # d # r \<Rightarrow>
          (case (hex_val a, hex_val b, hex_val c, hex_val d) of
             (Some 0, Some 0, Some x, Some y) \<Rightarrow> Some (char_of (16 * x + y), r)
           | _ \<Rightarrow> None)
      | _ \<Rightarrow> None)"

definition unescape :: "char \<Rightarrow> char option" where
  "unescape l = (if l = CHR ''/'' then Some l else map_of (map (\<lambda>(c, e). (e, c)) ESCAPES) l)"

text \<open>The rest of a string literal, after its opening quote.\<close>

fun parse_str :: "nat \<Rightarrow> string \<Rightarrow> (string \<times> string) option" where
  "parse_str 0 s = None"
| "parse_str (Suc n) s =
     (case s of
        [] \<Rightarrow> None
      | c # r \<Rightarrow>
          if c = QUOTE then Some ([], r)
          else if c = BACKSLASH then
            (case r of
               [] \<Rightarrow> None
             | l # r' \<Rightarrow>
                 if l = CHR ''u'' then
                   (case parse_u r' of
                      None \<Rightarrow> None
                    | Some (x, q) \<Rightarrow> map_option (\<lambda>(t, q'). (x # t, q')) (parse_str n q))
                 else
                   (case unescape l of
                      None \<Rightarrow> None
                    | Some x \<Rightarrow> map_option (\<lambda>(t, q'). (x # t, q')) (parse_str n r')))
          else if (of_char c :: nat) < 32 then None
          else map_option (\<lambda>(t, q'). (c # t, q')) (parse_str n r))"

definition parse_lit :: "string \<Rightarrow> (string \<times> string) option" where
  "parse_lit s = parse_str (length s) s"

definition parse_digits :: "string \<Rightarrow> (nat \<times> string) option" where
  "parse_digits s =
     (let d = takeWhile is_digit s; r = dropWhile is_digit s
      in if d = [] \<or> (hd d = CHR ''0'' \<and> d \<noteq> ''0'') then None
         else if r \<noteq> [] \<and> hd r \<in> {CHR ''.'', CHR ''e'', CHR ''E''} then None
         else map_option (\<lambda>n. (n, r)) (parse_nat d))"

definition parse_num :: "string \<Rightarrow> (json \<times> string) option" where
  "parse_num s =
     (if s \<noteq> [] \<and> hd s = CHR ''-'' then map_option (\<lambda>(n, r). (JInt (- int n), r)) (parse_digits (tl s))
      else map_option (\<lambda>(n, r). (JInt (int n), r)) (parse_digits s))"

definition parse_word :: "string \<Rightarrow> (json \<times> string) option" where
  "parse_word s =
     (if startswith s ''null'' then Some (JNull, drop 4 s)
      else if startswith s ''true'' then Some (JBool True, drop 4 s)
      else if startswith s ''false'' then Some (JBool False, drop 5 s)
      else parse_num s)"

text \<open>Every call takes one unit of \<open>fuel\<close>; \<open>loads\<close> gives more than a text of its length can use
  (\<open>loads_dumps\<close>).\<close>

fun parse_val :: "nat \<Rightarrow> string \<Rightarrow> (json \<times> string) option"
  and parse_elems :: "nat \<Rightarrow> string \<Rightarrow> (json list \<times> string) option"
  and parse_members :: "nat \<Rightarrow> string \<Rightarrow> ((string \<times> json) list \<times> string) option" where
  "parse_val 0 s = None"
| "parse_val (Suc n) s =
     (case skip_ws s of
        [] \<Rightarrow> None
      | c # r \<Rightarrow>
          if c = QUOTE then map_option (\<lambda>(t, q). (JStr t, q)) (parse_lit r)
          else if c = CHR ''['' then
            (case expect (CHR '']'') r of
               Some q \<Rightarrow> Some (JArr [], q)
             | None \<Rightarrow> map_option (\<lambda>(vs, q). (JArr vs, q)) (parse_elems n r))
          else if c = CHR ''{'' then
            (case expect (CHR ''}'') r of
               Some q \<Rightarrow> Some (JObj [], q)
             | None \<Rightarrow> map_option (\<lambda>(kvs, q). (JObj kvs, q)) (parse_members n r))
          else parse_word (c # r))"
| "parse_elems 0 s = None"
| "parse_elems (Suc n) s =
     Option.bind (parse_val n s) (\<lambda>(v, r).
       case expect (CHR '','') r of
         Some q \<Rightarrow> map_option (\<lambda>(vs, q'). (v # vs, q')) (parse_elems n q)
       | None \<Rightarrow> map_option (\<lambda>q. ([v], q)) (expect (CHR '']'') r))"
| "parse_members 0 s = None"
| "parse_members (Suc n) s =
     Option.bind (expect QUOTE s) (\<lambda>r.
     Option.bind (parse_lit r) (\<lambda>(k, r).
     Option.bind (expect (CHR '':'') r) (\<lambda>r.
     Option.bind (parse_val n r) (\<lambda>(v, r).
       case expect (CHR '','') r of
         Some q \<Rightarrow> map_option (\<lambda>(kvs, q'). ((k, v) # kvs, q')) (parse_members n q)
       | None \<Rightarrow> map_option (\<lambda>q. ([(k, v)], q)) (expect (CHR ''}'') r)))))"

definition loads :: "string \<Rightarrow> json option" where
  "loads s =
     Option.bind (parse_val (2 * length s) s) (\<lambda>(v, r). if skip_ws r = [] then Some v else None)"

text \<open>\<^verbatim>\<open>d.get(k)\<close> on a parsed object: of equal keys the last one counts.\<close>

definition obj_get :: "(string \<times> json) list \<Rightarrow> string \<Rightarrow> json option" where
  "obj_get kvs k = map_of (rev kvs) k"

section \<open>Round trip\<close>

lemma hex_val_digit: "hex_val (hex_digit n) = Some (n mod 16)"
proof -
  have "list_all (\<lambda>m. hex_val (HEX ! m) = Some m) [0..<16]" by code_simp
  moreover have "n mod 16 \<in> set [0..<16]" by simp
  ultimately show ?thesis unfolding hex_digit_def list_all_iff by blast
qed

lemma parse_u_digits: "parse_u (CHR ''0'' # CHR ''0'' # hex_digit (of_char c div 16) # hex_digit (of_char c) # r) = Some (c, r)"
proof -
  have "hex_val (CHR ''0'') = Some 0" by code_simp
  moreover have "(of_char c :: nat) div 16 < 16" by (rule less_mult_imp_div_less) simp
  moreover have "char_of (16 * ((of_char c :: nat) div 16) + of_char c mod 16) = c" by simp
  ultimately show ?thesis by (simp add: parse_u_def hex_val_digit)
qed

lemma unescape_letter:
  assumes "map_of ESCAPES c = Some l"
  shows "unescape l = Some c" "l \<noteq> CHR ''u''"
  using assms by (auto simp: unescape_def ESCAPES_def split: if_splits)

lemma parse_str_escape:
  "parse_str (Suc n) (escape_char c @ r) = map_option (\<lambda>(t, q). (c # t, q)) (parse_str n r)"
proof (cases "map_of ESCAPES c")
  case (Some l)
  then show ?thesis by (simp add: escape_char_def unescape_letter)
next
  case None
  then have "c \<noteq> QUOTE" "c \<noteq> BACKSLASH" by (auto simp: ESCAPES_def split: if_splits)
  then show ?thesis using None by (simp add: escape_char_def Let_def parse_u_digits)
qed

lemma escape_char_ne: "1 \<le> length (escape_char c)"
  by (simp add: escape_char_def Let_def split: option.split)

lemma escaped_length: "length s \<le> length (concat (map escape_char s))"
proof (induction s)
  case (Cons c s)
  then show ?case using escape_char_ne[of c] by simp
qed simp

lemma parse_str_quoted: "length s < n \<Longrightarrow> parse_str n (concat (map escape_char s) @ QUOTE # r) = Some (s, r)"
proof (induction s arbitrary: n)
  case Nil
  then show ?case by (cases n) simp_all
next
  case (Cons c s)
  then show ?case by (cases n) (simp_all del: parse_str.simps add: parse_str_escape)
qed

lemma parse_lit_quoted: "parse_lit (concat (map escape_char s) @ QUOTE # r) = Some (s, r)"
  unfolding parse_lit_def using escaped_length[of s] by (intro parse_str_quoted) simp

lemma skip_ws_Cons [simp]: "\<not> is_ws c \<Longrightarrow> skip_ws (c # r) = c # r"
  by (simp add: skip_ws_def)

lemma expect_Cons [simp]: "\<not> is_ws d \<Longrightarrow> expect c (d # r) = (if d = c then Some r else None)"
  by (simp add: expect_def)

lemma is_ws_punct [simp]:
  "\<not> is_ws QUOTE" "\<not> is_ws (CHR '','')" "\<not> is_ws (CHR '':'')" "\<not> is_ws (CHR ''['')" "\<not> is_ws (CHR '']'')"
  "\<not> is_ws (CHR ''{'')" "\<not> is_ws (CHR ''}'')"
  by (simp_all add: is_ws_def)

text \<open>What may follow a value inside a document.\<close>

definition stop :: "string \<Rightarrow> bool" where
  "stop r \<longleftrightarrow> r = [] \<or> hd r \<in> {CHR '','', CHR '']'', CHR ''}''}"

lemma str_nat_head: "hd (str_nat n) = CHR ''0'' \<longleftrightarrow> n = 0"
proof (induction n rule: str_nat.induct)
  case (1 n)
  show ?case
  proof (cases "n < 10")
    case True
    have "list_all (\<lambda>m. hd (str_nat m) = CHR ''0'' \<longleftrightarrow> m = 0) [0..<10]" by code_simp
    with True show ?thesis unfolding list_all_iff by simp
  next
    case False
    then show ?thesis using 1 by (simp add: str_nat.simps[of n])
  qed
qed

lemma parse_digits_str_nat:
  assumes "stop r"
  shows "parse_digits (str_nat n @ r) = Some (n, r)"
proof -
  have all: "\<And>c. c \<in> set (str_nat n) \<Longrightarrow> is_digit c" using str_nat_digits[of n] by (simp add: list_all_iff)
  have r: "takeWhile is_digit r = []" "dropWhile is_digit r = r" "r = [] \<or> hd r \<notin> {CHR ''.'', CHR ''e'', CHR ''E''}"
    using assms by (cases r; auto simp: stop_def is_digit_def)+
  have "str_nat 0 = ''0''" by code_simp
  then have "hd (str_nat n) = CHR ''0'' \<Longrightarrow> str_nat n = ''0''" by (simp add: str_nat_head)
  with r show ?thesis using all by (auto simp: parse_digits_def Let_def takeWhile_append2 dropWhile_append2)
qed

lemma str_nat_Cons: obtains d ds where "str_nat n = d # ds" "is_digit d"
  using str_nat_ne[of n] str_nat_digits[of n] by (cases "str_nat n") auto

lemma parse_num_str_int: "stop r \<Longrightarrow> parse_num (str_int n @ r) = Some (JInt n, r)"
proof (cases "n < 0")
  case False
  obtain d ds where d: "str_nat (nat n) = d # ds" "is_digit d" by (rule str_nat_Cons)
  then have "d \<noteq> CHR ''-''" by (auto simp: is_digit_def)
  assume "stop r"
  from parse_digits_str_nat[OF this, of "nat n"] show ?thesis
    using False d \<open>d \<noteq> _\<close> by (simp add: parse_num_def str_int_def)
qed (simp add: parse_num_def str_int_def parse_digits_str_nat)

lemma str_int_Cons:
  obtains d ds where "str_int n = d # ds" "is_digit d \<or> d = CHR ''-''"
proof (cases "n < 0")
  case False
  obtain d ds where "str_nat (nat n) = d # ds" "is_digit d" by (rule str_nat_Cons)
  with False show ?thesis by (intro that[of d ds]) (simp_all add: str_int_def)
qed (simp add: str_int_def that)

text \<open>The first character of a printed value.\<close>

lemma dumps_Cons:
  obtains c cs where "dumps j = c # cs" "\<not> is_ws c" "c \<noteq> CHR '']''"
proof (cases j)
  case (JInt n)
  obtain d ds where "str_int n = d # ds" "is_digit d \<or> d = CHR ''-''" by (rule str_int_Cons)
  with JInt show ?thesis by (intro that[of d ds]) (auto simp: is_digit_def is_ws_def)
next
  case (JBool b)
  then show ?thesis by (cases b) (auto simp: is_ws_def intro: that)
qed (auto simp: quoted_def is_ws_def intro: that)

fun need :: "json \<Rightarrow> nat" where
  "need (JArr xs) = 1 + sum_list (map (\<lambda>x. 1 + need x) xs)"
| "need (JObj kvs) = 1 + sum_list (map (\<lambda>kv. 1 + need (snd kv)) kvs)"
| "need _ = 1"

lemma stop_punct [simp]: "stop []" "stop (CHR '','' # r)" "stop (CHR '']'' # r)" "stop (CHR ''}'' # r)"
  by (simp_all add: stop_def)

lemma parse_elems_dumps:
  assumes "xs \<noteq> []" and "\<And>x n r. x \<in> set xs \<Longrightarrow> need x \<le> n \<Longrightarrow> stop r \<Longrightarrow> parse_val n (dumps x @ r) = Some (x, r)"
    and "sum_list (map (\<lambda>x. 1 + need x) xs) \<le> n"
  shows "parse_elems n (commas (map dumps xs) @ CHR '']'' # r) = Some (xs, r)"
  using assms
proof (induction xs arbitrary: n rule: list_nonempty_induct)
  case (single x)
  then show ?case by (cases n) simp_all
next
  case (cons x xs)
  then obtain m where n: "n = Suc m" by (cases n) auto
  obtain y ys where ys: "xs = y # ys" using cons.hyps by (cases xs) auto
  have "parse_elems m (commas (map dumps xs) @ CHR '']'' # r) = Some (xs, r)"
    by (rule cons.IH) (use cons.prems n in auto)
  moreover have "parse_val m (dumps x @ CHR '','' # commas (map dumps xs) @ CHR '']'' # r) = Some (x, CHR '','' # commas (map dumps xs) @ CHR '']'' # r)"
    by (rule cons.prems) (use cons.prems n in auto)
  ultimately show ?case by (simp add: n ys)
qed

lemma parse_members_dumps:
  assumes "kvs \<noteq> []" and "\<And>kv n r. kv \<in> set kvs \<Longrightarrow> need (snd kv) \<le> n \<Longrightarrow> stop r \<Longrightarrow> parse_val n (dumps (snd kv) @ r) = Some (snd kv, r)"
    and "sum_list (map (\<lambda>kv. 1 + need (snd kv)) kvs) \<le> n"
  shows "parse_members n (commas (map (\<lambda>kv. quoted (fst kv) @ CHR '':'' # dumps (snd kv)) kvs) @ CHR ''}'' # r) = Some (kvs, r)"
  using assms
proof (induction kvs arbitrary: n rule: list_nonempty_induct)
  case (single kv)
  then show ?case by (cases n) (simp_all add: quoted_def parse_lit_quoted)
next
  case (cons kv kvs)
  then obtain m where n: "n = Suc m" by (cases n) auto
  obtain y ys where ys: "kvs = y # ys" using cons.hyps by (cases kvs) auto
  let ?rest = "commas (map (\<lambda>kv. quoted (fst kv) @ CHR '':'' # dumps (snd kv)) kvs) @ CHR ''}'' # r"
  have "parse_members m ?rest = Some (kvs, r)"
    by (rule cons.IH) (use cons.prems n in auto)
  moreover have "parse_val m (dumps (snd kv) @ CHR '','' # ?rest) = Some (snd kv, CHR '','' # ?rest)"
    by (rule cons.prems) (use cons.prems n in auto)
  ultimately show ?case by (simp add: n ys quoted_def parse_lit_quoted)
qed

lemma parse_word_int: "stop r \<Longrightarrow> parse_word (str_int n @ r) = Some (JInt n, r)"
proof -
  assume r: "stop r"
  obtain d ds where d: "str_int n = d # ds" "is_digit d \<or> d = CHR ''-''" by (rule str_int_Cons)
  then have "d \<noteq> CHR ''n''" "d \<noteq> CHR ''t''" "d \<noteq> CHR ''f''" by (auto simp: is_digit_def)
  then show ?thesis using parse_num_str_int[OF r, of n] d(1) by (simp add: parse_word_def startswith_def)
qed

lemma parse_val_dumps: "need j \<le> n \<Longrightarrow> stop r \<Longrightarrow> parse_val n (dumps j @ r) = Some (j, r)"
proof (induction j arbitrary: n r)
  case (JInt k)
  obtain d ds where d: "str_int k = d # ds" "is_digit d \<or> d = CHR ''-''" by (rule str_int_Cons)
  then have "\<not> is_ws d" "d \<noteq> QUOTE" "d \<noteq> CHR ''[''" "d \<noteq> CHR ''{''" by (auto simp: is_digit_def is_ws_def)
  then show ?case using parse_word_int[of r k] JInt d(1) by (cases n) simp_all
next
  case (JStr s)
  then show ?case by (cases n) (simp_all add: quoted_def parse_lit_quoted)
next
  case (JArr xs)
  then obtain m where n: "n = Suc m" by (cases n) auto
  show ?case
  proof (cases xs)
    case (Cons x ys)
    have elems: "parse_elems m (commas (map dumps xs) @ CHR '']'' # r) = Some (xs, r)"
      by (rule parse_elems_dumps) (use JArr n Cons in auto)
    obtain c cs where c: "dumps x = c # cs" "\<not> is_ws c" "c \<noteq> CHR '']''" by (rule dumps_Cons)
    then have "expect (CHR '']'') (commas (map dumps xs) @ CHR '']'' # r) = None"
      using Cons by (cases ys) simp_all
    with elems show ?thesis by (simp add: n)
  qed (simp add: n)
next
  case (JObj kvs)
  then obtain m where n: "n = Suc m" by (cases n) auto
  let ?text = "commas (map (\<lambda>kv. quoted (fst kv) @ CHR '':'' # dumps (snd kv)) kvs) @ CHR ''}'' # r"
  show ?case
  proof (cases kvs)
    case (Cons x ys)
    have elems: "parse_members m ?text = Some (kvs, r)"
      by (rule parse_members_dumps) (use JObj n Cons in \<open>auto simp: snds.intros\<close>)
    moreover have "expect (CHR ''}'') ?text = None"
      using Cons by (cases ys) (simp_all add: quoted_def)
    ultimately show ?thesis by (simp add: n)
  qed (simp add: n)
next
  case JNull
  then show ?case by (cases n) (simp_all add: parse_word_def startswith_def is_ws_def)
next
  case (JBool b)
  then show ?case by (cases n; cases b) (simp_all add: parse_word_def startswith_def is_ws_def)
qed

lemma commas_length: "length (commas xs) = sum_list (map length xs) + (length xs - 1)"
  by (induction xs rule: commas.induct) auto

lemma need_le_length: "need j \<le> 2 * length (dumps j)"
proof (induction j)
  case (JArr xs)
  have "sum_list (map (\<lambda>x. 1 + need x) xs) \<le> length xs + 2 * sum_list (map (\<lambda>x. length (dumps x)) xs)"
    using JArr by (induction xs) force+
  then show ?case by (simp add: commas_length comp_def)
next
  case (JObj kvs)
  have "sum_list (map (\<lambda>kv. 1 + need (snd kv)) kvs)
      \<le> length kvs + 2 * sum_list (map (\<lambda>kv. length (quoted (fst kv) @ CHR '':'' # dumps (snd kv))) kvs)"
    using JObj
  proof (induction kvs)
    case (Cons kv kvs)
    have "need (snd kv) \<le> 2 * length (dumps (snd kv))" by (rule Cons.prems) (auto simp: snds.simps)
    with Cons show ?case by force
  qed simp
  then show ?case by (simp add: commas_length comp_def)
next
  case (JInt n)
  obtain d ds where "str_int n = d # ds" by (rule str_int_Cons)
  then show ?case by simp
qed (simp_all add: quoted_def)

lemma loads_dumps: "loads (dumps j) = Some j"
  using parse_val_dumps[OF need_le_length stop_punct(1), of j] by (simp add: loads_def skip_ws_def)

interpretation json_text: codec "\<lambda>_. True" dumps loads
  by unfold_locales (rule loads_dumps)

end
