(* ===== verification/ProxyPlugin.thy ===== *)
theory ProxyPlugin
  imports Osys Plugins Json
begin

text \<open>
  The proxy plugin (\<^verbatim>\<open>agent/plugins/proxy.py\<close>): catalog entries of the services, the per-network slices and
  the signed catalog of their union, nonces, and the registration of namespaces with the worker.
  The worker's answers are a parameter here; the framing of the control socket and the scrape of the
  worker's health are in ProxyControl.
\<close>

section \<open>Entries\<close>

record proxy_backend =
  xb_addr :: string
  xb_port :: int
  xb_weight :: int

datatype proxy_check = ProbeNone | ProbeTcpConnect | ProbeHttpGet string | ProbeHttpsGet string | ProbeUdpDns | ProbeUdpNtp

record entry =
  en_net_id :: string
  en_service_id :: "string option"
  en_nonce :: string
  en_nonce_path :: string
  en_vip :: string
  en_port :: int
  en_proto :: string
  en_backends :: "proxy_backend list"
  en_health_check :: proxy_check
  en_lb_algo :: string
  en_max_concurrent :: int
  en_max_session_idle_s :: int

record catalog =
  cat_version :: int
  cat_generation :: int
  cat_entries :: "entry list"

definition PROXY_LB_ALGO :: "string \<rightharpoonup> string" where
  "PROXY_LB_ALGO = [DIST_ROUND_ROBIN \<mapsto> ''wrr'', DIST_LEAST_CONNECTION \<mapsto> ''least_conn'', DIST_ACTIVE_BACKUP \<mapsto> ''wrr'']"

definition hc_for_service :: "service_dict \<Rightarrow> proxy_check" where
  "hc_for_service svc =
     (let hc_type = the (or_str (sd_health_check_type svc) (Some HC_NONE))
      in if hc_type = HC_NONE then ProbeNone
         else if hc_type = HC_TCP then ProbeTcpConnect
         else if hc_type = HC_HTTP then ProbeHttpGet ''/''
         else if hc_type = HC_HTTPS then ProbeHttpsGet ''/''
         else if hc_type = HC_DNS then ProbeUdpDns
         else if hc_type = HC_NTP then ProbeUdpNtp
         else ProbeNone)"

definition proxy_protocols :: "service_dict \<Rightarrow> string list" where
  "proxy_protocols svc =
     (case sd_protocol svc of
        None \<Rightarrow> []
      | Some proto \<Rightarrow>
          if proto = PROTO_TCP_UDP then [PROTO_TCP, PROTO_UDP]
          else if proto = PROTO_TCP \<or> proto = PROTO_UDP then [proto]
          else [])"

definition live_backends :: "service_dict \<Rightarrow> backend_dict list" where
  "live_backends svc = filter (\<lambda>b. get_enabled (bd_enabled b)) (case sd_backends svc of None \<Rightarrow> [] | Some bs \<Rightarrow> bs)"

definition entry_backend :: "backend_dict \<Rightarrow> proxy_backend" where
  "entry_backend b =
     \<lparr>xb_addr = the (bd_address b), xb_port = the (bd_port b),
      xb_weight = (case bd_weight b of None \<Rightarrow> 1 | Some w \<Rightarrow> if w \<le> 0 then 1 else w)\<rparr>"

text \<open>Called for services with a VIP and a port.\<close>

definition entry_for :: "string \<Rightarrow> service_dict \<Rightarrow> string \<Rightarrow> string \<Rightarrow> string \<Rightarrow> entry" where
  "entry_for network_id svc proto nonce_path nonce =
     \<lparr>en_net_id = network_id, en_service_id = sd_id svc, en_nonce = nonce, en_nonce_path = nonce_path,
      en_vip = the (sd_local_ipv4 svc), en_port = the (sd_port svc), en_proto = proto,
      en_backends = map entry_backend (filter (\<lambda>b. truthy_str (bd_address b) \<and> truthy_int (bd_port b)) (live_backends svc)),
      en_health_check = hc_for_service svc,
      en_lb_algo = (case PROXY_LB_ALGO (the (or_str (sd_distribution_policy svc) (Some DIST_ROUND_ROBIN))) of None \<Rightarrow> ''wrr'' | Some a \<Rightarrow> a),
      en_max_concurrent = 1000, en_max_session_idle_s = 60\<rparr>"

definition service_entries :: "string \<Rightarrow> string \<Rightarrow> string \<Rightarrow> service_dict \<Rightarrow> entry list" where
  "service_entries network_id nonce_path nonce svc =
     (if \<not> get_enabled (sd_enabled svc) then []
      else if \<not> truthy_str (sd_local_ipv4 svc) \<or> \<not> truthy_int (sd_port svc) then []
      else if live_backends svc = [] then []
      else map (\<lambda>proto. entry_for network_id svc proto nonce_path nonce) (proxy_protocols svc))"

section \<open>The machine and the module's state\<close>

text \<open>
  \<open>px_write\<close> opens with \<^verbatim>\<open>O_CREAT|O_TRUNC\<close> and calls \<^verbatim>\<open>os.write\<close> once; its result is the number of bytes written, which the
  code does not look at. \<open>px_create_excl\<close> opens with \<^verbatim>\<open>O_CREAT|O_EXCL\<close> and writes; \<open>px_secret\<close> is \<^verbatim>\<open>secrets\<close>; \<open>px_control\<close> is one
  request to the worker, with the descriptor of the namespace attached for \<^verbatim>\<open>add_netns\<close>: \<open>Some msg\<close> is
  an answer other than ok with its message. \<open>px_hmac\<close> is the HMAC-SHA256 digest of a
  payload under a key.
\<close>

record 'w px_os =
  px_makedirs :: "string \<Rightarrow> ('w, unit) act"
  px_isfile :: "'w \<Rightarrow> string \<Rightarrow> bool"
  px_read :: "string \<Rightarrow> ('w, string) act"
  px_write :: "string \<Rightarrow> string \<Rightarrow> ('w, nat) act"
  px_create_excl :: "string \<Rightarrow> string \<Rightarrow> ('w, unit) act"
  px_replace :: "string \<Rightarrow> string \<Rightarrow> ('w, unit) act"
  px_remove :: "string \<Rightarrow> ('w, unit) act"
  px_secret :: "('w, string) act"
  px_open_netns :: "string \<Rightarrow> ('w, unit) act"
  px_control :: "string \<Rightarrow> string \<Rightarrow> ('w, string option) act"
  px_hmac :: "string \<Rightarrow> string \<Rightarrow> string"

text \<open>The globals of the module.\<close>

record 'w proxy =
  pw_generation :: "int option"
  pw_slices :: "(string \<times> entry list) list"
  pw_registered :: "string list"
  pw_boot_id :: "string option"
  pw_world :: 'w

definition on_w :: "('w, 'a) act \<Rightarrow> ('w proxy, 'a) act" where
  "on_w m s = (case m (pw_world s) of (r, w) \<Rightarrow> (r, s\<lparr>pw_world := w\<rparr>))"

definition PROXY_STATE_DIR :: string where "PROXY_STATE_DIR = ''/var/lib/neutron-local-services/_proxy''"
definition CATALOG_PATH :: string where "CATALOG_PATH = path_join PROXY_STATE_DIR ''catalog.json''"
definition HMAC_KEY_PATH :: string where "HMAC_KEY_PATH = path_join PROXY_STATE_DIR ''hmac.key''"
definition NONCE_DIR :: string where "NONCE_DIR = path_join PROXY_STATE_DIR ''nonces''"
definition BOOT_ID_PATH :: string where "BOOT_ID_PATH = ''/var/run/neutron-local-services/_proxy/worker.boot''"

section \<open>Operations\<close>

text \<open>The JSON of a catalog, its keys in the order \<^verbatim>\<open>sort_keys\<close> gives.\<close>

definition backend_json :: "proxy_backend \<Rightarrow> json" where
  "backend_json b = JObj [(''addr'', JStr (xb_addr b)), (''port'', JInt (xb_port b)), (''weight'', JInt (xb_weight b))]"

fun check_json :: "proxy_check \<Rightarrow> json" where
  "check_json ProbeNone = JObj [(''type'', JStr ''none'')]"
| "check_json ProbeTcpConnect = JObj [(''type'', JStr ''tcp_connect'')]"
| "check_json (ProbeHttpGet p) = JObj [(''path'', JStr p), (''type'', JStr ''http_get'')]"
| "check_json (ProbeHttpsGet p) = JObj [(''path'', JStr p), (''type'', JStr ''https_get'')]"
| "check_json ProbeUdpDns = JObj [(''type'', JStr ''udp_dns_query'')]"
| "check_json ProbeUdpNtp = JObj [(''type'', JStr ''udp_ntp_query'')]"

definition entry_json :: "entry \<Rightarrow> json" where
  "entry_json e =
     JObj [(''backends'', JArr (map backend_json (en_backends e))), (''health_check'', check_json (en_health_check e)),
       (''lb_algo'', JStr (en_lb_algo e)), (''max_concurrent'', JInt (en_max_concurrent e)),
       (''max_session_idle_s'', JInt (en_max_session_idle_s e)), (''net_id'', JStr (en_net_id e)),
       (''nonce'', JStr (en_nonce e)), (''nonce_path'', JStr (en_nonce_path e)), (''port'', JInt (en_port e)),
       (''proto'', JStr (en_proto e)), (''service_id'', case en_service_id e of None \<Rightarrow> JNull | Some i \<Rightarrow> JStr i),
       (''vip'', JStr (en_vip e))]"

definition catalog_json :: "catalog \<Rightarrow> json" where
  "catalog_json c =
     JObj [(''entries'', JArr (map entry_json (cat_entries c))), (''generation'', JInt (cat_generation c)),
       (''version'', JInt (cat_version c))]"

text \<open>The catalog file: the hex digest of the payload, a newline, the payload.\<close>

definition NEWLINE :: char where "NEWLINE = CHR 10"

definition hexdigest :: "string \<Rightarrow> string" where
  "hexdigest bytes = concat (map (\<lambda>b. [hex_digit (of_char b div 16), hex_digit (of_char b)]) bytes)"

definition px_body :: "'w px_os \<Rightarrow> string \<Rightarrow> catalog \<Rightarrow> string" where
  "px_body px key payload =
     (let payload_bytes = dumps (catalog_json payload)
      in hexdigest (px_hmac px key payload_bytes) @ [NEWLINE] @ payload_bytes)"

text \<open>\<^verbatim>\<open>int(payload.get('generation', 0))\<close> of the payload of a catalog file.\<close>

fun json_int :: "json \<Rightarrow> exc + int" where
  "json_int (JInt n) = Inr n"
| "json_int (JBool b) = Inr (if b then 1 else 0)"
| "json_int (JStr s) = (case py_int s of None \<Rightarrow> Inl ValueError | Some n \<Rightarrow> Inr n)"
| "json_int _ = Inl (Foreign ''TypeError'')"

definition generation_of :: "string \<Rightarrow> exc + int" where
  "generation_of data =
     (case split1_snd data [NEWLINE] of
        None \<Rightarrow> Inl ValueError
      | Some payload \<Rightarrow>
          (case loads payload of
             None \<Rightarrow> Inl ValueError
           | Some (JObj kvs) \<Rightarrow> (case obj_get kvs ''generation'' of None \<Rightarrow> Inr 0 | Some v \<Rightarrow> json_int v)
           | Some _ \<Rightarrow> Inl AttributeError))"

definition seed_generation_from_disk :: "'w px_os \<Rightarrow> ('w, int) act" where
  "seed_generation_from_disk px =
     attempt (bnd (px_read px CATALOG_PATH) (\<lambda>data. case generation_of data of Inl e \<Rightarrow> raise e | Inr g \<Rightarrow> ret g))
       (\<lambda>e. if is_oserror e \<or> e = ValueError then ret 0 else raise e)"

definition next_generation :: "'w px_os \<Rightarrow> ('w proxy, int) act" where
  "next_generation px =
     andthen
       (bnd (gets pw_generation) (\<lambda>g.
          if g = None then bnd (on_w (seed_generation_from_disk px)) (\<lambda>n. modify (\<lambda>s. s\<lparr>pw_generation := Some n\<rparr>)) else ret ()))
       (andthen (modify (\<lambda>s. s\<lparr>pw_generation := map_option (\<lambda>n. n + 1) (pw_generation s)\<rparr>))
          (gets (\<lambda>s. the (pw_generation s))))"

definition read_or_create_hmac_key :: "'w px_os \<Rightarrow> ('w, string) act" where
  "read_or_create_hmac_key px =
     bnd (gets (\<lambda>w. px_isfile px w HMAC_KEY_PATH)) (\<lambda>there.
       if there then px_read px HMAC_KEY_PATH
       else
         andthen (px_makedirs px PROXY_STATE_DIR)
         (bnd (px_secret px) (\<lambda>key. andthen (px_create_excl px HMAC_KEY_PATH key) (ret key))))"

definition ensure_nonce :: "'w px_os \<Rightarrow> string \<Rightarrow> ('w, string \<times> string) act" where
  "ensure_nonce px network_id =
     andthen (px_makedirs px NONCE_DIR)
     (let path = path_join NONCE_DIR network_id
      in bnd (gets (\<lambda>w. px_isfile px w path)) (\<lambda>there.
           if there then bnd (px_read px path) (\<lambda>s. ret (path, strip s))
           else
             bnd (px_secret px) (\<lambda>nonce.
               andthen (px_create_excl px (path @ ''.tmp'') nonce)
                 (andthen (px_replace px (path @ ''.tmp'') path) (ret (path, nonce))))))"

definition drop_nonce :: "'w px_os \<Rightarrow> string \<Rightarrow> ('w, unit) act" where
  "drop_nonce px network_id =
     attempt (px_remove px (path_join NONCE_DIR network_id)) (\<lambda>e. if e = OSError ''ENOENT'' then ret () else raise e)"

definition write_catalog_atomic :: "'w px_os \<Rightarrow> entry list \<Rightarrow> ('w proxy, unit) act" where
  "write_catalog_atomic px entries =
     bnd (on_w (read_or_create_hmac_key px)) (\<lambda>key.
     bnd (next_generation px) (\<lambda>g.
       let body = px_body px key \<lparr>cat_version = 1, cat_generation = g, cat_entries = entries\<rparr>
       in on_w (andthen (px_makedirs px PROXY_STATE_DIR)
            (bnd (px_write px (CATALOG_PATH @ ''.tmp'') body) (\<lambda>_. px_replace px (CATALOG_PATH @ ''.tmp'') CATALOG_PATH)))))"

definition put_slice :: "string \<Rightarrow> entry list \<Rightarrow> (string \<times> entry list) list \<Rightarrow> (string \<times> entry list) list" where
  "put_slice network_id entries slices =
     (if entries \<noteq> [] then dict_set slices network_id entries else filter (\<lambda>(k, _). k \<noteq> network_id) slices)"

definition set_slice :: "string \<Rightarrow> entry list \<Rightarrow> ('w proxy, unit) act" where
  "set_slice network_id entries = modify (\<lambda>s. s\<lparr>pw_slices := put_slice network_id entries (pw_slices s)\<rparr>)"

definition union_of :: "(string \<times> entry list) list \<Rightarrow> entry list" where
  "union_of slices = concat (map snd slices)"

definition all_entries_snapshot :: "'w proxy \<Rightarrow> entry list" where
  "all_entries_snapshot s = union_of (pw_slices s)"

definition read_worker_boot_id :: "'w px_os \<Rightarrow> ('w, string option) act" where
  "read_worker_boot_id px =
     attempt (bnd (px_read px BOOT_ID_PATH) (\<lambda>s. ret (if strip s = [] then None else Some (strip s))))
       (\<lambda>e. if is_oserror e \<or> e = ValueError then ret None else raise e)"

definition check_worker_restart_locked :: "'w px_os \<Rightarrow> ('w proxy, unit) act" where
  "check_worker_restart_locked px =
     bnd (on_w (read_worker_boot_id px)) (\<lambda>cur.
       case cur of
         None \<Rightarrow> ret ()
       | Some b \<Rightarrow> modify (\<lambda>s. if pw_boot_id s \<noteq> Some b then s\<lparr>pw_registered := [], pw_boot_id := Some b\<rparr> else s))"

definition note_registered :: "string \<Rightarrow> ('w proxy, unit) act" where
  "note_registered network_id = modify (\<lambda>s. s\<lparr>pw_registered := network_id # pw_registered s\<rparr>)"

definition ensure_registered :: "'w px_os \<Rightarrow> string \<Rightarrow> ('w proxy, unit) act" where
  "ensure_registered px network_id =
     andthen (check_worker_restart_locked px)
     (bnd (gets (\<lambda>s. network_id \<in> set (pw_registered s))) (\<lambda>known.
        if known then ret ()
        else
          andthen (on_w (px_open_netns px (''/run/netns/'' @ NETNS_PREFIX @ network_id)))
          (bnd (on_w (px_control px ''add_netns'' network_id)) (\<lambda>resp.
             case resp of
               None \<Rightarrow> note_registered network_id
             | Some msg \<Rightarrow>
                 if contains msg ''already registered'' then note_registered network_id
                 else raise (Foreign ''RuntimeError'')))))"

definition ensure_deregistered :: "'w px_os \<Rightarrow> string \<Rightarrow> ('w proxy, unit) act" where
  "ensure_deregistered px network_id =
     bnd (attempt (bnd (on_w (px_control px ''remove_netns'' network_id)) (\<lambda>_. ret True))
            (\<lambda>e. if e = OSError ''ENOENT'' \<or> e = OSError ''ECONNREFUSED'' then ret False else raise e)) (\<lambda>answered.
       if \<not> answered then ret ()
       else modify (\<lambda>s. s\<lparr>pw_registered := filter (\<lambda>k. k \<noteq> network_id) (pw_registered s)\<rparr>))"

definition proxy_apply_locked :: "'w px_os \<Rightarrow> string \<Rightarrow> service_dict list \<Rightarrow> ('w proxy, unit) act" where
  "proxy_apply_locked px network_id services =
     bnd (on_w (ensure_nonce px network_id)) (\<lambda>(nonce_path, nonce).
       let entries = concat (map (service_entries network_id nonce_path nonce) services)
       in andthen (set_slice network_id entries)
         (bnd (gets all_entries_snapshot) (\<lambda>snapshot.
          andthen (write_catalog_atomic px snapshot)
            (doif (entries \<noteq> []) (swallow (ensure_registered px network_id))))))"

definition proxy_apply_config :: "'w px_os \<Rightarrow> string \<Rightarrow> service_dict list \<Rightarrow> ('w proxy, unit) act" where
  "proxy_apply_config px ns_name services =
     (if \<not> startswith ns_name NETNS_PREFIX then ret ()
      else proxy_apply_locked px (drop (length NETNS_PREFIX) ns_name) services)"

definition proxy_teardown :: "'w px_os \<Rightarrow> string \<Rightarrow> ('w proxy, unit) act" where
  "proxy_teardown px ns_name =
     (if \<not> startswith ns_name NETNS_PREFIX then ret ()
      else
        (let network_id = drop (length NETNS_PREFIX) ns_name
         in andthen (set_slice network_id [])
            (bnd (gets all_entries_snapshot) (\<lambda>snapshot.
             andthen (attempt (write_catalog_atomic px snapshot) (\<lambda>e. if is_oserror e then ret () else raise e))
             (andthen (ensure_deregistered px network_id) (on_w (drop_nonce px network_id)))))))"

section \<open>Lemmas\<close>

text \<open>
  What the code relies on of the machine: a replace that returns has moved the file, a write has written as many bytes as it
  says, no call touches another file than its own. And, because the code does not look at the number of bytes, that
  a write which returns has written them all (\<open>full_writes\<close>), which POSIX has for regular files unless the
  disk is full, a limit is reached or a signal arrives; a short write would be moved in place like a full one.
\<close>

definition full_writes :: "'w px_os \<Rightarrow> bool" where
  "full_writes px \<longleftrightarrow> (\<forall>p s w k w'. px_write px p s w = (Inr k, w') \<longrightarrow> k = length s)"

definition px_ok :: "'w px_os \<Rightarrow> ('w \<Rightarrow> string \<Rightarrow> string option) \<Rightarrow> bool" where
  "px_ok px files \<longleftrightarrow>
     (\<forall>p w. px_read px p w = (case files w p of Some s \<Rightarrow> (Inr s, w) | None \<Rightarrow> (Inl (OSError ''ENOENT''), w)))
     \<and> (\<forall>p s w k w'. px_write px p s w = (Inr k, w') \<longrightarrow> files w' = (files w)(p \<mapsto> take k s)) \<and> full_writes px
     \<and> (\<forall>a b w w'. px_replace px a b w = (Inr (), w') \<longrightarrow> files w' = (files w)(a := None, b := files w a))
     \<and> (\<forall>q p. keeps (\<lambda>w. files w q) (px_makedirs px p))
     \<and> (\<forall>q. keeps (\<lambda>w. files w q) (px_secret px))
     \<and> (\<forall>q p s. p \<noteq> q \<longrightarrow> keeps (\<lambda>w. files w q) (px_create_excl px p s))
     \<and> (\<forall>q a b. a \<noteq> q \<longrightarrow> b \<noteq> q \<longrightarrow> keeps (\<lambda>w. files w q) (px_replace px a b))
     \<and> (\<forall>q p. keeps (\<lambda>w. files w q) (px_open_netns px p))
     \<and> (\<forall>q r n. keeps (\<lambda>w. files w q) (px_control px r n))
     \<and> (\<forall>w p. px_isfile px w p \<longleftrightarrow> files w p \<noteq> None)
     \<and> (\<forall>q p. p \<noteq> q \<longrightarrow> keeps (\<lambda>w. files w q) (px_remove px p))
     \<and> (\<forall>q p s. p \<noteq> q \<longrightarrow> keeps (\<lambda>w. files w q) (px_write px p s))"

lemma hexdigest_no_newline: "NEWLINE \<notin> set (hexdigest bytes)"
proof -
  have "list_all (\<lambda>m. HEX ! m \<noteq> NEWLINE) [0..<16]" by code_simp
  moreover have "n mod 16 \<in> set [0..<16]" for n by simp
  ultimately have "hex_digit n \<noteq> NEWLINE" for n unfolding hex_digit_def list_all_iff by blast
  then show ?thesis unfolding hexdigest_def by (auto dest: sym)
qed

lemma split_body: "find_sub [NEWLINE] (px_body px key c) = Some (hexdigest (px_hmac px key (dumps (catalog_json c))), dumps (catalog_json c))"
  by (simp add: px_body_def Let_def find_sub_char hexdigest_no_newline)

lemma generation_of_body [simp]: "generation_of (px_body px key c) = Inr (cat_generation c)"
proof -
  have "generation_of (px_body px key c) = (case catalog_json c of JObj kvs \<Rightarrow>
      (case obj_get kvs ''generation'' of None \<Rightarrow> Inr 0 | Some v \<Rightarrow> json_int v) | _ \<Rightarrow> Inl AttributeError)"
    by (simp add: generation_of_def split1_snd_def split_body loads_dumps)
  then show ?thesis by (simp add: catalog_json_def obj_get_def)
qed

lemma px_write_done:
  assumes "px_ok px files" "px_write px p s w = (Inr k, w')"
  shows "files w' = (files w)(p \<mapsto> s)"
proof -
  have written: "\<forall>p s w k w'. px_write px p s w = (Inr k, w') \<longrightarrow> files w' = (files w)(p \<mapsto> take k s)"
    using assms(1) unfolding px_ok_def by (elim conjE)
  have full: "full_writes px" using assms(1) unfolding px_ok_def by (elim conjE)
  have "k = length s" by (rule full[unfolded full_writes_def, rule_format, OF assms(2)])
  with written[rule_format, OF assms(2)] show ?thesis by simp
qed

lemma px_okD:
  assumes "px_ok px files"
  shows "px_read px p w = (case files w p of Some s \<Rightarrow> (Inr s, w) | None \<Rightarrow> (Inl (OSError ''ENOENT''), w))"
    "px_write px p s w = (Inr k, w') \<Longrightarrow> files w' = (files w)(p \<mapsto> s)"
    "px_replace px a b w = (Inr (), w') \<Longrightarrow> files w' = (files w)(a := None, b := files w a)"
    "keeps (\<lambda>w. files w q) (px_makedirs px p)" "keeps (\<lambda>w. files w q) (px_secret px)"
    "p \<noteq> q \<Longrightarrow> keeps (\<lambda>w. files w q) (px_create_excl px p s)"
    "a \<noteq> q \<Longrightarrow> b \<noteq> q \<Longrightarrow> keeps (\<lambda>w. files w q) (px_replace px a b)"
    "keeps (\<lambda>w. files w q) (px_open_netns px p)" "keeps (\<lambda>w. files w q) (px_control px r n)"
    "keeps (\<lambda>w. files w q) (px_read px p)"
    "px_isfile px w p \<longleftrightarrow> files w p \<noteq> None"
    "p \<noteq> q \<Longrightarrow> keeps (\<lambda>w. files w q) (px_remove px p)"
    "p \<noteq> q \<Longrightarrow> keeps (\<lambda>w. files w q) (px_write px p s)"
  using assms px_write_done[OF assms] unfolding px_ok_def keeps_def by (simp_all split: option.split)

lemma put_slice_lookup:
  "map_of (put_slice n es slices) = (map_of slices)(n := if es = [] then None else Some es)"
proof
  fix k
  show "map_of (put_slice n es slices) k = ((map_of slices)(n := if es = [] then None else Some es)) k"
    by (cases "es = []") (auto simp: put_slice_def map_of_dict_set map_of_filter_key)
qed

lemma on_w_frame: "keeps v (on_w m)" if "\<And>s w. v (s\<lparr>pw_world := w\<rparr>) = v s"
  using that by (simp add: keeps_def on_w_def split: prod.split)

lemma on_w_keeps: "keeps v m \<Longrightarrow> keeps (\<lambda>s. v (pw_world s)) (on_w m)"
  by (simp add: keeps_def on_w_def split: prod.split) (metis snd_conv)

lemma catalog_other_paths: "HMAC_KEY_PATH \<noteq> CATALOG_PATH" "CATALOG_PATH @ ''.tmp'' \<noteq> CATALOG_PATH"
  "CATALOG_PATH @ ''.tmp'' \<noteq> HMAC_KEY_PATH" "CATALOG_PATH \<noteq> HMAC_KEY_PATH"
  by (simp_all add: HMAC_KEY_PATH_def CATALOG_PATH_def path_join_def startswith_def)

text \<open>The generation a write takes: one more than the last one, or than the one on disk for a fresh module.\<close>

definition last_generation :: "('w \<Rightarrow> string \<Rightarrow> string option) \<Rightarrow> 'w proxy \<Rightarrow> int" where
  "last_generation files s =
     (case pw_generation s of
        Some g \<Rightarrow> g
      | None \<Rightarrow> (case files (pw_world s) CATALOG_PATH of
                  None \<Rightarrow> 0
                | Some data \<Rightarrow> (case generation_of data of Inl _ \<Rightarrow> 0 | Inr g \<Rightarrow> g)))"

lemma next_generation_run:
  assumes ok: "px_ok px files" and run: "next_generation px s = (Inr g, s')"
  shows "g = last_generation files s + 1 \<and> s' = s\<lparr>pw_generation := Some (last_generation files s + 1)\<rparr>"
proof (cases "pw_generation s")
  case None
  obtain w where w: "seed_generation_from_disk px (pw_world s) = (Inr (last_generation files s), w)"
    "w = pw_world s"
    using run None
    by (auto simp: next_generation_def on_w_def andthen_def bnd_def seed_generation_from_disk_def px_okD(1)[OF ok] last_generation_def attempt_def
        is_oserror_def split: option.splits sum.splits if_splits)
  then show ?thesis using None run by (auto simp: next_generation_def on_w_def andthen_def bnd_def)
next
  case (Some h)
  then show ?thesis using run by (auto simp: next_generation_def last_generation_def andthen_def bnd_def)
qed

lemma hmac_key_frame:
  assumes ok: "px_ok px files"
  shows "keeps (\<lambda>w. files w CATALOG_PATH) (read_or_create_hmac_key px)"
  unfolding read_or_create_hmac_key_def
  by (intro keeps_intros px_okD(4,5,10)[OF ok] px_okD(6)[OF ok catalog_other_paths(1)])

lemma hmac_key_run:
  assumes ok: "px_ok px files" and there: "files w HMAC_KEY_PATH = Some k"
  shows "read_or_create_hmac_key px w = (Inr k, w)"
  by (simp add: read_or_create_hmac_key_def bnd_def px_okD(1,11)[OF ok] there)

lemma write_catalog_run:
  assumes ok: "px_ok px files" and run: "write_catalog_atomic px es s = (Inr (), s')"
  obtains key where "\<And>k. files (pw_world s) HMAC_KEY_PATH = Some k \<Longrightarrow> key = k \<and> files (pw_world s') HMAC_KEY_PATH = Some k" and "files (pw_world s') CATALOG_PATH =
      Some (px_body px key \<lparr>cat_version = 1, cat_generation = last_generation files s + 1, cat_entries = es\<rparr>)"
    "pw_generation s' = Some (last_generation files s + 1)" "pw_slices s' = pw_slices s" "pw_registered s' = pw_registered s"
proof -
  from run obtain key s1 where key: "on_w (read_or_create_hmac_key px) s = (Inr key, s1)"
    and rest: "bnd (next_generation px) (\<lambda>g.
       let body = px_body px key \<lparr>cat_version = 1, cat_generation = g, cat_entries = es\<rparr>
       in on_w (andthen (px_makedirs px PROXY_STATE_DIR)
            (bnd (px_write px (CATALOG_PATH @ ''.tmp'') body) (\<lambda>_. px_replace px (CATALOG_PATH @ ''.tmp'') CATALOG_PATH)))) s1 = (Inr (), s')"
    unfolding write_catalog_atomic_def by (rule bnd_cases) simp_all
  have s1: "files (pw_world s1) CATALOG_PATH = files (pw_world s) CATALOG_PATH" "pw_generation s1 = pw_generation s"
      "pw_slices s1 = pw_slices s" "pw_registered s1 = pw_registered s"
    using keepsD[OF on_w_keeps[OF hmac_key_frame[OF ok]] key] key by (auto simp: on_w_def split: prod.splits)
  have g: "last_generation files s1 = last_generation files s"
    by (cases "pw_generation s") (simp_all add: last_generation_def s1(1,2))
  let ?body = "px_body px key \<lparr>cat_version = 1, cat_generation = last_generation files s + 1, cat_entries = es\<rparr>"
  let ?s2 = "s1\<lparr>pw_generation := Some (last_generation files s + 1)\<rparr>"
  have "on_w (andthen (px_makedirs px PROXY_STATE_DIR) (bnd (px_write px (CATALOG_PATH @ ''.tmp'') ?body)
      (\<lambda>_. px_replace px (CATALOG_PATH @ ''.tmp'') CATALOG_PATH))) ?s2 = (Inr (), s')"
  proof (rule bnd_cases[OF rest])
    fix gen t
    assume gen: "next_generation px s1 = (Inr gen, t)"
      and cont: "(let body = px_body px key \<lparr>cat_version = 1, cat_generation = gen, cat_entries = es\<rparr>
        in on_w (andthen (px_makedirs px PROXY_STATE_DIR)
            (bnd (px_write px (CATALOG_PATH @ ''.tmp'') body) (\<lambda>_. px_replace px (CATALOG_PATH @ ''.tmp'') CATALOG_PATH)))) t = (Inr (), s')"
    from next_generation_run[OF ok gen] have "gen = last_generation files s + 1" "t = ?s2" by (simp_all add: g)
    with cont show ?thesis by (simp only: Let_def)
  qed simp
  then obtain w' where w': "andthen (px_makedirs px PROXY_STATE_DIR) (bnd (px_write px (CATALOG_PATH @ ''.tmp'') ?body)
      (\<lambda>_. px_replace px (CATALOG_PATH @ ''.tmp'') CATALOG_PATH)) (pw_world s1) = (Inr (), w')" "s' = ?s2\<lparr>pw_world := w'\<rparr>"
    by (auto simp: on_w_def split: prod.splits)
  from w'(1) obtain k w1 w2 where "px_write px (CATALOG_PATH @ ''.tmp'') ?body w1 = (Inr k, w2)"
      "px_replace px (CATALOG_PATH @ ''.tmp'') CATALOG_PATH w2 = (Inr (), w')"
    by (elim andthen_cases bnd_cases) simp_all
  then have "files w' CATALOG_PATH = Some ?body"
    using px_okD(2,3)[OF ok] catalog_other_paths(2) by simp
  then have "files (pw_world s') CATALOG_PATH = Some ?body" "pw_generation s' = Some (last_generation files s + 1)"
      "pw_slices s' = pw_slices s" "pw_registered s' = pw_registered s"
    by (simp_all add: w'(2) s1(3,4))
  moreover have "key = k \<and> files (pw_world s') HMAC_KEY_PATH = Some k" if k: "files (pw_world s) HMAC_KEY_PATH = Some k" for k
  proof -
    have s1': "s1 = s" "key = k" using key by (simp_all add: on_w_def hmac_key_run[OF ok k])
    have "keeps (\<lambda>w. files w HMAC_KEY_PATH) (andthen (px_makedirs px PROXY_STATE_DIR) (bnd (px_write px (CATALOG_PATH @ ''.tmp'') ?body)
      (\<lambda>_. px_replace px (CATALOG_PATH @ ''.tmp'') CATALOG_PATH)))"
      by (intro keeps_intros px_okD(4)[OF ok] px_okD(13)[OF ok catalog_other_paths(3)] px_okD(7)[OF ok catalog_other_paths(3,4)])
    from keepsD[OF this w'(1)] show ?thesis using k s1' by (simp add: w'(2))
  qed
  ultimately show ?thesis by (intro that)
qed

lemma ensure_nonce_frame:
  assumes ok: "px_ok px files" and n: "\<not> startswith n ''/''" and q: "q = CATALOG_PATH \<or> q = HMAC_KEY_PATH"
  shows "keeps (\<lambda>w. files w q) (ensure_nonce px n)"
proof -
  have p: "path_join NONCE_DIR n \<noteq> q" "path_join NONCE_DIR n @ ''.tmp'' \<noteq> q"
    using n q by (auto simp: NONCE_DIR_def CATALOG_PATH_def HMAC_KEY_PATH_def path_join_def startswith_def)
  show ?thesis
    unfolding ensure_nonce_def Let_def
    by (intro keeps_intros px_okD(4,5,10)[OF ok] px_okD(6)[OF ok p(2)] px_okD(7)[OF ok p(2) p(1)])
qed

lemma registration_keeps:
  assumes ok: "px_ok px files"
  shows "keeps (\<lambda>s. (files (pw_world s) q, pw_slices s, pw_generation s)) (ensure_registered px n)"
proof -
  let ?v = "\<lambda>s. (files (pw_world s) q, pw_slices s, pw_generation s)"
  have wu: "keeps ?v (on_w m)" if m: "keeps (\<lambda>w. files w q) m" for m :: "('a, unit) act"
    using m by (auto simp: keeps_def on_w_def split: prod.split) (metis snd_conv)
  have ws: "keeps ?v (on_w m)" if m: "keeps (\<lambda>w. files w q) m" for m :: "('a, string option) act"
    using m by (auto simp: keeps_def on_w_def split: prod.split) (metis snd_conv)
  have boot: "keeps (\<lambda>w. files w q) (read_worker_boot_id px)"
    unfolding read_worker_boot_id_def by (intro keeps_intros px_okD(10)[OF ok])
  have note_: "keeps ?v (note_registered n)" by (simp add: note_registered_def keeps_def)
  have restart: "keeps ?v (case cur of None \<Rightarrow> ret () | Some b \<Rightarrow>
      modify (\<lambda>s. if pw_boot_id s \<noteq> Some b then s\<lparr>pw_registered := [], pw_boot_id := Some b\<rparr> else s))" for cur
    by (cases cur) (simp_all add: keeps_def)
  have answer: "keeps ?v (case resp of None \<Rightarrow> note_registered n | Some msg \<Rightarrow>
      if contains msg ''already registered'' then note_registered n else raise (Foreign ''RuntimeError''))" for resp
    by (cases resp) (simp_all add: note_ keeps_basic)
  show ?thesis
    unfolding ensure_registered_def check_worker_restart_locked_def
    by (intro keeps_intros restart answer ws[OF boot] wu[OF px_okD(8)[OF ok]] ws[OF px_okD(9)[OF ok]])
qed

lemma last_generation_cong:
  "pw_generation s = pw_generation t \<Longrightarrow> files (pw_world s) CATALOG_PATH = files (pw_world t) CATALOG_PATH \<Longrightarrow>
     last_generation files s = last_generation files t"
  by (cases "pw_generation t") (simp_all add: last_generation_def)

lemma apply_run:
  assumes ok: "px_ok px files" and n: "\<not> startswith n ''/''" and run: "proxy_apply_locked px n services s = (Inr (), s')"
  obtains path nonce key entries where "entries = concat (map (service_entries n path nonce) services)"
    "\<And>k. files (pw_world s) HMAC_KEY_PATH = Some k \<Longrightarrow> key = k \<and> files (pw_world s') HMAC_KEY_PATH = Some k"
    "pw_slices s' = put_slice n entries (pw_slices s)"
    "files (pw_world s') CATALOG_PATH =
      Some (px_body px key \<lparr>cat_version = 1, cat_generation = last_generation files s + 1, cat_entries = union_of (pw_slices s')\<rparr>)"
    "pw_generation s' = Some (last_generation files s + 1)"
proof -
  from run obtain path nonce s1 where nonce: "on_w (ensure_nonce px n) s = (Inr (path, nonce), s1)"
    and rest: "(let entries = concat (map (service_entries n path nonce) services)
       in andthen (set_slice n entries)
         (bnd (gets all_entries_snapshot) (\<lambda>snapshot.
          andthen (write_catalog_atomic px snapshot)
            (doif (entries \<noteq> []) (swallow (ensure_registered px n)))))) s1 = (Inr (), s')"
    unfolding proxy_apply_locked_def by (rule bnd_cases) (auto split: prod.splits)
  have s1: "files (pw_world s1) CATALOG_PATH = files (pw_world s) CATALOG_PATH" "pw_generation s1 = pw_generation s" "pw_slices s1 = pw_slices s"
    "files (pw_world s1) HMAC_KEY_PATH = files (pw_world s) HMAC_KEY_PATH"
    using keepsD[OF on_w_keeps[OF ensure_nonce_frame[OF ok n]] nonce] nonce by (auto simp: on_w_def split: prod.splits)
  let ?es = "concat (map (service_entries n path nonce) services)"
  let ?s2 = "s1\<lparr>pw_slices := put_slice n ?es (pw_slices s)\<rparr>"
  have "andthen (write_catalog_atomic px (union_of (pw_slices ?s2))) (doif (?es \<noteq> []) (swallow (ensure_registered px n))) ?s2 = (Inr (), s')"
    using rest by (simp add: set_slice_def all_entries_snapshot_def Let_def s1(3) bnd_def andthen_def)
  then obtain s3 where s3: "write_catalog_atomic px (union_of (pw_slices ?s2)) ?s2 = (Inr (), s3)"
      "doif (?es \<noteq> []) (swallow (ensure_registered px n)) s3 = (Inr (), s')"
    by (rule andthen_cases) simp_all
  obtain key where hmac: "\<And>k. files (pw_world ?s2) HMAC_KEY_PATH = Some k \<Longrightarrow> key = k \<and> files (pw_world s3) HMAC_KEY_PATH = Some k"
    and key: "files (pw_world s3) CATALOG_PATH =
      Some (px_body px key \<lparr>cat_version = 1, cat_generation = last_generation files ?s2 + 1, cat_entries = union_of (pw_slices ?s2)\<rparr>)"
    "pw_generation s3 = Some (last_generation files ?s2 + 1)" "pw_slices s3 = pw_slices ?s2"
    by (rule write_catalog_run[OF ok s3(1)]) blast
  have g: "last_generation files ?s2 = last_generation files s"
    by (rule last_generation_cong) (simp_all add: s1)
  have same: "(files (pw_world s') q, pw_slices s', pw_generation s') = (files (pw_world s3) q, pw_slices s3, pw_generation s3)" for q
    by (rule keepsD[OF keeps_doif[OF keeps_swallow[OF registration_keeps[OF ok]]] s3(2)])
  show ?thesis by (rule that[of ?es path nonce key]) (use key g hmac same s1(4) in simp_all)
qed

text \<open>A pass touches no other file than the catalog, the key and the nonce of its network.\<close>

lemma apply_frame:
  assumes ok: "px_ok px files"
    and q: "q \<notin> {CATALOG_PATH, CATALOG_PATH @ ''.tmp'', HMAC_KEY_PATH, path_join NONCE_DIR n, path_join NONCE_DIR n @ ''.tmp''}"
  shows "keeps (\<lambda>s. files (pw_world s) q) (proxy_apply_locked px n services)"
proof -
  have q': "CATALOG_PATH \<noteq> q" "CATALOG_PATH @ ''.tmp'' \<noteq> q" "HMAC_KEY_PATH \<noteq> q" "path_join NONCE_DIR n \<noteq> q" "path_join NONCE_DIR n @ ''.tmp'' \<noteq> q"
    using q by auto
  have nonce: "keeps (\<lambda>w. files w q) (ensure_nonce px n)"
    unfolding ensure_nonce_def Let_def
    by (intro keeps_intros px_okD(4,5,10)[OF ok] px_okD(6)[OF ok q'(5)] px_okD(7)[OF ok q'(5) q'(4)])
  have key: "keeps (\<lambda>w. files w q) (read_or_create_hmac_key px)"
    unfolding read_or_create_hmac_key_def by (intro keeps_intros px_okD(4,5,10)[OF ok] px_okD(6)[OF ok q'(3)])
  have seed: "keeps (\<lambda>w. files w q) (case generation_of d of Inl e \<Rightarrow> raise e | Inr g \<Rightarrow> ret g)" for d
    by (cases "generation_of d") (simp_all add: keeps_basic)
  have upd: "keeps (\<lambda>s. files (pw_world s) q) (modify f)" if "\<And>s. pw_world (f s) = pw_world s" for f
    using that by (simp add: keeps_def)
  have gen: "keeps (\<lambda>s. files (pw_world s) q) (next_generation px)"
    unfolding next_generation_def seed_generation_from_disk_def
    by (intro keeps_intros on_w_keeps[of "\<lambda>w. files w q"] upd px_okD(10)[OF ok] seed) simp_all
  have pub: "keeps (\<lambda>w. files w q) (andthen (px_makedirs px PROXY_STATE_DIR) (bnd (px_write px (CATALOG_PATH @ ''.tmp'') b)
      (\<lambda>_. px_replace px (CATALOG_PATH @ ''.tmp'') CATALOG_PATH)))" for b
    by (intro keeps_intros px_okD(4)[OF ok] px_okD(13)[OF ok q'(2)] px_okD(7)[OF ok q'(2,1)])
  have wr: "keeps (\<lambda>s. files (pw_world s) q) (write_catalog_atomic px es)" for es
    unfolding write_catalog_atomic_def Let_def
    by (intro keeps_intros gen on_w_keeps[of "\<lambda>w. files w q"] key pub)
  have reg: "keeps (\<lambda>s. files (pw_world s) q) (ensure_registered px n)"
    using registration_keeps[OF ok, of q n] by (simp add: keeps_def)
  show ?thesis
    unfolding proxy_apply_locked_def Let_def set_slice_def case_prod_beta'
    by (intro keeps_intros on_w_keeps[of "\<lambda>w. files w q"] nonce upd wr reg) simp
qed

lemma entries_of_network: "e \<in> set (concat (map (service_entries n path nonce) services)) \<Longrightarrow> en_net_id e = n"
  by (auto simp: service_entries_def entry_for_def split: if_splits)

section \<open>A machine in memory\<close>

text \<open>The files of a machine as a map; its worker answers every request with ok.\<close>

definition mem_px :: "(string \<Rightarrow> string option) px_os" where
  "mem_px =
     \<lparr>px_makedirs = (\<lambda>p. ret ()),
      px_isfile = (\<lambda>w p. w p \<noteq> None),
      px_read = (\<lambda>p w. case w p of Some s \<Rightarrow> (Inr s, w) | None \<Rightarrow> (Inl (OSError ''ENOENT''), w)),
      px_write = (\<lambda>p s w. (Inr (length s), w(p \<mapsto> s))),
      px_create_excl = (\<lambda>p s w. if w p = None then (Inr (), w(p \<mapsto> s)) else (Inl (OSError ''EEXIST''), w)),
      px_replace = (\<lambda>a b w. case w a of Some s \<Rightarrow> (Inr (), w(a := None, b \<mapsto> s)) | None \<Rightarrow> (Inl (OSError ''ENOENT''), w)),
      px_remove = (\<lambda>p w. if w p = None then (Inl (OSError ''ENOENT''), w) else (Inr (), w(p := None))),
      px_secret = ret ''0123456789abcdef'',
      px_open_netns = (\<lambda>p. ret ()),
      px_control = (\<lambda>r n. ret None),
      px_hmac = (\<lambda>key p. take 32 (key @ p @ replicate 32 (CHR ''0'')))\<rparr>"

lemma mem_px_simps [simp]:
  "px_makedirs mem_px p = ret ()" "px_isfile mem_px w p \<longleftrightarrow> w p \<noteq> None"
  "px_read mem_px p w = (case w p of Some s \<Rightarrow> (Inr s, w) | None \<Rightarrow> (Inl (OSError ''ENOENT''), w))"
  "px_write mem_px p s w = (Inr (length s), w(p \<mapsto> s))"
  "px_create_excl mem_px p s w = (if w p = None then (Inr (), w(p \<mapsto> s)) else (Inl (OSError ''EEXIST''), w))"
  "px_replace mem_px a b w = (case w a of Some s \<Rightarrow> (Inr (), w(a := None, b \<mapsto> s)) | None \<Rightarrow> (Inl (OSError ''ENOENT''), w))"
  "px_secret mem_px = ret ''0123456789abcdef''" "px_open_netns mem_px p = ret ()" "px_control mem_px r n = ret None"
  by (simp_all add: mem_px_def)

lemma mem_px_ok: "px_ok mem_px (\<lambda>w. w)"
  unfolding px_ok_def full_writes_def keeps_def by (auto simp: mem_px_def ret_def split: option.splits if_splits)

lemma mem_write_returns:
  assumes "pw_generation s \<noteq> None \<or> pw_world s CATALOG_PATH = None \<or> (\<exists>key c. pw_world s CATALOG_PATH = Some (px_body mem_px key c))"
  shows "\<exists>s'. write_catalog_atomic mem_px es s = (Inr (), s')"
proof -
  obtain key w where key: "read_or_create_hmac_key mem_px (pw_world s) = (Inr key, w)" "w CATALOG_PATH = pw_world s CATALOG_PATH"
    using catalog_other_paths(1,4)
    by (cases "pw_world s HMAC_KEY_PATH") (auto simp: read_or_create_hmac_key_def bnd_def andthen_def)
  let ?s1 = "s\<lparr>pw_world := w\<rparr>"
  have "\<exists>g t. next_generation mem_px ?s1 = (Inr g, t)"
  proof (cases "pw_generation s")
    case None
    have "\<exists>g. seed_generation_from_disk mem_px w = (Inr g, w)"
      using assms None key(2) by (auto simp: seed_generation_from_disk_def attempt_def bnd_def is_oserror_def)
    then show ?thesis using None by (auto simp: next_generation_def on_w_def andthen_def bnd_def)
  qed (simp add: next_generation_def andthen_def bnd_def)
  then obtain g t where "next_generation mem_px ?s1 = (Inr g, t)" by blast
  then show ?thesis
    using key(1) catalog_other_paths(2) by (simp add: write_catalog_atomic_def bnd_def on_w_def Let_def andthen_def)
qed

lemma mem_apply_returns:
  assumes n: "\<not> startswith n ''/''" and tmp: "pw_world s (path_join NONCE_DIR n @ ''.tmp'') = None"
    and cat: "pw_generation s \<noteq> None \<or> pw_world s CATALOG_PATH = None \<or> (\<exists>key c. pw_world s CATALOG_PATH = Some (px_body mem_px key c))"
  obtains s' where "proxy_apply_locked mem_px n services s = (Inr (), s')"
proof -
  obtain path nonce w where w: "ensure_nonce mem_px n (pw_world s) = (Inr (path, nonce), w)"
    using tmp by (cases "pw_world s (path_join NONCE_DIR n)") (auto simp: ensure_nonce_def Let_def andthen_def bnd_def)
  have c: "w CATALOG_PATH = pw_world s CATALOG_PATH"
    by (rule keepsD[OF ensure_nonce_frame[OF mem_px_ok n] w]) simp
  let ?es = "concat (map (service_entries n path nonce) services)"
  let ?s1 = "s\<lparr>pw_world := w, pw_slices := put_slice n ?es (pw_slices s)\<rparr>"
  obtain s2 where s2: "write_catalog_atomic mem_px (all_entries_snapshot ?s1) ?s1 = (Inr (), s2)"
    using mem_write_returns[of ?s1] cat c by auto
  obtain s3 where s3: "doif (?es \<noteq> []) (swallow (ensure_registered mem_px n)) s2 = (Inr (), s3)"
    using swallow_run[of "ensure_registered mem_px n" s2] by (cases "?es \<noteq> []") (auto simp only: doif_def if_True if_False ret_def simp_thms)
  show ?thesis
    by (rule that[of s3]) (simp add: proxy_apply_locked_def bnd_def on_w_def w Let_def andthen_def set_slice_def s2 s3 del: concat_eq_Nil_conv Nil_eq_concat_conv)
qed

text \<open>A service with one backend, and a module that has just been loaded.\<close>

definition demo_service :: "string \<Rightarrow> service_dict" where
  "demo_service vip =
     \<lparr>sd_id = Some ''11111111-2222-3333-4444-555555555555'', sd_project_id = None, sd_name = Some ''dns'', sd_description = None,
      sd_local_ipv4 = Some vip, sd_local_ipv6 = None, sd_protocol = Some PROTO_UDP, sd_port = Some 53,
      sd_attachment_policy = None, sd_distribution_policy = None, sd_exposure_plugin = Some EXPOSURE_PROXY,
      sd_health_check_type = Some HC_DNS, sd_health_check_config = None, sd_enabled = Some True,
      sd_backends = Some [\<lparr>bd_id = None, bd_service_id = None, bd_name = None, bd_availability_zone = None, bd_weight = None,
        bd_address = Some ''10.0.0.5'', bd_port = Some 53, bd_health_check_address = None, bd_health_check_port = None, bd_enabled = Some True\<rparr>]\<rparr>"

definition fresh_proxy :: "(string \<Rightarrow> string option) \<Rightarrow> (string \<Rightarrow> string option) proxy" where
  "fresh_proxy w = \<lparr>pw_generation = None, pw_slices = [], pw_registered = [], pw_boot_id = None, pw_world = w\<rparr>"

lemma demo_entries: "concat (map (service_entries n path nonce) [demo_service ''169.254.1.1'']) \<noteq> []"
  by (simp add: service_entries_def demo_service_def live_backends_def proxy_protocols_def PROTO_TCP_UDP_def PROTO_UDP_def)

section \<open>Properties\<close>

text \<open>
  C24. A pass that returns publishes exactly the slices: the network's slice is the entries of its
  enabled services with a VIP, a port and a backend, the slices of the other networks are as they
  were, the catalog on disk is the union of the slices, and its generation is one more than the
  last one, which a fresh module reads from the catalog on disk.
\<close>

theorem proxy_publishes_union:
  assumes "px_ok px files" "\<not> startswith n ''/''" "proxy_apply_locked px n services s = (Inr (), s')"
  shows "\<exists>path nonce key entries. entries = concat (map (service_entries n path nonce) services)
    \<and> map_of (pw_slices s') = (map_of (pw_slices s))(n := if entries = [] then None else Some entries)
    \<and> files (pw_world s') CATALOG_PATH =
        Some (px_body px key \<lparr>cat_version = 1, cat_generation = last_generation files s + 1, cat_entries = union_of (pw_slices s')\<rparr>)
    \<and> last_generation files s' = last_generation files s + 1"
proof -
  obtain path nonce key entries where *: "entries = concat (map (service_entries n path nonce) services)"
    "pw_slices s' = put_slice n entries (pw_slices s)"
    "files (pw_world s') CATALOG_PATH =
      Some (px_body px key \<lparr>cat_version = 1, cat_generation = last_generation files s + 1, cat_entries = union_of (pw_slices s')\<rparr>)"
    "pw_generation s' = Some (last_generation files s + 1)"
    by (rule apply_run[OF assms]) blast
  have "map_of (pw_slices s') = (map_of (pw_slices s))(n := if entries = [] then None else Some entries)"
    unfolding *(2) by (rule put_slice_lookup)
  moreover have "last_generation files s' = last_generation files s + 1" by (simp add: last_generation_def *(4))
  ultimately show ?thesis using *(1,3) by blast
qed

theorem proxy_publishes_union_witness:
  "\<exists>s'. proxy_apply_locked mem_px ''net-1'' [demo_service ''169.254.1.1''] (fresh_proxy Map.empty) = (Inr (), s')
    \<and> last_generation (\<lambda>w. w) s' = 1 \<and> map_of (pw_slices s') ''net-1'' \<noteq> None"
proof -
  have n: "\<not> startswith ''net-1'' ''/''" by (simp add: startswith_def)
  obtain s' where s': "proxy_apply_locked mem_px ''net-1'' [demo_service ''169.254.1.1''] (fresh_proxy Map.empty) = (Inr (), s')"
    by (rule mem_apply_returns[OF n, of "fresh_proxy Map.empty"]) (auto simp: fresh_proxy_def)
  have "last_generation (\<lambda>w. w) (fresh_proxy Map.empty) = 0" by (simp add: last_generation_def fresh_proxy_def)
  then show ?thesis
    using proxy_publishes_union[OF mem_px_ok n s'] s' demo_entries by auto
qed

text \<open>
  C28. A restart of the agent withdraws the other networks: the slices live in memory only, so the first
  pass after a restart publishes a catalog with the entries of one network, under a generation
  larger than that of the catalog on disk, whatever that catalog holds. The other networks come
  back only with a pass of their own, which a registry that cannot be reached delays.
\<close>

theorem restart_withdraws_other_networks:
  assumes ok: "px_ok px files" "\<not> startswith n ''/''" and run: "proxy_apply_locked px n services s = (Inr (), s')"
    and fresh: "pw_slices s = []" "pw_generation s = None"
    and disk: "files (pw_world s) CATALOG_PATH = Some (px_body px key c)"
  shows "\<exists>key' c'. files (pw_world s') CATALOG_PATH = Some (px_body px key' c') \<and> cat_generation c' = cat_generation c + 1
    \<and> filter (\<lambda>e. en_net_id e \<noteq> n) (cat_entries c') = []"
proof -
  obtain path nonce key' entries where *: "entries = concat (map (service_entries n path nonce) services)"
    "pw_slices s' = put_slice n entries (pw_slices s)"
    "files (pw_world s') CATALOG_PATH =
      Some (px_body px key' \<lparr>cat_version = 1, cat_generation = last_generation files s + 1, cat_entries = union_of (pw_slices s')\<rparr>)"
    by (rule apply_run[OF ok run]) blast
  have "union_of (pw_slices s') = entries"
    using *(2) fresh(1) by (simp add: put_slice_def dict_set_def union_of_def)
  moreover have "last_generation files s = cat_generation c"
    using fresh(2) disk by (simp add: last_generation_def)
  moreover have "filter (\<lambda>e. en_net_id e \<noteq> n) entries = []"
    using entries_of_network *(1) by (auto simp: filter_empty_conv)
  ultimately show ?thesis using *(3)
    by (intro exI[of _ key'] exI[of _ "\<lparr>cat_version = 1, cat_generation = cat_generation c + 1, cat_entries = entries\<rparr>"]) simp
qed

theorem restart_withdraws_other_networks_witness:
  "\<exists>s' key c. proxy_apply_locked mem_px ''net-1'' [demo_service ''169.254.1.1'']
      (fresh_proxy [CATALOG_PATH \<mapsto> px_body mem_px ''k'' \<lparr>cat_version = 1, cat_generation = 7,
        cat_entries = service_entries ''net-2'' [] [] (demo_service ''169.254.1.2'')\<rparr>]) = (Inr (), s')
    \<and> pw_world s' CATALOG_PATH = Some (px_body mem_px key c) \<and> cat_generation c = 8 \<and> filter (\<lambda>e. en_net_id e \<noteq> ''net-1'') (cat_entries c) = []"
proof -
  have n: "\<not> startswith ''net-1'' ''/''" by (simp add: startswith_def)
  let ?s = "fresh_proxy [CATALOG_PATH \<mapsto> px_body mem_px ''k'' \<lparr>cat_version = 1, cat_generation = 7,
        cat_entries = service_entries ''net-2'' [] [] (demo_service ''169.254.1.2'')\<rparr>]"
  have tmp: "pw_world ?s (path_join NONCE_DIR ''net-1'' @ ''.tmp'') = None"
    by (simp add: fresh_proxy_def NONCE_DIR_def CATALOG_PATH_def path_join_def startswith_def PROXY_STATE_DIR_def endswith_def)
  obtain s' where s': "proxy_apply_locked mem_px ''net-1'' [demo_service ''169.254.1.1''] ?s = (Inr (), s')"
    by (rule mem_apply_returns[OF n tmp]) (auto simp: fresh_proxy_def)
  show ?thesis
    using restart_withdraws_other_networks[OF mem_px_ok n s'] s' by (fastforce simp: fresh_proxy_def)
qed

end
