(* ===== verification/ProxyWorker.thy ===== *)
theory ProxyWorker
  imports ProxyPlugin Ipaddress "HOL-Library.Word"
begin

unbundle bit_operations_syntax

text \<open>
  The reader of the proxy plugin's catalog (\<^verbatim>\<open>proxy/worker/src/catalog.rs\<close>, \<^verbatim>\<open>proxy/wire/src/catalog.rs\<close>): the
  typed catalog, its validation, the HMAC envelope and the watcher that keeps the last good one. It is
  modelled because the plugin's correctness is about what the worker serves. The JSON parser and the
  parser of IPv6 text are parameters.
\<close>

section \<open>The typed catalog\<close>

datatype ip = V4 "32 word" | V6 "128 word"

datatype wproto = Tcp | Udp

record wire_backend =
  wb_addr :: ip
  wb_port :: "16 word"
  wb_weight :: "32 word"

record hc_common =
  interval_s :: "32 word"
  timeout_s :: "32 word"
  fail_after :: "32 word"
  rise_after :: "32 word"

datatype wire_check =
    NoCheck hc_common
  | TcpConnect hc_common
  | HttpGet hc_common string "16 word"
  | HttpsGet hc_common string "16 word" "string option"
  | UdpDnsQuery hc_common string
  | UdpNtpQuery hc_common

datatype wire_algo = Wrr | LeastConn

record wire_entry =
  we_net_id :: string
  we_service_id :: string
  we_nonce :: string
  we_nonce_path :: string
  we_vip :: ip
  we_port :: "16 word"
  we_proto :: wproto
  we_backends :: "wire_backend list"
  we_health_check :: wire_check
  we_lb_algo :: wire_algo
  we_max_concurrent :: "32 word"
  we_max_session_idle_s :: "32 word"

record wire_catalog =
  wc_version :: "32 word"
  wc_generation :: "64 word"
  wc_entries :: "wire_entry list"

text \<open>What the deserializer makes of a catalog: a number that does not fit its field, an address that does
  not parse or a missing id makes it fail; the fields of a health check that the plugin does not write get
  their defaults.\<close>

definition narrow :: "int \<Rightarrow> 'a::len word option" where
  "narrow n = (if 0 \<le> n \<and> n < 2 ^ LENGTH('a) then Some (word_of_int n) else None)"

definition ip_of :: "(string \<Rightarrow> 128 word option) \<Rightarrow> string \<Rightarrow> ip option" where
  "ip_of v6 s =
     (case parse_ipv4 s of
        Some a \<Rightarrow> Some (V4 (of_nat a))
      | None \<Rightarrow> map_option V6 (v6 s))"

definition default_common :: hc_common where
  "default_common = \<lparr>interval_s = 5, timeout_s = 2, fail_after = 3, rise_after = 2\<rparr>"

fun decode_check :: "proxy_check \<Rightarrow> wire_check" where
  "decode_check ProbeNone = NoCheck default_common"
| "decode_check ProbeTcpConnect = TcpConnect default_common"
| "decode_check (ProbeHttpGet path) = HttpGet default_common path 200"
| "decode_check (ProbeHttpsGet path) = HttpsGet default_common path 200 None"
| "decode_check ProbeUdpDns = UdpDnsQuery default_common ''health.invalid''"
| "decode_check ProbeUdpNtp = UdpNtpQuery default_common"

definition decode_proto :: "string \<Rightarrow> wproto option" where
  "decode_proto p = (if p = ''tcp'' then Some Tcp else if p = ''udp'' then Some Udp else None)"

definition decode_algo :: "string \<Rightarrow> wire_algo option" where
  "decode_algo a = (if a = ''wrr'' then Some Wrr else if a = ''least_conn'' then Some LeastConn else None)"

definition decode_backend :: "(string \<Rightarrow> 128 word option) \<Rightarrow> proxy_backend \<Rightarrow> wire_backend option" where
  "decode_backend v6 b =
     Option.bind (ip_of v6 (xb_addr b)) (\<lambda>a.
     Option.bind (narrow (xb_port b)) (\<lambda>p.
     Option.bind (narrow (xb_weight b)) (\<lambda>w. Some \<lparr>wb_addr = a, wb_port = p, wb_weight = w\<rparr>)))"

definition decode_entry :: "(string \<Rightarrow> 128 word option) \<Rightarrow> entry \<Rightarrow> wire_entry option" where
  "decode_entry v6 e =
     Option.bind (en_service_id e) (\<lambda>svc.
     Option.bind (ip_of v6 (en_vip e)) (\<lambda>vip.
     Option.bind (narrow (en_port e)) (\<lambda>port.
     Option.bind (decode_proto (en_proto e)) (\<lambda>proto.
     Option.bind (those (map (decode_backend v6) (en_backends e))) (\<lambda>bs.
     Option.bind (decode_algo (en_lb_algo e)) (\<lambda>algo.
     Option.bind (narrow (en_max_concurrent e)) (\<lambda>mc.
     Option.bind (narrow (en_max_session_idle_s e)) (\<lambda>mi.
       Some \<lparr>we_net_id = en_net_id e, we_service_id = svc, we_nonce = en_nonce e, we_nonce_path = en_nonce_path e,
         we_vip = vip, we_port = port, we_proto = proto, we_backends = bs,
         we_health_check = decode_check (en_health_check e), we_lb_algo = algo,
         we_max_concurrent = mc, we_max_session_idle_s = mi\<rparr>))))))))"

definition decode_catalog :: "(string \<Rightarrow> 128 word option) \<Rightarrow> catalog \<Rightarrow> wire_catalog option" where
  "decode_catalog v6 c =
     Option.bind (narrow (cat_version c)) (\<lambda>v.
     Option.bind (narrow (cat_generation c)) (\<lambda>g.
     Option.bind (those (map (decode_entry v6) (cat_entries c))) (\<lambda>es.
       Some \<lparr>wc_version = v, wc_generation = g, wc_entries = es\<rparr>)))"

section \<open>Validation\<close>

datatype wk_error =
    ReadError | NoNewline | HmacLength nat | HmacNotHex | HmacMismatch | ParseError
  | BadVersion | TooManyEntries | BadUuid | BadAddress | PortZero | NoBackends | TooManyBackends | TooManyTotal
  | DuplicateListener | BadHealthCheck

definition MAX_ENTRIES :: nat where "MAX_ENTRIES = 4096"
definition MAX_BACKENDS_PER_ENTRY :: nat where "MAX_BACKENDS_PER_ENTRY = 256"
definition MAX_TOTAL_BACKENDS :: nat where "MAX_TOTAL_BACKENDS = 32768"
definition MIN_HC_INTERVAL_S :: "32 word" where "MIN_HC_INTERVAL_S = 1"
definition MIN_HC_TIMEOUT_S :: "32 word" where "MIN_HC_TIMEOUT_S = 1"

definition bail :: "bool \<Rightarrow> wk_error \<Rightarrow> wk_error option" where
  "bail bad e = (if bad then Some e else None)"

text \<open>The first error of a sequence of checks, in order; \<open>None\<close> is \<^verbatim>\<open>Ok\<close>.\<close>

fun first_err :: "wk_error option list \<Rightarrow> wk_error option" where
  "first_err [] = None"
| "first_err (None # cs) = first_err cs"
| "first_err (Some e # cs) = Some e"

fun is_unspecified :: "ip \<Rightarrow> bool" where
  "is_unspecified (V4 a) = (a = 0)"
| "is_unspecified (V6 a) = (a = 0)"

fun is_loopback :: "ip \<Rightarrow> bool" where
  "is_loopback (V4 a) = (drop_bit 24 a = 127)"
| "is_loopback (V6 a) = (a = 1)"

fun is_multicast :: "ip \<Rightarrow> bool" where
  "is_multicast (V4 a) = (drop_bit 28 a = 14)"
| "is_multicast (V6 a) = (drop_bit 120 a = 255)"

fun is_broadcast_or_link_local :: "ip \<Rightarrow> bool" where
  "is_broadcast_or_link_local (V4 a) = (a = 0xffffffff)"
| "is_broadcast_or_link_local (V6 a) = (drop_bit 112 a AND 0xffc0 = 0xfe80)"

definition validate_unicast_routable :: "ip \<Rightarrow> wk_error option" where
  "validate_unicast_routable a =
     first_err [bail (is_unspecified a) BadAddress, bail (is_loopback a) BadAddress, bail (is_multicast a) BadAddress,
       bail (is_broadcast_or_link_local a) BadAddress]"

definition validate_backend_addr :: "ip \<Rightarrow> wk_error option" where
  "validate_backend_addr a =
     first_err [bail (is_unspecified a) BadAddress, bail (is_multicast a) BadAddress, bail (is_broadcast_or_link_local a) BadAddress]"

definition is_ascii_hexdigit :: "char \<Rightarrow> bool" where
  "is_ascii_hexdigit c = (is_hex c \<or> (65 \<le> (of_char c :: nat) \<and> (of_char c :: nat) \<le> 70))"

definition validate_uuid :: "string \<Rightarrow> wk_error option" where
  "validate_uuid s =
     first_err [bail (length s \<noteq> 36) BadUuid,
       bail (list_ex (\<lambda>(i, b). if i \<in> {8, 13, 18, 23} then b \<noteq> CHR ''-'' else \<not> is_ascii_hexdigit b) (enumerate 0 s)) BadUuid]"

definition validate_http_origin_form_path :: "string \<Rightarrow> wk_error option" where
  "validate_http_origin_form_path path =
     first_err [bail (\<not> startswith path ''/'') BadHealthCheck,
       bail (list_ex (\<lambda>b. \<not> (0x21 \<le> (of_char b :: nat) \<and> (of_char b :: nat) \<le> 0x7E)) path) BadHealthCheck]"

definition validate_common :: "hc_common \<Rightarrow> wk_error option" where
  "validate_common c =
     first_err [bail (interval_s c < MIN_HC_INTERVAL_S) BadHealthCheck, bail (timeout_s c < MIN_HC_TIMEOUT_S) BadHealthCheck,
       bail (interval_s c < timeout_s c) BadHealthCheck]"

fun validate_health_check :: "wire_check \<Rightarrow> wk_error option" where
  "validate_health_check (NoCheck c) = None"
| "validate_health_check (TcpConnect c) = validate_common c"
| "validate_health_check (UdpDnsQuery c q) = validate_common c"
| "validate_health_check (UdpNtpQuery c) = validate_common c"
| "validate_health_check (HttpGet c path st) = first_err [validate_http_origin_form_path path, validate_common c]"
| "validate_health_check (HttpsGet c path st sni) = first_err [validate_http_origin_form_path path, validate_common c]"

definition validate_backend :: "wire_backend \<Rightarrow> wk_error option" where
  "validate_backend b = first_err [validate_backend_addr (wb_addr b), bail (wb_port b = 0) PortZero]"

type_synonym listener = "string \<times> ip \<times> 16 word \<times> wproto"

definition listener_of :: "wire_entry \<Rightarrow> listener" where
  "listener_of e = (we_net_id e, we_vip e, we_port e, we_proto e)"

text \<open>
  The loop of \<^verbatim>\<open>validate\<close>: \<open>keys\<close> are the listeners seen, \<open>seen\<close> the backends seen. The sum saturates in
  the code; a value near that bound has failed the check before it.
\<close>

definition validate_entry :: "listener set \<Rightarrow> nat \<Rightarrow> wire_entry \<Rightarrow> wk_error option" where
  "validate_entry keys seen e =
     first_err ([validate_uuid (we_net_id e), validate_uuid (we_service_id e), validate_unicast_routable (we_vip e),
       bail (we_port e = 0) PortZero, bail (we_backends e = []) NoBackends,
       bail (length (we_backends e) > MAX_BACKENDS_PER_ENTRY) TooManyBackends,
       bail (seen + length (we_backends e) > MAX_TOTAL_BACKENDS) TooManyTotal]
       @ map validate_backend (we_backends e)
       @ [bail (listener_of e \<in> keys) DuplicateListener, validate_health_check (we_health_check e)])"

fun validate_entries :: "listener set \<Rightarrow> nat \<Rightarrow> wire_entry list \<Rightarrow> wk_error option" where
  "validate_entries keys seen [] = None"
| "validate_entries keys seen (e # es) =
     first_err [validate_entry keys seen e,
       validate_entries (insert (listener_of e) keys) (seen + length (we_backends e)) es]"

definition validate_catalog :: "wire_catalog \<Rightarrow> wk_error option" where
  "validate_catalog c =
     first_err [bail (wc_version c \<noteq> 1) BadVersion, bail (length (wc_entries c) > MAX_ENTRIES) TooManyEntries,
       validate_entries {} 0 (wc_entries c)]"

section \<open>The envelope and the watcher\<close>

fun hex_decode :: "string \<Rightarrow> string option" where
  "hex_decode [] = Some []"
| "hex_decode [c] = None"
| "hex_decode (a # b # s) =
     Option.bind (hex_val a) (\<lambda>x. Option.bind (hex_val b) (\<lambda>y. map_option ((#) (char_of (16 * x + y))) (hex_decode s)))"

text \<open>\<open>wk_parse\<close> is the JSON deserializer, \<open>wk_hmac\<close> the digest.\<close>

record wk_env =
  wk_parse :: "string \<Rightarrow> wire_catalog option"
  wk_hmac :: "string \<Rightarrow> string \<Rightarrow> string"

definition verify_hmac :: "wk_env \<Rightarrow> string \<Rightarrow> string \<Rightarrow> string \<Rightarrow> wk_error option" where
  "verify_hmac env key hmac_hex payload =
     first_err [bail (length hmac_hex \<noteq> 64) (HmacLength (length hmac_hex)),
       (case hex_decode hmac_hex of
          None \<Rightarrow> Some HmacNotHex
        | Some expected \<Rightarrow> bail (wk_hmac env key payload \<noteq> expected) HmacMismatch)]"

definition load_and_verify :: "wk_env \<Rightarrow> string \<Rightarrow> string option \<Rightarrow> wk_error + wire_catalog" where
  "load_and_verify env key file =
     (case file of
        None \<Rightarrow> Inl ReadError
      | Some bytes \<Rightarrow>
          (case find_sub [NEWLINE] bytes of
             None \<Rightarrow> Inl NoNewline
           | Some (hmac_hex, payload) \<Rightarrow>
               (case verify_hmac env key hmac_hex payload of
                  Some e \<Rightarrow> Inl e
                | None \<Rightarrow>
                    (case wk_parse env payload of
                       None \<Rightarrow> Inl ParseError
                     | Some c \<Rightarrow> (case validate_catalog c of Some e \<Rightarrow> Inl e | None \<Rightarrow> Inr c)))))"

definition initial_catalog :: "wk_env \<Rightarrow> string \<Rightarrow> string option \<Rightarrow> wire_catalog" where
  "initial_catalog env key file =
     (case load_and_verify env key file of
        Inr c \<Rightarrow> c
      | Inl _ \<Rightarrow> \<lparr>wc_version = 1, wc_generation = 0, wc_entries = []\<rparr>)"

text \<open>One event of the watcher: the file is read, a catalog that is refused or whose generation is smaller is
  ignored.\<close>

definition watcher_event :: "wk_env \<Rightarrow> string \<Rightarrow> string option \<Rightarrow> wire_catalog \<Rightarrow> wire_catalog" where
  "watcher_event env key file cur =
     (case load_and_verify env key file of
        Inl _ \<Rightarrow> cur
      | Inr cat \<Rightarrow> if wc_generation cat < wc_generation cur then cur else cat)"

section \<open>Lemmas\<close>

lemma first_err_None [simp]: "first_err cs = None \<longleftrightarrow> (\<forall>c \<in> set cs. c = None)"
  by (induction cs rule: first_err.induct) auto

lemma bail_None [simp]: "bail bad e = None \<longleftrightarrow> \<not> bad"
  by (simp add: bail_def)

definition entry_accepted :: "wire_entry \<Rightarrow> bool" where
  "entry_accepted e \<longleftrightarrow> validate_uuid (we_net_id e) = None \<and> validate_uuid (we_service_id e) = None
     \<and> validate_unicast_routable (we_vip e) = None \<and> we_port e \<noteq> 0 \<and> we_backends e \<noteq> []
     \<and> length (we_backends e) \<le> MAX_BACKENDS_PER_ENTRY \<and> (\<forall>b \<in> set (we_backends e). validate_backend b = None)
     \<and> validate_health_check (we_health_check e) = None"

lemma validate_entry_None:
  "validate_entry keys seen e = None \<longleftrightarrow>
     entry_accepted e \<and> listener_of e \<notin> keys \<and> seen + length (we_backends e) \<le> MAX_TOTAL_BACKENDS"
  unfolding validate_entry_def entry_accepted_def by (auto simp: not_less)

lemma validate_entries_None:
  "validate_entries keys seen es = None \<longleftrightarrow>
     (\<forall>e \<in> set es. entry_accepted e) \<and> distinct (map listener_of es) \<and> listener_of ` set es \<inter> keys = {}
     \<and> (es = [] \<or> seen + sum_list (map (\<lambda>e. length (we_backends e)) es) \<le> MAX_TOTAL_BACKENDS)"
proof (induction es arbitrary: keys seen)
  case (Cons e es)
  let ?n = "length (we_backends e)" and ?sum = "sum_list (map (\<lambda>e. length (we_backends e)) es)"
  have "seen + ?n \<le> MAX_TOTAL_BACKENDS \<and> (es = [] \<or> seen + ?n + ?sum \<le> MAX_TOTAL_BACKENDS) \<longleftrightarrow> seen + (?n + ?sum) \<le> MAX_TOTAL_BACKENDS"
    by (cases es) auto
  moreover have "validate_entries keys seen (e # es) = None \<longleftrightarrow> entry_accepted e \<and> listener_of e \<notin> keys \<and> seen + ?n \<le> MAX_TOTAL_BACKENDS
      \<and> (\<forall>e \<in> set es. entry_accepted e) \<and> distinct (map listener_of es) \<and> listener_of ` set es \<inter> insert (listener_of e) keys = {}
      \<and> (es = [] \<or> seen + ?n + ?sum \<le> MAX_TOTAL_BACKENDS)"
    by (simp add: Cons.IH validate_entry_None)
  ultimately show ?case by auto
qed simp

text \<open>The worker serves a catalog exactly when each entry is acceptable on its own, no two of them
  are the same listener, and the caps hold.\<close>

lemma validate_catalog_None:
  "validate_catalog c = None \<longleftrightarrow>
     wc_version c = 1 \<and> length (wc_entries c) \<le> MAX_ENTRIES \<and> (\<forall>e \<in> set (wc_entries c). entry_accepted e)
     \<and> distinct (map listener_of (wc_entries c))
     \<and> sum_list (map (\<lambda>e. length (we_backends e)) (wc_entries c)) \<le> MAX_TOTAL_BACKENDS"
  unfolding validate_catalog_def by (auto simp: validate_entries_None not_less)

lemma hex_decode_hexdigest: "hex_decode (hexdigest bytes) = Some bytes"
proof (induction bytes)
  case (Cons b bytes)
  have "(of_char b :: nat) div 16 mod 16 = of_char b div 16"
    by (rule mod_less) (rule less_mult_imp_div_less, simp)
  moreover have "char_of (16 * ((of_char b :: nat) div 16) + of_char b mod 16) = b" by simp
  ultimately show ?case using Cons by (simp add: hexdigest_def hex_val_digit)
qed (simp add: hexdigest_def)

interpretation hex_text: codec "\<lambda>_. True" hexdigest hex_decode
  by unfold_locales (rule hex_decode_hexdigest)

lemma hexdigest_length: "length (hexdigest bytes) = 2 * length bytes"
  by (induction bytes) (simp_all add: hexdigest_def)

text \<open>
  What a worker has to share with the plugin: the digest, of 32 bytes, and the meaning of JSON text.
\<close>

definition worker_agrees :: "'w px_os \<Rightarrow> wk_env \<Rightarrow> (string \<Rightarrow> 128 word option) \<Rightarrow> bool" where
  "worker_agrees px env v6 \<longleftrightarrow> wk_hmac env = px_hmac px \<and> (\<forall>key p. length (px_hmac px key p) = 32)
     \<and> (\<forall>c. wk_parse env (dumps (catalog_json c)) = decode_catalog v6 c)"

lemma load_body:
  assumes "worker_agrees px env v6"
  shows "load_and_verify env key (Some (px_body px key c)) =
    (case decode_catalog v6 c of
       None \<Rightarrow> Inl ParseError
     | Some wc \<Rightarrow> (case validate_catalog wc of Some e \<Rightarrow> Inl e | None \<Rightarrow> Inr wc))"
proof -
  have "verify_hmac env key (hexdigest (px_hmac px key p)) p = None" for p
    using assms by (simp add: verify_hmac_def worker_agrees_def hexdigest_length hex_decode_hexdigest)
  then show ?thesis
    using assms by (simp add: load_and_verify_def split_body worker_agrees_def del: dumps.simps)
qed

subsection \<open>Services the worker can serve\<close>

text \<open>
  A service with an id, a VIP the worker binds, a port, and enabled backends with an address the worker
  connects to, a port and a weight that fits: what the API admits, less the addresses the worker refuses.
\<close>

definition port_ok :: "int option \<Rightarrow> bool" where
  "port_ok p \<longleftrightarrow> (case p of None \<Rightarrow> False | Some n \<Rightarrow> 1 \<le> n \<and> n \<le> 65535)"

definition addr_ok :: "(string \<Rightarrow> 128 word option) \<Rightarrow> (ip \<Rightarrow> wk_error option) \<Rightarrow> string option \<Rightarrow> bool" where
  "addr_ok v6 check a \<longleftrightarrow> truthy_str a \<and> (case ip_of v6 (the a) of None \<Rightarrow> False | Some x \<Rightarrow> check x = None)"

definition fine_backend :: "(string \<Rightarrow> 128 word option) \<Rightarrow> backend_dict \<Rightarrow> bool" where
  "fine_backend v6 b \<longleftrightarrow> addr_ok v6 validate_backend_addr (bd_address b) \<and> port_ok (bd_port b)
     \<and> (case bd_weight b of None \<Rightarrow> True | Some w \<Rightarrow> w < 2 ^ 32)"

definition fine_service :: "(string \<Rightarrow> 128 word option) \<Rightarrow> service_dict \<Rightarrow> bool" where
  "fine_service v6 svc \<longleftrightarrow> (case sd_id svc of None \<Rightarrow> False | Some i \<Rightarrow> validate_uuid i = None)
     \<and> addr_ok v6 validate_unicast_routable (sd_local_ipv4 svc) \<and> port_ok (sd_port svc)
     \<and> length (live_backends svc) \<le> MAX_BACKENDS_PER_ENTRY \<and> list_all (fine_backend v6) (live_backends svc)"

lemma fine_backend_truthy: "fine_backend v6 b \<Longrightarrow> truthy_str (bd_address b) \<and> truthy_int (bd_port b)"
  by (auto simp: fine_backend_def addr_ok_def port_ok_def truthy_int_def split: option.splits)

lemma narrow_Some: "0 \<le> n \<Longrightarrow> n < 2 ^ LENGTH('a) \<Longrightarrow> narrow n = Some (word_of_int n :: 'a::len word)"
  by (simp add: narrow_def)

lemma narrow_port: "1 \<le> n \<Longrightarrow> n \<le> 65535 \<Longrightarrow> \<exists>w. narrow n = Some (w :: 16 word) \<and> w \<noteq> 0"
proof -
  assume n: "1 \<le> n" "n \<le> 65535"
  then have "uint (word_of_int n :: 16 word) = n" by (simp add: uint_word_of_int)
  then have "(word_of_int n :: 16 word) \<noteq> 0" using n by auto
  then show ?thesis using n by (simp add: narrow_Some)
qed

lemma decode_fine_backend:
  assumes "fine_backend v6 b"
  shows "\<exists>wb. decode_backend v6 (entry_backend b) = Some wb \<and> validate_backend wb = None"
proof -
  obtain addr a p where a: "bd_address b = Some addr" "ip_of v6 addr = Some a" "validate_backend_addr a = None"
    and p: "bd_port b = Some p" "1 \<le> p" "p \<le> 65535"
    using assms by (auto simp: fine_backend_def addr_ok_def port_ok_def truthy_str_def split: option.splits)
  obtain w where w: "narrow p = Some (w :: 16 word)" "w \<noteq> 0" using narrow_port p by blast
  have "0 \<le> xb_weight (entry_backend b)" "xb_weight (entry_backend b) < 2 ^ LENGTH(32)"
    using assms by (auto simp: entry_backend_def fine_backend_def split: option.splits)
  then have "narrow (xb_weight (entry_backend b)) = Some (word_of_int (xb_weight (entry_backend b)) :: 32 word)" by (rule narrow_Some)
  then show ?thesis using a p w by (simp add: decode_backend_def entry_backend_def validate_backend_def)
qed

lemma those_map_Some: "(\<And>x. x \<in> set xs \<Longrightarrow> f x = Some (g x)) \<Longrightarrow> those (map f xs) = Some (map g xs)"
  by (induction xs) auto

lemma decode_fine_backends:
  assumes "list_all (fine_backend v6) bs"
  shows "\<exists>wbs. those (map (decode_backend v6) (map entry_backend bs)) = Some wbs \<and> length wbs = length bs \<and> (\<forall>wb \<in> set wbs. validate_backend wb = None)"
proof -
  have fine: "\<exists>wb. decode_backend v6 (entry_backend b) = Some wb \<and> validate_backend wb = None" if "b \<in> set bs" for b
    using assms that decode_fine_backend by (simp add: list_all_iff)
  then have "those (map (\<lambda>b. decode_backend v6 (entry_backend b)) bs) = Some (map (\<lambda>b. the (decode_backend v6 (entry_backend b))) bs)"
    by (intro those_map_Some) force
  moreover have "validate_backend (the (decode_backend v6 (entry_backend b))) = None" if "b \<in> set bs" for b
    using fine[OF that] by auto
  ultimately show ?thesis by (auto simp: comp_def)
qed

lemma accepted_check: "validate_health_check (decode_check (hc_for_service svc)) = None"
  by (simp add: hc_for_service_def Let_def validate_common_def default_common_def MIN_HC_INTERVAL_S_def MIN_HC_TIMEOUT_S_def
      validate_http_origin_form_path_def startswith_def)

lemma decode_protocol: "p \<in> set (proxy_protocols svc) \<Longrightarrow> \<exists>q. decode_proto p = Some q"
  by (auto simp: proxy_protocols_def decode_proto_def PROTO_TCP_def PROTO_UDP_def split: option.splits if_splits)

lemma decode_algorithm: "\<exists>a. decode_algo (en_lb_algo (entry_for n svc p path nonce)) = Some a"
  by (simp add: entry_for_def decode_algo_def PROXY_LB_ALGO_def)

text \<open>An entry of such a service decodes, is acceptable, and stays an entry of its network.\<close>

lemma fine_entry:
  assumes fine: "fine_service v6 svc" and n: "validate_uuid n = None" and e: "e \<in> set (service_entries n path nonce svc)"
  shows "\<exists>we. decode_entry v6 e = Some we \<and> entry_accepted we"
proof -
  from e obtain p where p: "p \<in> set (proxy_protocols svc)" "e = entry_for n svc p path nonce" and live: "live_backends svc \<noteq> []"
    by (auto simp: service_entries_def split: if_splits)
  obtain i where i: "sd_id svc = Some i" "validate_uuid i = None"
    using fine by (auto simp: fine_service_def split: option.splits)
  obtain vip a where a: "sd_local_ipv4 svc = Some vip" "ip_of v6 vip = Some a" "validate_unicast_routable a = None"
    using fine by (auto simp: fine_service_def addr_ok_def truthy_str_def split: option.splits)
  obtain port w where w: "sd_port svc = Some port" "narrow port = Some (w :: 16 word)" "w \<noteq> 0"
    using fine narrow_port by (fastforce simp: fine_service_def port_ok_def split: option.splits)
  have bs: "list_all (fine_backend v6) (live_backends svc)" and len: "length (live_backends svc) \<le> MAX_BACKENDS_PER_ENTRY"
    using fine by (simp_all add: fine_service_def)
  have "\<forall>b \<in> set (live_backends svc). truthy_str (bd_address b) \<and> truthy_int (bd_port b)"
    using bs fine_backend_truthy unfolding list_all_iff by blast
  then have filt: "filter (\<lambda>b. truthy_str (bd_address b) \<and> truthy_int (bd_port b)) (live_backends svc) = live_backends svc"
    by (simp add: filter_id_conv)
  obtain wbs where wbs: "those (map (decode_backend v6) (map entry_backend (live_backends svc))) = Some wbs"
      "length wbs = length (live_backends svc)" "\<forall>wb \<in> set wbs. validate_backend wb = None"
    using decode_fine_backends[OF bs] by blast
  obtain q where q: "decode_proto p = Some q" using decode_protocol[OF p(1)] by blast
  obtain al where al: "decode_algo (en_lb_algo e) = Some al" using decode_algorithm p(2) by blast
  have e': "en_service_id e = Some i" "en_vip e = vip" "en_port e = port" "en_proto e = p" "en_net_id e = n"
      "en_backends e = map entry_backend (live_backends svc)" "en_health_check e = hc_for_service svc"
      "en_max_concurrent e = 1000" "en_max_session_idle_s e = 60"
    using i a w by (simp_all add: p(2) entry_for_def filt)
  have caps: "narrow (1000 :: int) = Some (1000 :: 32 word)" "narrow (60 :: int) = Some (60 :: 32 word)"
    by (simp_all add: narrow_def)
  show ?thesis
    using i a w q al wbs n live len by (auto simp: decode_entry_def e' caps entry_accepted_def accepted_check)
qed

text \<open>The listener an entry asks for.\<close>

definition listener_key :: "(string \<Rightarrow> 128 word option) \<Rightarrow> entry \<Rightarrow> string \<times> ip option \<times> int \<times> string" where
  "listener_key v6 e = (en_net_id e, ip_of v6 (en_vip e), en_port e, en_proto e)"

lemma narrow_uint: "narrow n = Some (w :: 'a::len word) \<Longrightarrow> uint w = n"
  by (auto simp: narrow_def uint_word_of_int mod_pos_pos_trivial split: if_splits)

lemma narrow_inj: "narrow m = Some (w :: 'a::len word) \<Longrightarrow> narrow n = Some w \<Longrightarrow> m = n"
  using narrow_uint by metis

lemma decode_entry_listener:
  assumes "decode_entry v6 e = Some we"
  obtains a p q where "listener_of we = (en_net_id e, a, p, q)" "ip_of v6 (en_vip e) = Some a" "narrow (en_port e) = Some p" "decode_proto (en_proto e) = Some q"
  using assms by (auto simp: decode_entry_def listener_of_def bind_eq_Some_conv intro: that)

lemma those_length: "those xs = Some ys \<Longrightarrow> length ys = length xs"
  by (induction xs arbitrary: ys) (auto split: option.splits)

lemma decode_backends_length: "decode_entry v6 e = Some we \<Longrightarrow> length (we_backends we) = length (en_backends e)"
  by (auto simp: decode_entry_def bind_eq_Some_conv dest: those_length)

lemma decode_proto_inj: "decode_proto x = Some q \<Longrightarrow> decode_proto y = Some q \<Longrightarrow> x = y"
  by (auto simp: decode_proto_def split: if_splits)

lemma same_listener_iff:
  assumes d: "decode_entry v6 d = Some wd" and e: "decode_entry v6 e = Some we"
  shows "listener_of wd = listener_of we \<longleftrightarrow> listener_key v6 d = listener_key v6 e"
proof -
  obtain a p q where 1: "listener_of wd = (en_net_id d, a, p, q)" "ip_of v6 (en_vip d) = Some a" "narrow (en_port d) = Some p" "decode_proto (en_proto d) = Some q"
    by (rule decode_entry_listener[OF d])
  obtain b r u where 2: "listener_of we = (en_net_id e, b, r, u)" "ip_of v6 (en_vip e) = Some b" "narrow (en_port e) = Some r" "decode_proto (en_proto e) = Some u"
    by (rule decode_entry_listener[OF e])
  have "p = r \<longleftrightarrow> en_port d = en_port e" using 1(3) 2(3) narrow_inj by auto
  moreover have "q = u \<longleftrightarrow> en_proto d = en_proto e" using 1(4) 2(4) decode_proto_inj by auto
  ultimately show ?thesis using 1 2 by (simp add: listener_key_def)
qed

lemma distinct_listeners:
  assumes "\<And>e. e \<in> set es \<Longrightarrow> decode_entry v6 e = Some (f e)"
  shows "distinct (map listener_of (map f es)) \<longleftrightarrow> distinct (map (listener_key v6) es)"
  using assms
proof (induction es)
  case (Cons e es)
  have "listener_of (f e) = listener_of (f d) \<longleftrightarrow> listener_key v6 e = listener_key v6 d" if "d \<in> set es" for d
    using same_listener_iff Cons.prems that by (metis list.set_intros)
  then have "listener_of (f e) \<in> (\<lambda>x. listener_of (f x)) ` set es \<longleftrightarrow> listener_key v6 e \<in> listener_key v6 ` set es" by (auto simp: image_iff)
  with Cons show ?case by simp
qed simp

lemma union_distinct:
  assumes "distinct (map fst slices)"
    and "\<And>n es. (n, es) \<in> set slices \<Longrightarrow> (\<forall>e \<in> set es. en_net_id e = n) \<and> distinct (map (listener_key v6) es)"
  shows "distinct (map (listener_key v6) (union_of slices))"
  using assms
proof (induction slices)
  case (Cons sl slices)
  obtain n es where sl: "sl = (n, es)" by (cases sl)
  have "distinct (map (listener_key v6) (union_of slices))"
  proof (rule Cons.IH)
    show "(\<forall>e \<in> set es. en_net_id e = n) \<and> distinct (map (listener_key v6) es)" if "(n, es) \<in> set slices" for n es
      using Cons.prems(2)[of n es] that by simp
  qed (use Cons.prems(1) in simp)
  moreover have "en_net_id e \<noteq> n" if e: "e \<in> set (union_of slices)" for e
  proof -
    obtain m ds where m: "(m, ds) \<in> set slices" "e \<in> set ds" using e by (auto simp: union_of_def)
    then have "en_net_id e = m" using Cons.prems(2) by (meson list.set_intros(2))
    then show ?thesis using m(1) Cons.prems(1) by (auto simp: sl image_iff)
  qed
  moreover have "\<forall>e \<in> set es. en_net_id e = n" "distinct (map (listener_key v6) es)"
    using Cons.prems(2)[of n es] by (simp_all add: sl)
  moreover from this have "listener_key v6 ` set es \<inter> listener_key v6 ` set (union_of slices) = {}"
    using \<open>\<And>e. e \<in> set (union_of slices) \<Longrightarrow> en_net_id e \<noteq> n\<close> by (auto simp: listener_key_def)
  ultimately show ?case by (simp add: union_of_def sl)
qed (simp add: union_of_def)

lemma decode_catalog_Some:
  assumes "0 \<le> g" "g < 2 ^ 64" and "\<And>e. e \<in> set es \<Longrightarrow> decode_entry v6 e = Some (f e)"
  shows "decode_catalog v6 \<lparr>cat_version = 1, cat_generation = g, cat_entries = es\<rparr> =
    Some \<lparr>wc_version = 1, wc_generation = word_of_int g, wc_entries = map f es\<rparr>"
  using assms by (simp add: decode_catalog_def narrow_def those_map_Some[OF assms(3)])

subsection \<open>Two services of one network with the same listener\<close>

definition clash :: "service_dict \<Rightarrow> service_dict \<Rightarrow> bool" where
  "clash a b \<longleftrightarrow> get_enabled (sd_enabled a) \<and> get_enabled (sd_enabled b) \<and> truthy_str (sd_local_ipv4 a) \<and> truthy_int (sd_port a)
     \<and> sd_local_ipv4 a = sd_local_ipv4 b \<and> sd_port a = sd_port b \<and> live_backends a \<noteq> [] \<and> live_backends b \<noteq> []
     \<and> set (proxy_protocols a) \<inter> set (proxy_protocols b) \<noteq> {}"

lemma clash_entries:
  assumes "clash a b"
  obtains d e where "d \<in> set (service_entries n path nonce a)" "e \<in> set (service_entries n path nonce b)" "listener_key v6 d = listener_key v6 e"
proof -
  obtain p where "p \<in> set (proxy_protocols a)" "p \<in> set (proxy_protocols b)" using assms by (auto simp: clash_def)
  moreover have "sd_local_ipv4 b = sd_local_ipv4 a" "sd_port b = sd_port a" using assms by (simp_all add: clash_def)
  ultimately show ?thesis using assms
    by (intro that[of "entry_for n a p path nonce" "entry_for n b p path nonce"])
      (simp_all add: clash_def service_entries_def entry_for_def listener_key_def)
qed

lemma not_distinct_append: "f d = f e \<Longrightarrow> d \<in> set xs \<Longrightarrow> e \<in> set ys \<Longrightarrow> \<not> distinct (map f (ps @ xs @ qs @ ys @ rs))"
  by (auto simp: image_iff)

lemma clash_not_distinct:
  assumes "clash a b" and "es = concat (map (service_entries n path nonce) (xs @ a # ys @ b # zs))"
  shows "\<not> distinct (map (listener_key v6) es)"
proof -
  obtain d e where de: "d \<in> set (service_entries n path nonce a)" "e \<in> set (service_entries n path nonce b)" "listener_key v6 d = listener_key v6 e"
    by (rule clash_entries[OF assms(1)])
  from not_distinct_append[of "listener_key v6", OF de(3,1,2)] show ?thesis
    unfolding assms(2) by (simp only: map_append concat_append list.map concat.simps append_assoc) blast
qed

lemma slice_in_union: "map_of slices n = Some es \<Longrightarrow> \<exists>ps qs. union_of slices = ps @ es @ qs"
proof (induction slices)
  case (Cons sl slices)
  show ?case
  proof (cases "fst sl = n")
    case True
    with Cons.prems have "snd sl = es" by (cases sl) simp
    then show ?thesis by (intro exI[of _ "[]"] exI[of _ "union_of slices"]) (simp add: union_of_def)
  next
    case False
    with Cons obtain ps qs where "union_of slices = ps @ es @ qs" by (cases sl) auto
    then show ?thesis by (intro exI[of _ "snd sl @ ps"] exI[of _ qs]) (simp add: union_of_def)
  qed
qed simp

lemma those_SomeD: "those (map f xs) = Some ys \<Longrightarrow> x \<in> set xs \<Longrightarrow> f x = Some (the (f x))"
  by (induction xs arbitrary: ys) (auto split: option.splits)

lemma those_map_the: "those (map f xs) = Some ys \<Longrightarrow> ys = map (\<lambda>x. the (f x)) xs"
  by (induction xs arbitrary: ys) (auto split: option.splits)

text \<open>A catalog with a slice in which two entries ask for one listener is refused, whatever else it holds.\<close>

lemma refused_with_slice:
  assumes agree: "worker_agrees px env v6" and slice: "map_of slices n = Some es" and dup: "\<not> distinct (map (listener_key v6) es)"
  shows "watcher_event env key (Some (px_body px key \<lparr>cat_version = v, cat_generation = g, cat_entries = union_of slices\<rparr>)) cur = cur"
proof (cases "decode_catalog v6 \<lparr>cat_version = v, cat_generation = g, cat_entries = union_of slices\<rparr>")
  case None
  then show ?thesis by (simp add: watcher_event_def load_body[OF agree])
next
  case (Some wc)
  then have those: "those (map (decode_entry v6) (union_of slices)) = Some (wc_entries wc)"
    by (auto simp: decode_catalog_def bind_eq_Some_conv)
  obtain ps qs where u: "union_of slices = ps @ es @ qs" using slice_in_union[OF slice] by blast
  have "\<not> distinct (map (listener_key v6) (union_of slices))" using dup by (simp add: u)
  then have "\<not> distinct (map listener_of (wc_entries wc))"
    using distinct_listeners[OF those_SomeD[OF those]] by (simp add: those_map_the[OF those])
  then have "validate_catalog wc \<noteq> None" by (simp add: validate_catalog_None)
  then show ?thesis using Some by (auto simp: watcher_event_def load_body[OF agree])
qed

lemma accepted_union:
  assumes slices: "\<forall>(n, es) \<in> set slices. validate_uuid n = None \<and> distinct (map (listener_key v6) es)
      \<and> (\<exists>path nonce svcs. es = concat (map (service_entries n path nonce) svcs) \<and> list_all (fine_service v6) svcs)"
    and nets: "distinct (map fst slices)" and g: "0 \<le> g" "g < 2 ^ 64"
    and caps: "length (union_of slices) \<le> MAX_ENTRIES" "sum_list (map (\<lambda>e. length (en_backends e)) (union_of slices)) \<le> MAX_TOTAL_BACKENDS"
  shows "\<exists>wc. decode_catalog v6 \<lparr>cat_version = 1, cat_generation = g, cat_entries = union_of slices\<rparr> = Some wc
    \<and> validate_catalog wc = None \<and> length (wc_entries wc) = length (union_of slices)"
proof -
  let ?es = "union_of slices" and ?f = "\<lambda>e. the (decode_entry v6 e)"
  have sl: "validate_uuid n = None \<and> distinct (map (listener_key v6) es)
      \<and> (\<exists>path nonce svcs. es = concat (map (service_entries n path nonce) svcs) \<and> list_all (fine_service v6) svcs)"
    if "(n, es) \<in> set slices" for n es
    using bspec[OF slices that] by simp
  have ok: "\<exists>we. decode_entry v6 e = Some we \<and> entry_accepted we" if e: "e \<in> set ?es" for e
  proof -
    obtain n es where n: "(n, es) \<in> set slices" "e \<in> set es" using e by (auto simp: union_of_def)
    obtain path nonce svcs where es: "es = concat (map (service_entries n path nonce) svcs)" "list_all (fine_service v6) svcs"
      and u: "validate_uuid n = None"
      using sl[OF n(1)] by blast
    then obtain svc where "svc \<in> set svcs" "e \<in> set (service_entries n path nonce svc)" using n(2) by auto
    then show ?thesis using fine_entry[OF _ u, of v6 svc e path nonce] es(2) by (simp add: list_all_iff)
  qed
  then have dec: "decode_entry v6 e = Some (?f e)" if "e \<in> set ?es" for e using that by force
  have "distinct (map (listener_key v6) ?es)"
    using nets
  proof (rule union_distinct)
    fix n es
    assume "(n, es) \<in> set slices"
    from sl[OF this] obtain path nonce svcs where "es = concat (map (service_entries n path nonce) svcs)" "distinct (map (listener_key v6) es)"
      by blast
    then show "(\<forall>e \<in> set es. en_net_id e = n) \<and> distinct (map (listener_key v6) es)"
      using entries_of_network[of _ n path nonce svcs] by blast
  qed
  then have "distinct (map listener_of (map ?f ?es))" using distinct_listeners[of ?es v6 ?f] dec by blast
  moreover have "length (we_backends (?f e)) = length (en_backends e)" if "e \<in> set ?es" for e
    using decode_backends_length[OF dec[OF that]] .
  then have "sum_list (map (\<lambda>e. length (we_backends e)) (map ?f ?es)) = sum_list (map (\<lambda>e. length (en_backends e)) ?es)"
    by (simp add: comp_def cong: map_cong)
  moreover have "\<forall>e \<in> set ?es. entry_accepted (?f e)" using ok by force
  ultimately show ?thesis
    using caps decode_catalog_Some[OF g dec] by (auto simp: validate_catalog_None)
qed

section \<open>A worker in memory\<close>

text \<open>The catalog a JSON document stands for.\<close>

definition get_str :: "(string \<times> json) list \<Rightarrow> string \<Rightarrow> string option" where
  "get_str kvs k = (case obj_get kvs k of Some (JStr s) \<Rightarrow> Some s | _ \<Rightarrow> None)"

definition get_int :: "(string \<times> json) list \<Rightarrow> string \<Rightarrow> int option" where
  "get_int kvs k = (case obj_get kvs k of Some (JInt n) \<Rightarrow> Some n | _ \<Rightarrow> None)"

definition get_arr :: "(string \<times> json) list \<Rightarrow> string \<Rightarrow> json list option" where
  "get_arr kvs k = (case obj_get kvs k of Some (JArr xs) \<Rightarrow> Some xs | _ \<Rightarrow> None)"

fun fields :: "json \<Rightarrow> (string \<times> json) list option" where
  "fields (JObj kvs) = Some kvs"
| "fields _ = None"

definition backend_of_json :: "json \<Rightarrow> proxy_backend option" where
  "backend_of_json j =
     Option.bind (fields j) (\<lambda>d. Option.bind (get_str d ''addr'') (\<lambda>a. Option.bind (get_int d ''port'') (\<lambda>p.
     Option.bind (get_int d ''weight'') (\<lambda>w. Some \<lparr>xb_addr = a, xb_port = p, xb_weight = w\<rparr>))))"

definition check_of_json :: "json \<Rightarrow> proxy_check option" where
  "check_of_json j =
     Option.bind (fields j) (\<lambda>d. Option.bind (get_str d ''type'') (\<lambda>t.
       if t = ''none'' then Some ProbeNone else if t = ''tcp_connect'' then Some ProbeTcpConnect
       else if t = ''http_get'' then map_option ProbeHttpGet (get_str d ''path'')
       else if t = ''https_get'' then map_option ProbeHttpsGet (get_str d ''path'')
       else if t = ''udp_dns_query'' then Some ProbeUdpDns else if t = ''udp_ntp_query'' then Some ProbeUdpNtp else None))"

definition entry_of_json :: "json \<Rightarrow> entry option" where
  "entry_of_json j =
     Option.bind (fields j) (\<lambda>d.
     Option.bind (Option.bind (get_arr d ''backends'') (\<lambda>xs. those (map backend_of_json xs))) (\<lambda>bs.
     Option.bind (Option.bind (obj_get d ''health_check'') check_of_json) (\<lambda>hc.
     Option.bind (get_str d ''lb_algo'') (\<lambda>al. Option.bind (get_int d ''max_concurrent'') (\<lambda>mc.
     Option.bind (get_int d ''max_session_idle_s'') (\<lambda>mi. Option.bind (get_str d ''net_id'') (\<lambda>net.
     Option.bind (get_str d ''nonce'') (\<lambda>nonce. Option.bind (get_str d ''nonce_path'') (\<lambda>path.
     Option.bind (get_int d ''port'') (\<lambda>port. Option.bind (get_str d ''proto'') (\<lambda>proto. Option.bind (get_str d ''vip'') (\<lambda>vip.
       Some \<lparr>en_net_id = net, en_service_id = get_str d ''service_id'', en_nonce = nonce, en_nonce_path = path, en_vip = vip, en_port = port,
         en_proto = proto, en_backends = bs, en_health_check = hc, en_lb_algo = al, en_max_concurrent = mc, en_max_session_idle_s = mi\<rparr>))))))))))))"

definition catalog_of_json :: "json \<Rightarrow> catalog option" where
  "catalog_of_json j =
     Option.bind (fields j) (\<lambda>d. Option.bind (get_int d ''version'') (\<lambda>v. Option.bind (get_int d ''generation'') (\<lambda>g.
     Option.bind (Option.bind (get_arr d ''entries'') (\<lambda>xs. those (map entry_of_json xs))) (\<lambda>es.
       Some \<lparr>cat_version = v, cat_generation = g, cat_entries = es\<rparr>))))"

lemmas json_access = get_str_def get_int_def get_arr_def obj_get_def

lemma backend_of_json_json: "backend_of_json (backend_json b) = Some b"
  by (simp add: backend_of_json_def backend_json_def json_access)

lemma check_of_json_json: "check_of_json (check_json c) = Some c"
  by (cases c) (simp_all add: check_of_json_def json_access)

lemma entry_of_json_json: "entry_of_json (entry_json e) = Some e"
  by (simp add: entry_of_json_def entry_json_def json_access those_map_Some[where g = "\<lambda>x. x"] backend_of_json_json check_of_json_json
      comp_def split: option.split)

lemma catalog_of_json_json: "catalog_of_json (catalog_json c) = Some c"
  by (simp add: catalog_of_json_def catalog_json_def json_access those_map_Some[where g = "\<lambda>x. x"] entry_of_json_json comp_def)

interpretation catalog_text: codec_stack "\<lambda>_. True" catalog_json catalog_of_json "\<lambda>_. True" dumps loads
  by unfold_locales (simp_all add: catalog_of_json_json)

definition mem_env :: "(string \<Rightarrow> 128 word option) \<Rightarrow> wk_env" where
  "mem_env v6 =
     \<lparr>wk_parse = (\<lambda>s. Option.bind (Option.bind (loads s) catalog_of_json) (decode_catalog v6)), wk_hmac = px_hmac mem_px\<rparr>"

lemma mem_worker_agrees: "worker_agrees mem_px (mem_env v6) v6"
  unfolding worker_agrees_def mem_env_def wk_env.select_convs catalog_text.both.dec_enc[OF TrueI]
  by (simp add: mem_px_def) arith

abbreviation no_v6 :: "string \<Rightarrow> 128 word option" where "no_v6 \<equiv> \<lambda>_. None"

abbreviation NET_A :: string where "NET_A \<equiv> ''aaaaaaaa-0000-4000-8000-000000000001''"
abbreviation NET_B :: string where "NET_B \<equiv> ''bbbbbbbb-0000-4000-8000-000000000002''"

lemma demo_addresses: "parse_ipv4 ''169.254.1.1'' = Some 2851995905" "parse_ipv4 ''10.0.0.5'' = Some 167772165"
  by (simp_all add: parse_ipv4_def parse_octet_def parse_nat_def is_digit_def digit_val_def)

lemma demo_uuid: "validate_uuid ''11111111-2222-3333-4444-555555555555'' = None"
  by code_simp

lemma demo_fine: "fine_service no_v6 (demo_service ''169.254.1.1'')"
  by (simp add: fine_service_def demo_service_def live_backends_def fine_backend_def addr_ok_def port_ok_def ip_of_def demo_addresses demo_uuid
      validate_unicast_routable_def validate_backend_addr_def MAX_BACKENDS_PER_ENTRY_def)

lemma net_uuids: "validate_uuid NET_A = None" "validate_uuid NET_B = None"
  by code_simp+

lemma demo_slice_distinct: "distinct (map (listener_key no_v6) (concat (map (service_entries n path nonce) [demo_service ''169.254.1.1''])))"
  by (simp add: service_entries_def demo_service_def live_backends_def proxy_protocols_def PROTO_TCP_UDP_def PROTO_UDP_def PROTO_TCP_def)

lemma demo_caps:
  assumes "es = concat (map (service_entries n path nonce) [demo_service ''169.254.1.1''])"
  shows "length es \<le> MAX_ENTRIES" "sum_list (map (\<lambda>e. length (en_backends e)) es) \<le> MAX_TOTAL_BACKENDS"
  by (simp_all add: assms service_entries_def demo_service_def live_backends_def proxy_protocols_def PROTO_TCP_UDP_def PROTO_UDP_def PROTO_TCP_def
      entry_for_def MAX_ENTRIES_def MAX_TOTAL_BACKENDS_def)

lemma demo_length: "length (service_entries n path nonce (demo_service vip)) = (if vip = [] then 0 else 1)"
  by (simp add: service_entries_def demo_service_def live_backends_def proxy_protocols_def PROTO_TCP_UDP_def PROTO_UDP_def PROTO_TCP_def)

lemma demo_slices_ok:
  "\<forall>(n, es) \<in> set [(NET_A, concat (map (service_entries NET_A path nonce) [demo_service ''169.254.1.1'']))].
     validate_uuid n = None \<and> distinct (map (listener_key no_v6) es)
     \<and> (\<exists>path nonce svcs. es = concat (map (service_entries n path nonce) svcs) \<and> list_all (fine_service no_v6) svcs)"
proof -
  have "\<exists>path' nonce' svcs. concat (map (service_entries NET_A path nonce) [demo_service ''169.254.1.1'']) =
      concat (map (service_entries NET_A path' nonce') svcs) \<and> list_all (fine_service no_v6) svcs"
    by (intro exI[of _ path] exI[of _ nonce] exI[of _ "[demo_service ''169.254.1.1'']"]) (simp add: demo_fine)
  then show ?thesis using net_uuids(1) demo_slice_distinct by (simp only: list.set ball_simps case_prod_conv simp_thms)
qed

lemma net_a_path: "\<not> startswith NET_A ''/''" "\<not> startswith NET_B ''/''"
  by (simp_all add: startswith_def)

text \<open>The first pass of a module on a machine that has a key.\<close>

definition keyed_proxy :: "(string \<Rightarrow> string option) proxy" where
  "keyed_proxy = fresh_proxy [HMAC_KEY_PATH \<mapsto> ''k'']"

lemma keyed_world: "pw_world keyed_proxy HMAC_KEY_PATH = Some ''k''" "pw_world keyed_proxy CATALOG_PATH = None" "pw_slices keyed_proxy = []"
  "last_generation (\<lambda>w. w) keyed_proxy = 0"
  using catalog_other_paths(4) by (simp_all add: keyed_proxy_def fresh_proxy_def last_generation_def)

lemma nonce_tmp_not_key: "\<not> startswith n ''/'' \<Longrightarrow> path_join NONCE_DIR n @ ''.tmp'' \<noteq> HMAC_KEY_PATH"
  by (auto simp: NONCE_DIR_def HMAC_KEY_PATH_def path_join_def startswith_def)

lemma nonce_b_other: "path_join NONCE_DIR NET_B @ ''.tmp'' \<notin>
    {CATALOG_PATH, CATALOG_PATH @ ''.tmp'', HMAC_KEY_PATH, path_join NONCE_DIR NET_A, path_join NONCE_DIR NET_A @ ''.tmp''}"
  by (simp add: NONCE_DIR_def HMAC_KEY_PATH_def CATALOG_PATH_def path_join_def startswith_def)

lemma keyed_apply_returns:
  assumes "\<not> startswith n ''/''"
  obtains s' where "proxy_apply_locked mem_px n services keyed_proxy = (Inr (), s')"
proof (rule mem_apply_returns[OF assms])
  show "pw_world keyed_proxy (path_join NONCE_DIR n @ ''.tmp'') = None"
    using nonce_tmp_not_key[OF assms] by (simp add: keyed_proxy_def fresh_proxy_def)
  show "pw_generation keyed_proxy \<noteq> None \<or> pw_world keyed_proxy CATALOG_PATH = None
    \<or> (\<exists>key c. pw_world keyed_proxy CATALOG_PATH = Some (px_body mem_px key c))"
    by (simp add: keyed_world)
qed (rule that)

section \<open>Properties\<close>

text \<open>
  C25. What the plugin publishes for such services the worker accepts: when every slice holds the entries of
  services that are fine on their own, no two services of one network ask for the same listener, and the
  catalog is within the worker's caps, the catalog of their union decodes and passes the validation.
\<close>

theorem fine_services_accepted:
  assumes slices: "\<forall>(n, es) \<in> set slices. validate_uuid n = None \<and> distinct (map (listener_key v6) es)
      \<and> (\<exists>path nonce svcs. es = concat (map (service_entries n path nonce) svcs) \<and> list_all (fine_service v6) svcs)"
    and nets: "distinct (map fst slices)" and g: "0 \<le> g" "g < 2 ^ 64"
    and caps: "length (union_of slices) \<le> MAX_ENTRIES" "sum_list (map (\<lambda>e. length (en_backends e)) (union_of slices)) \<le> MAX_TOTAL_BACKENDS"
  shows "\<exists>wc. decode_catalog v6 \<lparr>cat_version = 1, cat_generation = g, cat_entries = union_of slices\<rparr> = Some wc
    \<and> validate_catalog wc = None \<and> length (wc_entries wc) = length (union_of slices)"
  by (rule accepted_union[OF assms])

theorem fine_services_accepted_witness:
  "\<exists>wc. decode_catalog no_v6 \<lparr>cat_version = 1, cat_generation = 1,
      cat_entries = union_of [(NET_A, concat (map (service_entries NET_A ''p'' ''x'') [demo_service ''169.254.1.1'']))]\<rparr> = Some wc
    \<and> validate_catalog wc = None \<and> length (wc_entries wc) = 1"
proof -
  from fine_services_accepted[OF demo_slices_ok, of "''p''" "''x''" 1] demo_caps[OF refl, of NET_A "''p''" "''x''"]
  show ?thesis by (simp add: union_of_def demo_length)
qed

text \<open>
  C26. A pass reaches the worker: after a pass that returns, the watcher of a worker that read the same key
  loads exactly the union of the slices, provided the catalog passes the validation and the worker's
  generation is not larger than the one the pass took.
\<close>

theorem worker_serves_union:
  assumes ok: "px_ok px files" "\<not> startswith n ''/''" and run: "proxy_apply_locked px n services s = (Inr (), s')"
    and agree: "worker_agrees px env v6" and key: "files (pw_world s) HMAC_KEY_PATH = Some key"
    and dec: "decode_catalog v6 \<lparr>cat_version = 1, cat_generation = last_generation files s + 1, cat_entries = union_of (pw_slices s')\<rparr> = Some wc"
    and valid: "validate_catalog wc = None" and older: "wc_generation cur \<le> wc_generation wc"
  shows "watcher_event env key (files (pw_world s') CATALOG_PATH) cur = wc"
proof -
  obtain key' where "files (pw_world s') CATALOG_PATH = Some (px_body px key'
      \<lparr>cat_version = 1, cat_generation = last_generation files s + 1, cat_entries = union_of (pw_slices s')\<rparr>)" "key' = key"
    using apply_run[OF ok run] key by metis
  then show ?thesis
    using older by (simp add: watcher_event_def load_body[OF agree] dec valid not_less)
qed

theorem worker_serves_union_witness:
  "\<exists>s' wc. proxy_apply_locked mem_px NET_A [demo_service ''169.254.1.1''] keyed_proxy = (Inr (), s')
    \<and> watcher_event (mem_env no_v6) ''k'' (pw_world s' CATALOG_PATH) \<lparr>wc_version = 1, wc_generation = 0, wc_entries = []\<rparr> = wc
    \<and> length (wc_entries wc) = 1 \<and> validate_catalog wc = None"
proof -
  obtain s' where s': "proxy_apply_locked mem_px NET_A [demo_service ''169.254.1.1''] keyed_proxy = (Inr (), s')"
    by (rule keyed_apply_returns[OF net_a_path(1)])
  obtain path nonce entries where es: "entries = concat (map (service_entries NET_A path nonce) [demo_service ''169.254.1.1''])"
    "pw_slices s' = put_slice NET_A entries (pw_slices keyed_proxy)"
    by (rule apply_run[OF mem_px_ok net_a_path(1) s']) blast
  have "entries \<noteq> []" unfolding es(1) by (rule demo_entries)
  then have sl: "pw_slices s' = [(NET_A, concat (map (service_entries NET_A path nonce) [demo_service ''169.254.1.1'']))]"
    unfolding es(2) keyed_world(3) by (simp add: put_slice_def dict_set_def es(1))
  obtain wc where wc: "decode_catalog no_v6 \<lparr>cat_version = 1, cat_generation = 1, cat_entries = union_of (pw_slices s')\<rparr> = Some wc"
      "validate_catalog wc = None" "length (wc_entries wc) = length (union_of (pw_slices s'))"
    using accepted_union[OF demo_slices_ok, of path nonce 1] demo_caps[OF refl, of NET_A path nonce] unfolding sl by (auto simp: union_of_def)
  have "watcher_event (mem_env no_v6) ''k'' (pw_world s' CATALOG_PATH) \<lparr>wc_version = 1, wc_generation = 0, wc_entries = []\<rparr> = wc"
    by (rule worker_serves_union[where files = "\<lambda>w. w", OF mem_px_ok net_a_path(1) s' mem_worker_agrees keyed_world(1)])
      (use wc in \<open>simp_all add: keyed_world(4)\<close>)
  moreover have "length (union_of (pw_slices s')) = 1" by (simp add: sl union_of_def demo_length)
  ultimately show ?thesis using s' wc(2,3) by auto
qed

text \<open>
  C27. One network can freeze the worker for all: when two services attached to a network ask for the same
  VIP, port and protocol, which nothing in the API or the plugin refuses, the worker ignores the catalog
  of that pass and of a later pass of any other network, and keeps serving what it had.
\<close>

theorem duplicate_listener_freezes_worker:
  assumes ok: "px_ok px files" and n: "\<not> startswith n ''/''" and m: "\<not> startswith m ''/''" "m \<noteq> n"
    and run: "proxy_apply_locked px n (xs @ a # ys @ b # zs) s = (Inr (), s1)" and clash: "clash a b"
    and next_run: "proxy_apply_locked px m others s1 = (Inr (), s2)"
    and agree: "worker_agrees px env v6" and key: "files (pw_world s) HMAC_KEY_PATH = Some key"
  shows "watcher_event env key (files (pw_world s1) CATALOG_PATH) cur = cur
    \<and> watcher_event env key (files (pw_world s2) CATALOG_PATH) cur = cur"
proof -
  obtain path nonce key1 es where 1: "es = concat (map (service_entries n path nonce) (xs @ a # ys @ b # zs))"
    "\<And>k. files (pw_world s) HMAC_KEY_PATH = Some k \<Longrightarrow> key1 = k \<and> files (pw_world s1) HMAC_KEY_PATH = Some k"
    "pw_slices s1 = put_slice n es (pw_slices s)"
    "files (pw_world s1) CATALOG_PATH =
      Some (px_body px key1 \<lparr>cat_version = 1, cat_generation = last_generation files s + 1, cat_entries = union_of (pw_slices s1)\<rparr>)"
    by (rule apply_run[OF ok n run]) blast
  obtain key2 es2 where 2: "\<And>k. files (pw_world s1) HMAC_KEY_PATH = Some k \<Longrightarrow> key2 = k \<and> files (pw_world s2) HMAC_KEY_PATH = Some k"
    "pw_slices s2 = put_slice m es2 (pw_slices s1)"
    "files (pw_world s2) CATALOG_PATH =
      Some (px_body px key2 \<lparr>cat_version = 1, cat_generation = last_generation files s1 + 1, cat_entries = union_of (pw_slices s2)\<rparr>)"
    by (rule apply_run[OF ok m(1) next_run]) blast
  have dup: "\<not> distinct (map (listener_key v6) es)" by (rule clash_not_distinct[OF clash 1(1)])
  then have "es \<noteq> []" by auto
  then have slice: "map_of (pw_slices s1) n = Some es" "map_of (pw_slices s2) n = Some es"
    using m(2) by (simp_all add: 1(3) 2(2) put_slice_lookup)
  have keys: "key1 = key" "key2 = key" using 1(2)[OF key] 2(1) by auto
  show ?thesis
    using refused_with_slice[OF agree slice(1) dup] refused_with_slice[OF agree slice(2) dup] by (simp add: 1(4) 2(3) keys)
qed

theorem duplicate_listener_freezes_worker_witness:
  "\<exists>s1 s2. proxy_apply_locked mem_px NET_A [demo_service ''169.254.1.1'', demo_service ''169.254.1.1''] keyed_proxy = (Inr (), s1)
    \<and> proxy_apply_locked mem_px NET_B [demo_service ''169.254.1.1''] s1 = (Inr (), s2)
    \<and> watcher_event (mem_env no_v6) ''k'' (pw_world s2 CATALOG_PATH) \<lparr>wc_version = 1, wc_generation = 0, wc_entries = []\<rparr>
      = \<lparr>wc_version = 1, wc_generation = 0, wc_entries = []\<rparr>"
proof -
  let ?d = "demo_service ''169.254.1.1''"
  have run: "\<exists>s1. proxy_apply_locked mem_px NET_A ([] @ ?d # [] @ ?d # []) keyed_proxy = (Inr (), s1)"
    by (rule keyed_apply_returns[OF net_a_path(1)]) blast
  then obtain s1 where s1: "proxy_apply_locked mem_px NET_A ([] @ ?d # [] @ ?d # []) keyed_proxy = (Inr (), s1)" ..
  obtain g where "pw_generation s1 = Some g" by (rule apply_run[OF mem_px_ok net_a_path(1) s1]) blast
  moreover have "pw_world s1 (path_join NONCE_DIR NET_B @ ''.tmp'') = None"
    using keepsD[OF apply_frame[OF mem_px_ok nonce_b_other] s1] nonce_tmp_not_key[OF net_a_path(2)]
    by (simp add: keyed_proxy_def fresh_proxy_def)
  ultimately obtain s2 where s2: "proxy_apply_locked mem_px NET_B [?d] s1 = (Inr (), s2)"
    by (rule_tac mem_apply_returns[OF net_a_path(2), of s1]) auto
  have "clash ?d ?d"
    by (simp add: clash_def demo_service_def live_backends_def proxy_protocols_def PROTO_TCP_UDP_def PROTO_UDP_def PROTO_TCP_def)
  then have "watcher_event (mem_env no_v6) ''k'' (pw_world s2 CATALOG_PATH) \<lparr>wc_version = 1, wc_generation = 0, wc_entries = []\<rparr>
      = \<lparr>wc_version = 1, wc_generation = 0, wc_entries = []\<rparr>"
    using duplicate_listener_freezes_worker[where files = "\<lambda>w. w", OF mem_px_ok net_a_path _ s1 _ s2 mem_worker_agrees keyed_world(1)] by simp
  then show ?thesis using s1 s2 by auto
qed

end
