(* ===== verification/ProxyRace.thy ===== *)
theory ProxyRace
  imports ProxyWorker
begin

text \<open>
  Passes of the proxy plugin that interleave. The lock of a pass (\<^verbatim>\<open>_apply_lock_for\<close>) is per network, while
  the slices, the generation counter, the temporary file and the catalog are shared by all networks: the
  model has one step per access of a pass to shared state, and one step in which the worker sees a change of the
  catalog file. A catalog file is the generation and the entries it was written from; the worker reads its text as
  ProxyWorker has it, signature, version, validation and comparison of generations included.
\<close>

section \<open>Steps\<close>

text \<open>
  Where the pass of a network is: it has computed its entries, set its slice, taken the union, taken a
  generation, written the temporary file.
\<close>

datatype pass_stage = Idle | Computed "entry list" | SliceSet | Snapshot "entry list" | Numbered "entry list" int | TmpWritten

record catalog_world =
  cw_slices :: "(string \<times> entry list) list"
  cw_generation :: int
  cw_tmp :: "(int \<times> entry list) option"
  cw_disk :: "(int \<times> entry list) option"
  cw_worker :: wire_catalog
  cw_pass :: "string \<Rightarrow> pass_stage"
  cw_raised :: "string list"

datatype event = Begin string "entry list" | Act string | Load

definition goto :: "string \<Rightarrow> pass_stage \<Rightarrow> catalog_world \<Rightarrow> catalog_world" where
  "goto n st w = w\<lparr>cw_pass := (cw_pass w)(n := st)\<rparr>"

text \<open>The accesses: \<^verbatim>\<open>_set_slice\<close>, \<^verbatim>\<open>_all_entries_snapshot\<close> and \<^verbatim>\<open>_next_generation\<close>, each under a lock of its own.\<close>

definition race_set_slice :: "string \<Rightarrow> entry list \<Rightarrow> catalog_world \<Rightarrow> catalog_world" where
  "race_set_slice n es w = goto n SliceSet (w\<lparr>cw_slices := put_slice n es (cw_slices w)\<rparr>)"

definition race_snapshot :: "string \<Rightarrow> catalog_world \<Rightarrow> catalog_world" where
  "race_snapshot n w = goto n (Snapshot (union_of (cw_slices w))) w"

definition race_next_generation :: "string \<Rightarrow> entry list \<Rightarrow> catalog_world \<Rightarrow> catalog_world" where
  "race_next_generation n es w = goto n (Numbered es (cw_generation w + 1)) (w\<lparr>cw_generation := cw_generation w + 1\<rparr>)"

text \<open>
  The write of the temporary file, and \<^verbatim>\<open>os.replace\<close>, which raises \<^verbatim>\<open>FileNotFoundError\<close> when the temporary file is gone.
\<close>

definition race_write_tmp :: "string \<Rightarrow> entry list \<Rightarrow> int \<Rightarrow> catalog_world \<Rightarrow> catalog_world" where
  "race_write_tmp n es g w = goto n TmpWritten (w\<lparr>cw_tmp := Some (g, es)\<rparr>)"

definition race_replace :: "string \<Rightarrow> catalog_world \<Rightarrow> catalog_world" where
  "race_replace n w =
     (case cw_tmp w of
        Some c \<Rightarrow> goto n Idle (w\<lparr>cw_disk := Some c, cw_tmp := None\<rparr>)
      | None \<Rightarrow> goto n Idle (w\<lparr>cw_raised := n # cw_raised w\<rparr>))"

text \<open>The order in which a pass makes them: slice, snapshot, then the catalog with the next generation.\<close>

definition pass_step :: "string \<Rightarrow> catalog_world \<Rightarrow> catalog_world option" where
  "pass_step n w =
     (case cw_pass w n of
        Idle \<Rightarrow> None
      | Computed es \<Rightarrow> Some (race_set_slice n es w)
      | SliceSet \<Rightarrow> Some (race_snapshot n w)
      | Snapshot es \<Rightarrow> Some (race_next_generation n es w)
      | Numbered es g \<Rightarrow> Some (race_write_tmp n es g w)
      | TmpWritten \<Rightarrow> Some (race_replace n w))"

text \<open>The text of the catalog file, and the event of the worker's watcher on it.\<close>

definition disk_text :: "'w px_os \<Rightarrow> string \<Rightarrow> catalog_world \<Rightarrow> string option" where
  "disk_text px key w =
     map_option (\<lambda>(g, es). px_body px key \<lparr>cat_version = 1, cat_generation = g, cat_entries = es\<rparr>) (cw_disk w)"

definition worker_load :: "'w px_os \<Rightarrow> wk_env \<Rightarrow> string \<Rightarrow> catalog_world \<Rightarrow> catalog_world" where
  "worker_load px wenv key w = w\<lparr>cw_worker := watcher_event wenv key (disk_text px key w) (cw_worker w)\<rparr>"

fun step :: "'w px_os \<Rightarrow> wk_env \<Rightarrow> string \<Rightarrow> event \<Rightarrow> catalog_world \<Rightarrow> catalog_world option" where
  "step px wenv key (Begin n es) w = (if cw_pass w n = Idle then Some (goto n (Computed es) w) else None)"
| "step px wenv key (Act n) w = pass_step n w"
| "step px wenv key Load w = Some (worker_load px wenv key w)"

fun run :: "'w px_os \<Rightarrow> wk_env \<Rightarrow> string \<Rightarrow> event list \<Rightarrow> catalog_world \<Rightarrow> catalog_world option" where
  "run px wenv key [] w = Some w"
| "run px wenv key (e # es) w = (case step px wenv key e w of None \<Rightarrow> None | Some w' \<Rightarrow> run px wenv key es w')"

text \<open>At the start there is no catalog file, and the worker has its empty catalog.\<close>

definition start_world :: catalog_world where
  "start_world = \<lparr>cw_slices = [], cw_generation = 0, cw_tmp = None, cw_disk = None,
     cw_worker = \<lparr>wc_version = 1, wc_generation = 0, wc_entries = []\<rparr>, cw_pass = (\<lambda>_. Idle), cw_raised = []\<rparr>"

inductive reachable :: "'w px_os \<Rightarrow> wk_env \<Rightarrow> string \<Rightarrow> catalog_world \<Rightarrow> bool"
  for px :: "'w px_os" and wenv :: wk_env and key :: string where
  start: "reachable px wenv key start_world"
| more: "reachable px wenv key w \<Longrightarrow> step px wenv key e w = Some w' \<Longrightarrow> reachable px wenv key w'"

inductive_cases reachableE: "reachable px wenv key w"

lemma reachable_run: "reachable px wenv key w \<Longrightarrow> run px wenv key es w = Some w' \<Longrightarrow> reachable px wenv key w'"
  by (induction es arbitrary: w) (auto split: option.splits intro: reachable.more)

lemmas pass_defs = pass_step_def race_set_slice_def race_snapshot_def race_next_generation_def race_write_tmp_def race_replace_def goto_def

text \<open>The steps of one pass, from its beginning to its end.\<close>

definition pass_events :: "string \<Rightarrow> entry list \<Rightarrow> event list" where
  "pass_events n es = [Begin n es, Act n, Act n, Act n, Act n, Act n]"

section \<open>Invariant\<close>

definition numbered_below :: "int \<Rightarrow> pass_stage \<Rightarrow> bool" where
  "numbered_below g st \<longleftrightarrow> (case st of Numbered _ h \<Rightarrow> h \<le> g | _ \<Rightarrow> True)"

text \<open>No catalog anywhere carries a generation the counter has not given out.\<close>

definition generations_bounded :: "catalog_world \<Rightarrow> bool" where
  "generations_bounded w \<longleftrightarrow> uint (wc_generation (cw_worker w)) \<le> cw_generation w
     \<and> (\<forall>c. cw_disk w = Some c \<longrightarrow> fst c \<le> cw_generation w) \<and> (\<forall>c. cw_tmp w = Some c \<longrightarrow> fst c \<le> cw_generation w)
     \<and> (\<forall>n. numbered_below (cw_generation w) (cw_pass w n))"

lemma numbered_below_mono: "numbered_below g st \<Longrightarrow> g \<le> h \<Longrightarrow> numbered_below h st"
  by (auto simp: numbered_below_def split: pass_stage.splits)

lemma numbered_below_simps [simp]:
  "numbered_below g Idle" "numbered_below g (Computed es)" "numbered_below g SliceSet" "numbered_below g (Snapshot es)"
  "numbered_below g TmpWritten" "numbered_below g (Numbered es h) \<longleftrightarrow> h \<le> g"
  by (simp_all add: numbered_below_def)

lemma pass_step_bounded:
  assumes inv: "generations_bounded w" and st: "pass_step n w = Some w'"
  shows "generations_bounded w'"
proof (cases "cw_pass w n")
  case (Snapshot es)
  have "numbered_below (cw_generation w + 1) (cw_pass w m)" for m
    using inv numbered_below_mono[of "cw_generation w" _ "cw_generation w + 1"] by (simp add: generations_bounded_def)
  moreover have "x \<le> cw_generation w + 1" if "x \<le> cw_generation w" for x using that by simp
  ultimately show ?thesis using inv st Snapshot by (auto simp: pass_defs generations_bounded_def)
next
  case (Numbered es g)
  then have "g \<le> cw_generation w" using inv by (metis generations_bounded_def numbered_below_simps(6))
  then show ?thesis using inv st Numbered by (auto simp: pass_defs generations_bounded_def)
qed (use inv st in \<open>auto simp: pass_defs generations_bounded_def split: option.splits\<close>)

text \<open>What an event of the watcher does with a catalog file the plugin wrote.\<close>

lemma watcher_on_disk:
  assumes "worker_agrees px wenv v6" "cw_disk w = Some (g, es)"
  shows "watcher_event wenv key (disk_text px key w) cur =
    (case decode_catalog v6 \<lparr>cat_version = 1, cat_generation = g, cat_entries = es\<rparr> of
       None \<Rightarrow> cur
     | Some wc \<Rightarrow> if validate_catalog wc \<noteq> None \<or> wc_generation wc < wc_generation cur then cur else wc)"
  by (simp add: watcher_event_def disk_text_def assms(2) load_body[OF assms(1)] split: option.split)

lemma decoded_generation:
  "decode_catalog v6 c = Some wc \<Longrightarrow> uint (wc_generation wc) = cat_generation c"
  by (auto simp: decode_catalog_def narrow_uint bind_eq_Some_conv)

lemma load_bounded:
  assumes ag: "worker_agrees px wenv v6" and inv: "generations_bounded w"
  shows "generations_bounded (worker_load px wenv key w)"
proof (cases "cw_disk w")
  case None
  then show ?thesis using inv by (simp add: worker_load_def disk_text_def watcher_event_def load_and_verify_def)
next
  case (Some c)
  obtain g es where c: "c = (g, es)" by (cases c)
  have "uint (wc_generation (watcher_event wenv key (disk_text px key w) (cw_worker w))) \<le> cw_generation w"
    using inv Some[unfolded c] decoded_generation[of v6 "\<lparr>cat_version = 1, cat_generation = g, cat_entries = es\<rparr>"]
    by (auto simp: watcher_on_disk[OF ag Some[unfolded c]] generations_bounded_def split: option.split)
  then show ?thesis using inv by (simp add: worker_load_def generations_bounded_def)
qed

lemma step_bounded:
  assumes "worker_agrees px wenv v6" "generations_bounded w" "step px wenv key e w = Some w'"
  shows "generations_bounded w'"
  using assms pass_step_bounded[of w _ w'] load_bounded[OF assms(1,2)]
  by (cases e) (auto simp: goto_def generations_bounded_def split: if_splits)

lemma reachable_bounded:
  assumes "worker_agrees px wenv v6" "reachable px wenv key w"
  shows "generations_bounded w"
  using assms(2)
proof (induction rule: reachable.induct)
  case start
  then show ?case by (simp add: start_world_def generations_bounded_def)
qed (rule step_bounded[OF assms(1)])

lemma lone_pass:
  assumes "cw_pass w n = Idle"
  shows "run px wenv key (pass_events n es) w = Some (w\<lparr>cw_slices := put_slice n es (cw_slices w), cw_generation := cw_generation w + 1, cw_tmp := None,
    cw_disk := Some (cw_generation w + 1, union_of (put_slice n es (cw_slices w)))\<rparr>)"
  using assms by (simp add: pass_events_def pass_defs fun_upd_idem)

lemma run_append: "run px wenv key (es @ fs) w = Option.bind (run px wenv key es w) (run px wenv key fs)"
  by (induction es arbitrary: w) (auto split: option.split)

section \<open>Properties\<close>

text \<open>
  The worker's generation never goes back, in any run from any reachable state, and it is never larger
  than the counter.
\<close>

theorem worker_generation_monotone:
  assumes "worker_agrees px wenv v6" "reachable px wenv key w" "run px wenv key es w = Some w'"
  shows "wc_generation (cw_worker w) \<le> wc_generation (cw_worker w') \<and> uint (wc_generation (cw_worker w')) \<le> cw_generation w'"
proof
  have ev: "wc_generation cur \<le> wc_generation (watcher_event wenv key bytes cur)" for bytes cur
    by (auto simp: watcher_event_def split: sum.split)
  have step: "wc_generation (cw_worker v) \<le> wc_generation (cw_worker v')" if "step px wenv key e v = Some v'" for e v v'
    using that ev by (cases e) (auto simp: pass_defs worker_load_def split: if_splits option.splits pass_stage.splits)
  from assms(3) show "wc_generation (cw_worker w) \<le> wc_generation (cw_worker w')"
  proof (induction es arbitrary: w)
    case (Cons e es)
    then obtain v where "step px wenv key e w = Some v" "run px wenv key es v = Some w'" by (auto split: option.splits)
    with step[of e w v] Cons.IH[of v] show ?case by simp
  qed simp
  show "uint (wc_generation (cw_worker w')) \<le> cw_generation w'"
    using reachable_bounded[OF assms(1) reachable_run[OF assms(2,3)]] by (simp add: generations_bounded_def)
qed

theorem worker_generation_monotone_witness:
  "\<exists>w. run mem_px (mem_env no_v6) ''k'' (pass_events ''a'' [] @ [Load]) start_world = Some w \<and> uint (wc_generation (cw_worker w)) \<le> 1"
proof -
  have idle: "cw_pass start_world ''a'' = Idle" by (simp add: start_world_def)
  have "\<exists>w. run mem_px (mem_env no_v6) ''k'' (pass_events ''a'' [] @ [Load]) start_world = Some w \<and> cw_generation w = 1"
    by (simp add: run_append lone_pass[OF idle] worker_load_def) (simp add: start_world_def)
  then obtain w where w: "run mem_px (mem_env no_v6) ''k'' (pass_events ''a'' [] @ [Load]) start_world = Some w" "cw_generation w = 1" by blast
  from worker_generation_monotone[OF mem_worker_agrees reachable.start w(1)] w show ?thesis by auto
qed

text \<open>
  C30. A pass that is not interrupted repairs the catalog: from every reachable state in which the network
  has no pass under way, whatever the other passes have done, the steps of its pass can all be taken and leave on disk, under the
  newest generation, the union of all slices, its own among them. The next event of the worker makes it serve exactly that catalog
  when it can be decoded and passes validation, whatever catalog the worker had; otherwise the worker keeps the one it had.
\<close>

theorem lone_pass_repairs:
  assumes "worker_agrees px wenv v6" "reachable px wenv key w" "cw_pass w n = Idle"
  shows "\<exists>w'. run px wenv key (pass_events n es @ [Load]) w = Some w'
    \<and> map_of (cw_slices w') = (map_of (cw_slices w))(n := if es = [] then None else Some es)
    \<and> cw_disk w' = Some (cw_generation w', union_of (cw_slices w')) \<and> cw_raised w' = cw_raised w
    \<and> cw_worker w' =
        (case decode_catalog v6 \<lparr>cat_version = 1, cat_generation = cw_generation w', cat_entries = union_of (cw_slices w')\<rparr> of
           Some wc \<Rightarrow> if validate_catalog wc = None then wc else cw_worker w
         | None \<Rightarrow> cw_worker w)"
proof -
  let ?es = "union_of (put_slice n es (cw_slices w))"
  let ?w = "w\<lparr>cw_slices := put_slice n es (cw_slices w), cw_generation := cw_generation w + 1, cw_tmp := None, cw_disk := Some (cw_generation w + 1, ?es)\<rparr>"
  have newest: "\<not> wc_generation wc < wc_generation (cw_worker w)"
    if "decode_catalog v6 \<lparr>cat_version = 1, cat_generation = cw_generation w + 1, cat_entries = ?es\<rparr> = Some wc" for wc
    using decoded_generation[OF that] reachable_bounded[OF assms(1,2)] by (simp add: generations_bounded_def word_less_def)
  have "run px wenv key (pass_events n es @ [Load]) w = Some (worker_load px wenv key ?w)"
    by (simp add: run_append lone_pass[OF assms(3)])
  moreover have "cw_worker (worker_load px wenv key ?w) =
      (case decode_catalog v6 \<lparr>cat_version = 1, cat_generation = cw_generation w + 1, cat_entries = ?es\<rparr> of
           Some wc \<Rightarrow> if validate_catalog wc = None then wc else cw_worker w
         | None \<Rightarrow> cw_worker w)"
    using newest by (simp add: worker_load_def watcher_on_disk[OF assms(1)] split: option.split)
  ultimately show ?thesis
    by (intro exI[of _ "worker_load px wenv key ?w"]) (simp add: worker_load_def put_slice_lookup)
qed

text \<open>In the witness the worker accepts the catalog and serves its one listener.\<close>

theorem lone_pass_repairs_witness:
  "\<exists>w'. run mem_px (mem_env no_v6) ''k'' (pass_events NET_A (concat (map (service_entries NET_A [] []) [demo_service ''169.254.1.1''])) @ [Load]) start_world = Some w'
    \<and> length (wc_entries (cw_worker w')) = 1 \<and> validate_catalog (cw_worker w') = None"
proof -
  let ?es = "concat (map (service_entries NET_A [] []) [demo_service ''169.254.1.1''])"
  have idle: "cw_pass start_world NET_A = Idle" by (simp add: start_world_def)
  obtain w' where w': "run mem_px (mem_env no_v6) ''k'' (pass_events NET_A ?es @ [Load]) start_world = Some w'"
      "cw_worker w' = (case decode_catalog no_v6 \<lparr>cat_version = 1, cat_generation = cw_generation w', cat_entries = union_of (cw_slices w')\<rparr> of
           Some wc \<Rightarrow> if validate_catalog wc = None then wc else cw_worker start_world
         | None \<Rightarrow> cw_worker start_world)"
    using lone_pass_repairs[OF mem_worker_agrees[of no_v6] reachable.start idle, where key = "''k''" and es = ?es] by blast
  have "w' = worker_load mem_px (mem_env no_v6) ''k'' (start_world\<lparr>cw_slices := put_slice NET_A ?es [],
      cw_generation := 1, cw_disk := Some (1, union_of (put_slice NET_A ?es []))\<rparr>)"
    using w'(1) by (simp add: run_append lone_pass[OF idle] del: concat.simps list.map) (simp add: start_world_def)
  moreover have "put_slice NET_A ?es [] = [(NET_A, ?es)]"
    using demo_entries[of NET_A "[]" "[]"] unfolding put_slice_def dict_set_def by (simp del: concat.simps list.map)
  ultimately have w: "cw_generation w' = 1" "cw_slices w' = [(NET_A, ?es)]" by (simp_all add: worker_load_def del: concat.simps list.map)
  obtain wc where "decode_catalog no_v6 \<lparr>cat_version = 1, cat_generation = 1, cat_entries = union_of [(NET_A, ?es)]\<rparr> = Some wc"
      "validate_catalog wc = None" "length (wc_entries wc) = length (union_of [(NET_A, ?es)])"
    using accepted_union[OF demo_slices_ok, of "[]" "[]" 1] demo_caps[OF refl, of NET_A "[]" "[]"] by (auto simp: union_of_def)
  moreover have "length (union_of [(NET_A, ?es)]) = 1" by (simp add: union_of_def demo_length)
  ultimately show ?thesis using w'(1,2) unfolding w by auto
qed

text \<open>
  C31. The generation does not protect against a concurrent pass, because it is taken after the snapshot, and
  the temporary file is shared. Passes of two networks have an interleaving after which both have
  returned, both slices are set, and the catalog on disk has, under the newest generation, only the first network; the worker
  serves that catalog if it accepts it. And there is one after which the first has raised, the catalog on disk is the
  older one, and the worker, if it accepts it, serves no entry of the second network although its pass returned.
\<close>

theorem interleaved_passes_lose_updates:
  assumes "m \<noteq> n" and ag: "worker_agrees px wenv v6"
  shows "(\<exists>sched w. run px wenv key ([Begin m [e], Begin n [f]] @ sched) start_world = Some w \<and> cw_pass w m = Idle \<and> cw_pass w n = Idle
      \<and> cw_raised w = [] \<and> union_of (cw_slices w) = [e, f] \<and> cw_disk w = Some (cw_generation w, [e])
      \<and> (\<forall>wc. decode_catalog v6 \<lparr>cat_version = 1, cat_generation = cw_generation w, cat_entries = [e]\<rparr> = Some wc
            \<and> validate_catalog wc = None \<longrightarrow> cw_worker w = wc))
    \<and> (\<exists>sched w. run px wenv key ([Begin m [e], Begin n [f]] @ sched) start_world = Some w \<and> cw_pass w m = Idle \<and> cw_pass w n = Idle
      \<and> cw_raised w = [m] \<and> union_of (cw_slices w) = [e, f] \<and> cw_disk w = Some (1, [e]) \<and> cw_generation w = 2
      \<and> (\<forall>wc. decode_catalog v6 \<lparr>cat_version = 1, cat_generation = 1, cat_entries = [e]\<rparr> = Some wc
            \<and> validate_catalog wc = None \<longrightarrow> cw_worker w = wc))"
proof
  let ?idle = "\<lambda>_ :: string. Idle" and ?none = "\<lparr>wc_version = 1, wc_generation = 0, wc_entries = []\<rparr>"
  let ?slices = "[(m, [e]), (n, [f])]"
  have idles: "?idle(x := Idle, y := Idle) = ?idle" for x y by auto
  have gen: "uint (wc_generation wc) = g" if "decode_catalog v6 \<lparr>cat_version = 1, cat_generation = g, cat_entries = es\<rparr> = Some wc" for g es wc
    using decoded_generation[OF that] by simp
  define u1 where "u1 = \<lparr>cw_slices = ?slices, cw_generation = 1, cw_tmp = None, cw_disk = Some (1, [e, f]), cw_worker = ?none,
     cw_pass = ?idle(m := Snapshot [e]), cw_raised = []\<rparr>"
  have "run px wenv key ([Begin m [e], Begin n [f]] @ [Act m, Act m, Act n, Act n, Act n, Act n, Act n]) start_world = Some u1"
    using assms(1) by (simp add: start_world_def u1_def pass_defs put_slice_def dict_set_def union_of_def fun_upd_twist fun_eq_iff)
  moreover define u2 where "u2 = worker_load px wenv key u1"
  have u2: "u2 = u1\<lparr>cw_worker := cw_worker u2\<rparr>" by (simp add: u2_def worker_load_def)
  have "uint (wc_generation (cw_worker u2)) \<le> 1"
    using gen[of 1 "[e, f]"] by (auto simp: u2_def worker_load_def watcher_on_disk[OF ag, of _ 1 "[e, f]"] u1_def split: option.split)
  moreover define u3 where "u3 = u2\<lparr>cw_generation := 2, cw_disk := Some (2, [e]), cw_pass := ?idle\<rparr>"
  have "run px wenv key [Act m, Act m, Act m] u2 = Some u3"
    by (subst u2) (auto simp: u3_def u1_def pass_defs fun_eq_iff u2_def worker_load_def)
  moreover define w where "w = worker_load px wenv key u3"
  ultimately have run: "run px wenv key ([Begin m [e], Begin n [f]] @ [Act m, Act m, Act n, Act n, Act n, Act n, Act n] @ [Load] @ [Act m, Act m, Act m] @ [Load]) start_world = Some w"
    unfolding append_assoc[symmetric] by (simp only: run_append bind.simps) (simp add: u2_def w_def)
  have w: "cw_pass w = ?idle" "cw_raised w = []" "cw_slices w = ?slices" "cw_generation w = 2" "cw_disk w = Some (2, [e])"
    by (simp_all add: w_def u3_def u2_def u1_def worker_load_def)
  have "cw_worker w = wc" if "decode_catalog v6 \<lparr>cat_version = 1, cat_generation = 2, cat_entries = [e]\<rparr> = Some wc" "validate_catalog wc = None" for wc
  proof -
    have "\<not> wc_generation wc < wc_generation (cw_worker u2)"
      using gen[OF that(1)] \<open>uint (wc_generation (cw_worker u2)) \<le> 1\<close> by (simp add: word_less_def)
    then show ?thesis using that by (simp add: w_def worker_load_def watcher_on_disk[OF ag, of _ 2 "[e]"] u3_def)
  qed
  then show "\<exists>sched w. run px wenv key ([Begin m [e], Begin n [f]] @ sched) start_world = Some w \<and> cw_pass w m = Idle \<and> cw_pass w n = Idle
      \<and> cw_raised w = [] \<and> union_of (cw_slices w) = [e, f] \<and> cw_disk w = Some (cw_generation w, [e])
      \<and> (\<forall>wc. decode_catalog v6 \<lparr>cat_version = 1, cat_generation = cw_generation w, cat_entries = [e]\<rparr> = Some wc
            \<and> validate_catalog wc = None \<longrightarrow> cw_worker w = wc)"
    using run w by (intro exI[of _ "[Act m, Act m, Act n, Act n, Act n, Act n, Act n] @ [Load] @ [Act m, Act m, Act m] @ [Load]"] exI[of _ w])
      (simp add: union_of_def)
  define v1 where "v1 = \<lparr>cw_slices = ?slices, cw_generation = 2, cw_tmp = None, cw_disk = Some (1, [e]), cw_worker = ?none,
     cw_pass = ?idle, cw_raised = [m]\<rparr>"
  have run': "run px wenv key ([Begin m [e], Begin n [f]] @ [Act m, Act m, Act m, Act n, Act n, Act n, Act n, Act m, Act n, Act m, Load]) start_world
      = Some (worker_load px wenv key v1)"
    using assms(1) by (simp add: start_world_def v1_def pass_defs put_slice_def dict_set_def union_of_def fun_upd_twist idles)
  have "cw_worker (worker_load px wenv key v1) = wc"
    if "decode_catalog v6 \<lparr>cat_version = 1, cat_generation = 1, cat_entries = [e]\<rparr> = Some wc" "validate_catalog wc = None" for wc
    using that by (simp add: worker_load_def watcher_on_disk[OF ag, of _ 1 "[e]"] v1_def word_less_def)
  then show "\<exists>sched w. run px wenv key ([Begin m [e], Begin n [f]] @ sched) start_world = Some w \<and> cw_pass w m = Idle \<and> cw_pass w n = Idle
      \<and> cw_raised w = [m] \<and> union_of (cw_slices w) = [e, f] \<and> cw_disk w = Some (1, [e]) \<and> cw_generation w = 2
      \<and> (\<forall>wc. decode_catalog v6 \<lparr>cat_version = 1, cat_generation = 1, cat_entries = [e]\<rparr> = Some wc
            \<and> validate_catalog wc = None \<longrightarrow> cw_worker w = wc)"
    using run' by (intro exI[of _ "[Act m, Act m, Act m, Act n, Act n, Act n, Act n, Act m, Act n, Act m, Load]"] exI[of _ "worker_load px wenv key v1"])
      (simp add: worker_load_def v1_def union_of_def)
qed

theorem interleaved_passes_lose_updates_witness:
  "\<exists>sched w. run mem_px (mem_env no_v6) ''k'' ([Begin ''a'' [entry_for ''a'' (demo_service ''169.254.1.1'') ''udp'' [] []],
      Begin ''b'' [entry_for ''b'' (demo_service ''169.254.1.2'') ''udp'' [] []]] @ sched) start_world = Some w
    \<and> cw_raised w = [] \<and> length (union_of (cw_slices w)) = 2
    \<and> cw_disk w = Some (cw_generation w, [entry_for ''a'' (demo_service ''169.254.1.1'') ''udp'' [] []])"
proof -
  have "''a'' \<noteq> ''b''" by simp
  from interleaved_passes_lose_updates[OF this mem_worker_agrees[of no_v6], where key = "''k''" and e = "entry_for ''a'' (demo_service ''169.254.1.1'') ''udp'' [] []"
      and f = "entry_for ''b'' (demo_service ''169.254.1.2'') ''udp'' [] []", THEN conjunct1]
  show ?thesis by (elim exE conjE) (intro exI conjI, assumption, simp_all)
qed

text \<open>
  C29. The steps are those of the code: a pass of the plugin that returns does to the slices, the
  generation and the catalog file what the steps of a pass that is not interrupted do.
\<close>

theorem pass_refines_steps:
  assumes ok: "px_ok px files" "\<not> startswith n ''/''" and returned: "proxy_apply_locked px n services s = (Inr (), s')"
    and same: "cw_slices w = pw_slices s" "cw_generation w = last_generation files s" and idle: "cw_pass w n = Idle"
  shows "\<exists>path nonce key w'. run px wenv wkey (pass_events n (concat (map (service_entries n path nonce) services))) w = Some w'
    \<and> cw_slices w' = pw_slices s' \<and> cw_generation w' = last_generation files s' \<and> cw_pass w' n = Idle
    \<and> (\<exists>g es. cw_disk w' = Some (g, es)
        \<and> files (pw_world s') CATALOG_PATH = Some (px_body px key \<lparr>cat_version = 1, cat_generation = g, cat_entries = es\<rparr>))"
proof -
  obtain path nonce key entries where *: "entries = concat (map (service_entries n path nonce) services)"
    "pw_slices s' = put_slice n entries (pw_slices s)"
    "files (pw_world s') CATALOG_PATH =
      Some (px_body px key \<lparr>cat_version = 1, cat_generation = last_generation files s + 1, cat_entries = union_of (pw_slices s')\<rparr>)"
    "pw_generation s' = Some (last_generation files s + 1)"
    by (rule apply_run[OF ok returned]) blast
  have "last_generation files s' = last_generation files s + 1" by (simp add: last_generation_def *(4))
  then show ?thesis
    using *(2,3) same idle by (intro exI[of _ path] exI[of _ nonce] exI[of _ key]) (simp add: lone_pass[OF idle] *(1)[symmetric])
qed

theorem pass_refines_steps_witness:
  "\<exists>s' w'. proxy_apply_locked mem_px ''net-1'' [demo_service ''169.254.1.1''] (fresh_proxy Map.empty) = (Inr (), s')
    \<and> cw_slices w' = pw_slices s' \<and> cw_generation w' = last_generation (\<lambda>w. w) s' \<and> reachable mem_px (mem_env no_v6) ''k'' w'"
proof -
  have n: "\<not> startswith ''net-1'' ''/''" by (simp add: startswith_def)
  obtain s' where s': "proxy_apply_locked mem_px ''net-1'' [demo_service ''169.254.1.1''] (fresh_proxy Map.empty) = (Inr (), s')"
    by (rule mem_apply_returns[OF n, of "fresh_proxy Map.empty"]) (auto simp: fresh_proxy_def)
  have "cw_slices start_world = pw_slices (fresh_proxy Map.empty)" "cw_generation start_world = last_generation (\<lambda>w. w) (fresh_proxy Map.empty)"
      "cw_pass start_world ''net-1'' = Idle"
    by (simp_all add: start_world_def fresh_proxy_def last_generation_def)
  from pass_refines_steps[OF mem_px_ok n s' this] s' show ?thesis using reachable_run[OF reachable.start] by blast
qed

end
