(* ===== verification/ProxyControl.thy ===== *)
theory ProxyControl
  imports ProxyPlugin
begin

text \<open>
  The proxy plugin's conversations with the worker (\<^verbatim>\<open>agent/plugins/proxy.py\<close>): frames on the control
  socket, the admin token, the scrape of the health of the backends. What a stream socket delivers is a
  list of segments, however the peer's bytes were cut; \<^verbatim>\<open>recv(k)\<close> takes at most \<open>k\<close> bytes of the first.
\<close>

section \<open>Frames\<close>

fun recv :: "nat \<Rightarrow> string list \<Rightarrow> string \<times> string list" where
  "recv k [] = ([], [])"
| "recv k (s # ss) = (if s = [] then recv k ss else (take k s, if drop k s = [] then ss else drop k s # ss))"

lemma recv_concat: "recv k segs = (chunk, rest) \<Longrightarrow> concat segs = chunk @ concat rest"
  by (induction k segs rule: recv.induct) (auto split: if_splits)

lemma recv_length: "recv k segs = (chunk, rest) \<Longrightarrow> length chunk \<le> k"
  by (induction k segs rule: recv.induct) (auto split: if_splits)

lemma recv_eof: "0 < k \<Longrightarrow> recv k segs = ([], rest) \<Longrightarrow> concat segs = []"
  by (induction k segs rule: recv.induct) (auto split: if_splits)

function recv_loop :: "nat \<Rightarrow> string \<Rightarrow> string list \<Rightarrow> (exc + string) \<times> string list" where
  "recv_loop n out segs =
     (if n \<le> length out then (Inr out, segs)
      else
        (case recv (n - length out) segs of
           (chunk, rest) \<Rightarrow>
             if chunk = [] then (Inl (OSError ''eof from worker control socket''), rest)
             else recv_loop n (out @ chunk) rest))"
  by pat_completeness auto
termination
  by (relation "measure (\<lambda>(n, out, segs). n - length out)") (auto intro!: diff_less_mono2)

declare recv_loop.simps [simp del]

definition recv_exactly :: "nat \<Rightarrow> string list \<Rightarrow> (exc + string) \<times> string list" where
  "recv_exactly n segs = recv_loop n [] segs"

text \<open>\<^verbatim>\<open>struct.pack('>I', n)\<close>, which raises on a number of more than 32 bits, and \<^verbatim>\<open>struct.unpack\<close>.\<close>

definition pack_u32 :: "nat \<Rightarrow> string option" where
  "pack_u32 n =
     (if n < 2 ^ 32 then Some [char_of (n div 2 ^ 24), char_of (n div 2 ^ 16), char_of (n div 2 ^ 8), char_of n] else None)"

definition unpack_u32 :: "string \<Rightarrow> nat" where
  "unpack_u32 s = foldl (\<lambda>acc c. acc * 256 + of_char c) 0 s"

definition read_frame :: "string list \<Rightarrow> (exc + string) \<times> string list" where
  "read_frame segs =
     (case recv_exactly 4 segs of
        (Inl e, rest) \<Rightarrow> (Inl e, rest)
      | (Inr hdr, rest) \<Rightarrow> recv_exactly (unpack_u32 hdr) rest)"

section \<open>Control requests\<close>

text \<open>
  \<open>ct_send data fd\<close> sends bytes, the second argument naming the namespace whose descriptor is attached;
  \<open>ct_receive\<close> is what the socket delivers until the peer closes it or the plugin has read enough.
\<close>

record 'w ctl =
  ct_connect :: "string \<Rightarrow> ('w, unit) act"
  ct_send :: "string \<Rightarrow> string option \<Rightarrow> ('w, unit) act"
  ct_receive :: "('w, string list) act"

definition PROXY_RUN_DIR :: string where "PROXY_RUN_DIR = ''/var/run/neutron-local-services/_proxy''"
definition CONTROL_SOCKET :: string where "CONTROL_SOCKET = path_join PROXY_RUN_DIR ''control.sock''"
definition ADMIN_SOCKET :: string where "ADMIN_SOCKET = path_join PROXY_RUN_DIR ''admin.sock''"
definition ADMIN_TOKEN_PATH :: string where "ADMIN_TOKEN_PATH = path_join PROXY_STATE_DIR ''admin.token''"

text \<open>\<^verbatim>\<open>json.dumps({'op': op, 'net_id': net_id})\<close>.\<close>

definition request_text :: "string \<Rightarrow> string \<Rightarrow> string" where
  "request_text op net_id =
     CHR ''{'' # quoted ''op'' @ '': '' @ quoted op @ '', '' @ quoted ''net_id'' @ '': '' @ quoted net_id @ ''}''"

definition read_answer :: "'w ctl \<Rightarrow> ('w, json) act" where
  "read_answer ctl =
     bnd (ct_receive ctl) (\<lambda>segs.
       case fst (read_frame segs) of
         Inl e \<Rightarrow> raise e
       | Inr body \<Rightarrow> (case loads body of None \<Rightarrow> raise ValueError | Some j \<Rightarrow> ret j))"

definition send_control :: "'w ctl \<Rightarrow> string \<Rightarrow> ('w, json) act" where
  "send_control ctl body =
     andthen (ct_connect ctl CONTROL_SOCKET)
       (case pack_u32 (length body) of
          None \<Rightarrow> raise (Foreign ''struct.error'')
        | Some hdr \<Rightarrow> andthen (ct_send ctl (hdr @ body) None) (read_answer ctl))"

definition send_control_with_fd :: "'w ctl \<Rightarrow> string \<Rightarrow> string \<Rightarrow> ('w, json) act" where
  "send_control_with_fd ctl body fd =
     andthen (ct_connect ctl CONTROL_SOCKET)
       (case pack_u32 (length body) of
          None \<Rightarrow> raise (Foreign ''struct.error'')
        | Some hdr \<Rightarrow>
            andthen (ct_send ctl hdr None) (andthen (ct_send ctl body (Some fd)) (read_answer ctl)))"

section \<open>The health of backends\<close>

text \<open>\<^verbatim>\<open>v.get(k, default)\<close> and iteration over a parsed value.\<close>

definition jget :: "json \<Rightarrow> string \<Rightarrow> json \<Rightarrow> ('w, json) act" where
  "jget v k dflt =
     (case v of
        JObj kvs \<Rightarrow> ret (case obj_get kvs k of None \<Rightarrow> dflt | Some x \<Rightarrow> x)
      | _ \<Rightarrow> raise AttributeError)"

definition jiter :: "json \<Rightarrow> ('w, json list) act" where
  "jiter v =
     (case v of
        JArr xs \<Rightarrow> ret xs
      | JObj kvs \<Rightarrow> ret (map (\<lambda>kv. JStr (fst kv)) kvs)
      | JStr s \<Rightarrow> ret (map (\<lambda>c. JStr [c]) s)
      | _ \<Rightarrow> raise (Foreign ''TypeError''))"

text \<open>\<^verbatim>\<open>str(v)\<close>; \<open>rep\<close> stands for the text of lists and dicts.\<close>

fun py_str :: "(json \<Rightarrow> string) \<Rightarrow> json \<Rightarrow> string" where
  "py_str rep JNull = ''None''"
| "py_str rep (JBool b) = (if b then ''True'' else ''False'')"
| "py_str rep (JInt n) = str_int n"
| "py_str rep (JStr s) = s"
| "py_str rep v = rep v"

definition host_matches :: "(json \<Rightarrow> string) \<Rightarrow> string \<Rightarrow> json \<Rightarrow> json \<Rightarrow> bool" where
  "host_matches rep backend_id addr port =
     (backend_id = py_str rep addr \<or> backend_id = py_str rep addr @ '':'' @ py_str rep port)"

definition health_of :: "json \<Rightarrow> string" where
  "health_of eds = (if eds = JStr ''HEALTHY'' then ''up'' else if eds = JStr ''UNHEALTHY'' then ''down'' else ''unknown'')"

fun scan_hosts :: "(json \<Rightarrow> string) \<Rightarrow> string \<Rightarrow> json list \<Rightarrow> ('w, string option) act" where
  "scan_hosts rep backend_id [] = ret None"
| "scan_hosts rep backend_id (host # hosts) =
     bnd (jget host ''address'' (JObj [])) (\<lambda>a1. bnd (jget a1 ''socket_address'' (JObj [])) (\<lambda>a2. bnd (jget a2 ''address'' JNull) (\<lambda>addr.
     bnd (jget host ''address'' (JObj [])) (\<lambda>p1. bnd (jget p1 ''socket_address'' (JObj [])) (\<lambda>p2. bnd (jget p2 ''port_value'' JNull) (\<lambda>port.
       if host_matches rep backend_id addr port then
         bnd (jget host ''health_status'' (JObj [])) (\<lambda>h. bnd (jget h ''eds_health_status'' JNull) (\<lambda>eds. ret (Some (health_of eds))))
       else scan_hosts rep backend_id hosts))))))"

fun scan_clusters :: "(json \<Rightarrow> string) \<Rightarrow> string \<Rightarrow> string \<Rightarrow> json list \<Rightarrow> ('w, string) act" where
  "scan_clusters rep service_id backend_id [] = ret ''unknown''"
| "scan_clusters rep service_id backend_id (cluster # clusters) =
     bnd (jget cluster ''name'' JNull) (\<lambda>name.
       if name \<noteq> JStr service_id then scan_clusters rep service_id backend_id clusters
       else
         bnd (jget cluster ''host_statuses'' (JArr [])) (\<lambda>hs. bnd (jiter hs) (\<lambda>hosts.
         bnd (scan_hosts rep backend_id hosts) (\<lambda>found.
           case found of Some h \<Rightarrow> ret h | None \<Rightarrow> scan_clusters rep service_id backend_id clusters))))"

definition read_or_create_admin_token :: "'w px_os \<Rightarrow> ('w, string) act" where
  "read_or_create_admin_token px =
     bnd (gets (\<lambda>w. px_isfile px w ADMIN_TOKEN_PATH)) (\<lambda>there.
       if there then bnd (px_read px ADMIN_TOKEN_PATH) (\<lambda>s. ret (strip s))
       else
         andthen (px_makedirs px PROXY_STATE_DIR)
         (bnd (px_secret px) (\<lambda>token. andthen (px_create_excl px ADMIN_TOKEN_PATH (token @ [NEWLINE])) (ret token))))"

abbreviation CRLF :: string where "CRLF \<equiv> [CHR 0x0D, CHR 0x0A]"

definition scrape_request :: "string \<Rightarrow> string" where
  "scrape_request token =
     ''GET /clusters?format=json HTTP/1.1'' @ CRLF @ ''Host: localhost'' @ CRLF
     @ ''Authorization: Bearer '' @ token @ CRLF @ ''Connection: close'' @ CRLF @ CRLF"

definition scrape_clusters_json :: "'w px_os \<Rightarrow> 'w ctl \<Rightarrow> ('w, json) act" where
  "scrape_clusters_json px ctl =
     bnd (read_or_create_admin_token px) (\<lambda>token.
     andthen (ct_connect ctl ADMIN_SOCKET)
     (andthen (ct_send ctl (scrape_request token) None)
     (bnd (ct_receive ctl) (\<lambda>chunks.
        case find_sub (CRLF @ CRLF) (concat chunks) of
          None \<Rightarrow> raise (OSError ''no http body separator'')
        | Some (head, body) \<Rightarrow> (case loads body of None \<Rightarrow> raise ValueError | Some j \<Rightarrow> ret j)))))"

definition get_backend_health :: "(json \<Rightarrow> string) \<Rightarrow> 'w px_os \<Rightarrow> 'w ctl \<Rightarrow> string \<Rightarrow> string \<Rightarrow> string \<Rightarrow> ('w, string) act" where
  "get_backend_health rep px ctl ns_name service_id backend_id =
     bnd (attempt (bnd (scrape_clusters_json px ctl) (\<lambda>j. ret (Some j))) (\<lambda>e. ret None)) (\<lambda>data.
       case data of
         None \<Rightarrow> ret ''unknown''
       | Some d \<Rightarrow>
           bnd (jget d ''cluster_statuses'' (JArr [])) (\<lambda>cs. bnd (jiter cs) (scan_clusters rep service_id backend_id)))"

section \<open>Lemmas\<close>

abbreviation EOF :: exc where "EOF \<equiv> OSError ''eof from worker control socket''"

lemma recv_loop_spec:
  assumes "length out \<le> n"
  shows "(n - length out \<le> length (concat segs) \<longrightarrow>
      (\<exists>rest. recv_loop n out segs = (Inr (out @ take (n - length out) (concat segs)), rest) \<and> concat rest = drop (n - length out) (concat segs)))
    \<and> (length (concat segs) < n - length out \<longrightarrow> fst (recv_loop n out segs) = Inl EOF)"
  using assms
proof (induction n out segs rule: recv_loop.induct)
  case (1 n out segs)
  show ?case
  proof (cases "n \<le> length out")
    case True
    with 1 show ?thesis by (simp add: recv_loop.simps[of n out segs])
  next
    case False
    obtain chunk rest where r: "recv (n - length out) segs = (chunk, rest)" by fastforce
    have c: "concat segs = chunk @ concat rest" and l: "length chunk \<le> n - length out"
      using recv_concat[OF r] recv_length[OF r] by auto
    show ?thesis
    proof (cases "chunk = []")
      case True
      then have "concat segs = []" using recv_eof[of "n - length out" segs rest] r False by auto
      then show ?thesis using False r True by (simp add: recv_loop.simps[of n out segs] del: concat_eq_Nil_conv)
    next
      case chunk: False
      have loop: "recv_loop n out segs = recv_loop n (out @ chunk) rest"
        using False r chunk by (simp add: recv_loop.simps[of n out segs])
      have "length (out @ chunk) \<le> n" using l False by simp
      from "1.IH"[OF False r[symmetric] chunk this] show ?thesis
        using l False by (auto simp: loop c)
    qed
  qed
qed

lemma recv_exactly_ok: "n \<le> length (concat segs) \<Longrightarrow> \<exists>rest. recv_exactly n segs = (Inr (take n (concat segs)), rest) \<and> concat rest = drop n (concat segs)"
  using recv_loop_spec[of "[]" n segs] by (simp add: recv_exactly_def)

lemma recv_exactly_eof: "length (concat segs) < n \<Longrightarrow> fst (recv_exactly n segs) = Inl EOF"
  using recv_loop_spec[of "[]" n segs] by (simp add: recv_exactly_def)

lemma unpack_pack: "pack_u32 n = Some hdr \<Longrightarrow> length hdr = 4 \<and> unpack_u32 hdr = n"
proof -
  assume "pack_u32 n = Some hdr"
  then have n: "n < 2 ^ 32" and hdr: "hdr = [char_of (n div 2 ^ 24), char_of (n div 2 ^ 16), char_of (n div 2 ^ 8), char_of n]"
    by (auto simp: pack_u32_def split: if_splits)
  have d: "n div 65536 = n div 256 div 256" "n div 16777216 = n div 256 div 256 div 256"
    by (simp_all only: div_mult2_eq[symmetric]) simp_all
  have "n div 16777216 < 256" using n by (intro less_mult_imp_div_less) simp
  then have "n div 256 div 256 div 256 mod 256 = n div 256 div 256 div 256" by (simp add: d)
  then have "((n div 16777216 mod 256 * 256 + n div 65536 mod 256) * 256 + n div 256 mod 256) * 256 + n mod 256 = n"
    unfolding d by (simp only: div_mult_mod_eq)
  moreover have "n div 16777216 mod 256 = n div 16777216" using \<open>n div 16777216 < 256\<close> by simp
  ultimately show ?thesis by (simp add: hdr unpack_u32_def)
qed

text \<open>The document of the worker's \<^verbatim>\<open>/clusters\<close> (\<^verbatim>\<open>proxy/worker/src/admin.rs\<close>): per service the hosts, each with
  its address, port, status and weight.\<close>

type_synonym host_row = "string \<times> int \<times> string \<times> int"

definition host_doc :: "host_row \<Rightarrow> json" where
  "host_doc h = (case h of (a, p, st, wt) \<Rightarrow>
     JObj [(''address'', JObj [(''socket_address'', JObj [(''address'', JStr a), (''port_value'', JInt p)])]),
       (''health_status'', JObj [(''eds_health_status'', JStr st)]), (''weight'', JInt wt)])"

definition cluster_doc :: "string \<times> host_row list \<Rightarrow> json" where
  "cluster_doc c = JObj [(''host_statuses'', JArr (map host_doc (snd c))), (''name'', JStr (fst c))]"

definition clusters_doc :: "(string \<times> host_row list) list \<Rightarrow> json" where
  "clusters_doc cs = JObj [(''cluster_statuses'', JArr (map cluster_doc cs))]"

definition row_matches :: "string \<Rightarrow> host_row \<Rightarrow> bool" where
  "row_matches backend_id h = (case h of (a, p, _) \<Rightarrow> backend_id = a \<or> backend_id = a @ '':'' @ str_int p)"

definition row_health :: "host_row \<Rightarrow> string" where
  "row_health h = (case h of (_, _, st, _) \<Rightarrow> if st = ''HEALTHY'' then ''up'' else if st = ''UNHEALTHY'' then ''down'' else ''unknown'')"

definition reported_health :: "(string \<times> host_row list) list \<Rightarrow> string \<Rightarrow> string \<Rightarrow> string" where
  "reported_health cs service_id backend_id =
     (case find (row_matches backend_id) (concat (map snd (filter (\<lambda>c. fst c = service_id) cs))) of
        None \<Rightarrow> ''unknown''
      | Some h \<Rightarrow> row_health h)"

lemma bnd_ret: "bnd (ret x) f = f x"
  by (simp add: fun_eq_iff bnd_def)

lemma scan_hosts_doc:
  "scan_hosts rep backend_id (map host_doc hs) = ret (map_option row_health (find (row_matches backend_id) hs))"
proof (induction hs)
  case (Cons h hs)
  obtain a p st wt where h: "h = (a, p, st, wt)" by (cases h)
  show ?case
    using Cons by (simp add: h host_doc_def jget_def obj_get_def host_matches_def row_matches_def row_health_def health_of_def bnd_ret)
qed simp

lemma find_append: "find P (xs @ ys) = (case find P xs of None \<Rightarrow> find P ys | Some x \<Rightarrow> Some x)"
  by (induction xs) auto

lemma scan_clusters_doc: "scan_clusters rep service_id backend_id (map cluster_doc cs) = ret (reported_health cs service_id backend_id)"
proof (induction cs)
  case (Cons c cs)
  show ?case
    using Cons by (cases "find (row_matches backend_id) (snd c)")
      (simp_all add: cluster_doc_def jget_def obj_get_def jiter_def scan_hosts_doc reported_health_def find_append bnd_ret)
qed (simp add: reported_health_def)

section \<open>Properties\<close>

text \<open>
  C32. A frame is read whole however the stream is cut: when the bytes that arrive are the length of the body
  in four bytes, the body and anything after it, the plugin reads exactly the body and leaves the rest; when
  the peer closes before the end of the frame, the plugin raises.
\<close>

theorem frame_any_segmentation:
  assumes "pack_u32 (length body) = Some hdr"
  shows "(\<forall>segs rest. concat segs = hdr @ body @ rest \<longrightarrow> (\<exists>left. read_frame segs = (Inr body, left) \<and> concat left = rest))
    \<and> (\<forall>segs k. k < length (hdr @ body) \<longrightarrow> concat segs = take k (hdr @ body) \<longrightarrow> fst (read_frame segs) = Inl EOF)"
proof (intro conjI allI impI)
  have hdr: "length hdr = 4" "unpack_u32 hdr = length body" using unpack_pack[OF assms] by auto
  fix segs rest
  assume c: "concat segs = hdr @ body @ rest"
  obtain r where r: "recv_exactly 4 segs = (Inr hdr, r)" "concat r = body @ rest"
    using recv_exactly_ok[of 4 segs] hdr(1) by (auto simp: c)
  obtain q where "recv_exactly (length body) r = (Inr body, q)" "concat q = rest"
    using recv_exactly_ok[of "length body" r] by (auto simp: r(2))
  then show "\<exists>left. read_frame segs = (Inr body, left) \<and> concat left = rest"
    using hdr r by (simp add: read_frame_def)
next
  have hdr: "length hdr = 4" "unpack_u32 hdr = length body" using unpack_pack[OF assms] by auto
  fix segs k
  assume k: "k < length (hdr @ body)" and c: "concat segs = take k (hdr @ body)"
  show "fst (read_frame segs) = Inl EOF"
  proof (cases "k < 4")
    case True
    then have "fst (recv_exactly 4 segs) = Inl EOF" using recv_exactly_eof[of segs 4] by (simp add: c hdr(1))
    then show ?thesis by (auto simp: read_frame_def split: prod.split sum.split)
  next
    case False
    then obtain r where r: "recv_exactly 4 segs = (Inr hdr, r)" "concat r = take (k - 4) body"
      using recv_exactly_ok[of 4 segs] k hdr(1) by (auto simp: c drop_take)
    have "fst (recv_exactly (length body) r) = Inl EOF"
      by (rule recv_exactly_eof) (use k False hdr(1) r(2) in simp)
    then show ?thesis using hdr r by (simp add: read_frame_def)
  qed
qed

theorem frame_any_segmentation_witness:
  "\<exists>left. read_frame [[CHR 0x00, CHR 0x00], [CHR 0x00], [CHR 0x02, CHR ''h''], ''i!''] = (Inr ''hi'', left) \<and> concat left = ''!''"
proof -
  have "pack_u32 2 = Some [CHR 0x00, CHR 0x00, CHR 0x00, CHR 0x02]" by (simp add: pack_u32_def char_of_def bit_0)
  then have "pack_u32 (length ''hi'') = Some [CHR 0x00, CHR 0x00, CHR 0x00, CHR 0x02]" by (simp add: numeral_2_eq_2)
  from frame_any_segmentation[OF this, THEN conjunct1, rule_format, of "[[CHR 0x00, CHR 0x00], [CHR 0x00], [CHR 0x02, CHR ''h''], ''i!'']" "''!''"]
  show ?thesis by simp
qed

text \<open>
  The health of a backend is the one the worker reports for the first host, among the hosts of the
  service, whose address or address and port is the id asked for; it is unknown when the scrape fails. On
  the worker's documents the lookup never raises.
\<close>

theorem backend_health_reported:
  assumes "scrape_clusters_json px ctl w = (r, w')" "\<forall>d. r = Inr d \<longrightarrow> d = clusters_doc cs"
  shows "get_backend_health rep px ctl ns_name service_id backend_id w =
    (Inr (case r of Inl _ \<Rightarrow> ''unknown'' | Inr _ \<Rightarrow> reported_health cs service_id backend_id), w')"
proof (cases r)
  case (Inr d)
  with assms(2) have "d = clusters_doc cs" by simp
  then show ?thesis
    using assms(1) Inr
    by (simp add: get_backend_health_def attempt_def bnd_def clusters_doc_def jget_def obj_get_def jiter_def scan_clusters_doc ret_def)
qed (use assms(1) in \<open>simp add: get_backend_health_def attempt_def bnd_def\<close>)

theorem backend_health_reported_witness:
  "get_backend_health (\<lambda>_. []) (mem_px\<lparr>px_isfile := (\<lambda>_ _. False), px_create_excl := (\<lambda>_ _. ret ())\<rparr>)
     \<lparr>ct_connect = (\<lambda>_. ret ()), ct_send = (\<lambda>_ _. ret ()),
      ct_receive = ret [''HTTP/1.1 200 OK'' @ CRLF @ CRLF, dumps (clusters_doc [(''svc'', [(''10.0.0.5'', 53, ''HEALTHY'', 1)])])]\<rparr>
     ''qlocalservice-n'' ''svc'' ''10.0.0.5:53'' Map.empty = (Inr ''up'', Map.empty)"
proof -
  let ?doc = "clusters_doc [(''svc'', [(''10.0.0.5'', 53, ''HEALTHY'', 1)])]"
  let ?px = "mem_px\<lparr>px_isfile := (\<lambda>_ _. False), px_create_excl := (\<lambda>_ _. ret ())\<rparr>"
  let ?ctl = "\<lparr>ct_connect = (\<lambda>_. ret ()), ct_send = (\<lambda>_ _. ret ()), ct_receive = ret [''HTTP/1.1 200 OK'' @ CRLF @ CRLF, dumps ?doc]\<rparr>"
  have "find_sub (CRLF @ CRLF) (''HTTP/1.1 200 OK'' @ CRLF @ CRLF @ t) = Some (''HTTP/1.1 200 OK'', t)" for t
    by (simp add: startswith_def)
  then have "scrape_clusters_json ?px ?ctl Map.empty = (Inr ?doc, Map.empty)"
    by (simp add: scrape_clusters_json_def read_or_create_admin_token_def bnd_def andthen_def loads_dumps del: dumps.simps find_sub.simps)
  have port: "str_int 53 = ''53''" by code_simp
  from backend_health_reported[OF \<open>scrape_clusters_json ?px ?ctl Map.empty = _\<close>, of "[(''svc'', [(''10.0.0.5'', 53, ''HEALTHY'', 1)])]" "\<lambda>_. []" "''qlocalservice-n''" "''svc''" "''10.0.0.5:53''"]
  show ?thesis by (simp add: reported_health_def row_matches_def row_health_def port)
qed

end
