(* ===== verification/Schema.thy ===== *)
theory Schema
  imports Constants "HOL-Library.Multiset"
begin

text \<open>
  The schema of the catalog twice: as the ORM models declare it (\<^verbatim>\<open>db/models.py\<close>) and as the Alembic
  migrations build it (\<^verbatim>\<open>db/migration/alembic_migrations/versions\<close>), with the rows the migrations have
  to carry over. Of a row only the column the migrations touch is kept. The columns that neutron_lib's
  mixins add to a model (\<open>id\<close>, \<open>project_id\<close>, \<open>standard_attr_id\<close>) are not in the source: they are a parameter of
  the models' tables, and \<open>mixins_documented\<close> says what neutron_lib documents of them. A default on the
  server (\<^verbatim>\<open>server_default\<close>) is part of a column; the \<^verbatim>\<open>default\<close> of a model's column is applied by the ORM and
  is no part of the schema.
\<close>

section \<open>Tables\<close>

datatype column_type = SString nat | SText | SInteger | SBigInteger | SBoolean | SEnum string "string list"

record column =
  co_name :: string
  co_type :: column_type
  co_nullable :: bool
  co_primary :: bool
  co_unique :: bool
  co_index :: bool
  co_fk :: "(string \<times> string) option"
  co_server_default :: "string option"

datatype table_constraint = Unique string "string list" | Check string string

record table =
  tb_name :: string
  tb_columns :: "column list"
  tb_constraints :: "table_constraint list"

definition col :: "string \<Rightarrow> column_type \<Rightarrow> bool \<Rightarrow> column" where
  "col n t nullable =
     \<lparr>co_name = n, co_type = t, co_nullable = nullable, co_primary = False, co_unique = False, co_index = False, co_fk = None,
      co_server_default = None\<rparr>"

text \<open>A foreign key with \<^verbatim>\<open>ondelete='CASCADE'\<close>.\<close>

definition fk :: "string \<Rightarrow> column_type \<Rightarrow> string \<Rightarrow> column" where
  "fk n t target = (col n t False)\<lparr>co_fk := Some (target, ''CASCADE'')\<rparr>"

text \<open>The column \<open>enabled\<close> of 0001, with \<^verbatim>\<open>server_default=sa.true()\<close>.\<close>

definition enabled_column :: column where
  "enabled_column = (col ''enabled'' SBoolean False)\<lparr>co_server_default := Some ''true''\<rparr>"

abbreviation PORT_RANGE :: string where "PORT_RANGE \<equiv> ''port > 0 AND port <= 65535''"

section \<open>The models\<close>

text \<open>The columns of the mixins \<^verbatim>\<open>HasId\<close>, \<^verbatim>\<open>HasProject\<close> and \<^verbatim>\<open>HasStandardAttributes\<close>.\<close>

record mixins =
  mx_id :: column
  mx_project :: column
  mx_standard_attr :: column

definition LocalService_table :: "mixins \<Rightarrow> table" where
  "LocalService_table mx =
     \<lparr>tb_name = ''local_services'',
      tb_columns =
        [mx_id mx, mx_project mx, mx_standard_attr mx,
         col ''name'' (SString 64) False, col ''description'' (SString 255) True,
         col ''local_ipv4'' (SString 64) True, col ''local_ipv6'' (SString 64) True,
         col ''protocol'' (SEnum ''local_service_protocol'' PROTOCOLS) False, col ''port'' SInteger False,
         col ''attachment_policy'' (SEnum ''local_service_attachment_policy'' ATTACH_POLICIES) False,
         col ''distribution_policy'' (SEnum ''local_service_distribution_policy'' DISTRIBUTION_POLICIES) False,
         col ''exposure_plugin'' (SEnum ''local_service_exposure_plugin'' EXPOSURE_PLUGINS) False,
         col ''health_check_type'' (SEnum ''local_service_hc_type'' HC_TYPES) False,
         col ''health_check_config'' SText True, col ''enabled'' SBoolean False],
      tb_constraints =
        [Unique ''uniq_local_services_project_name'' [''project_id'', ''name''], Check ''ck_local_services_port_range'' PORT_RANGE]\<rparr>"

definition LocalServiceBackend_table :: "mixins \<Rightarrow> table" where
  "LocalServiceBackend_table mx =
     \<lparr>tb_name = ''local_service_backends'',
      tb_columns =
        [mx_id mx, mx_standard_attr mx,
         (fk ''service_id'' (SString 36) ''local_services.id'')\<lparr>co_index := True\<rparr>,
         col ''name'' (SString 64) False, col ''availability_zone'' (SString 255) True, col ''weight'' SInteger True,
         col ''address'' (SString 64) False, col ''port'' SInteger False,
         col ''health_check_address'' (SString 64) True, col ''health_check_port'' SInteger True, col ''enabled'' SBoolean False],
      tb_constraints =
        [Unique ''uniq_local_service_backends_svc_name'' [''service_id'', ''name''], Check ''ck_local_service_backends_port_range'' PORT_RANGE]\<rparr>"

definition LocalServiceBinding_table :: "mixins \<Rightarrow> table" where
  "LocalServiceBinding_table mx =
     \<lparr>tb_name = ''local_service_bindings'',
      tb_columns =
        [mx_id mx, mx_project mx, mx_standard_attr mx,
         (fk ''service_id'' (SString 36) ''local_services.id'')\<lparr>co_index := True\<rparr>,
         (fk ''network_id'' (SString 36) ''networks.id'')\<lparr>co_index := True\<rparr>, col ''enabled'' SBoolean False],
      tb_constraints = [Unique ''uniq_local_service_bindings_svc_net'' [''service_id'', ''network_id'']]\<rparr>"

definition model_tables :: "mixins \<Rightarrow> table list" where
  "model_tables mx = [LocalService_table mx, LocalServiceBackend_table mx, LocalServiceBinding_table mx]"

section \<open>The migrations\<close>

text \<open>The tables, and of each row of \<^verbatim>\<open>local_services\<close> its id and its exposure plugin.\<close>

record mig_db =
  md_tables :: "table list"
  md_plugins :: "(string \<times> string) list"

definition has_table :: "string \<Rightarrow> mig_db \<Rightarrow> bool" where
  "has_table n d \<longleftrightarrow> n \<in> tb_name ` set (md_tables d)"

text \<open>The tables the foreign keys of a table refer to: the part of \<^verbatim>\<open>table.column\<close> before the dot.\<close>

definition referred :: "table \<Rightarrow> string list" where
  "referred t = map (takeWhile (\<lambda>c. c \<noteq> CHR ''.'') \<circ> fst) (List.map_filter co_fk (tb_columns t))"

text \<open>\<^verbatim>\<open>op.create_table\<close>: the name has to be free and every table referred to has to exist.\<close>

definition create_table :: "table \<Rightarrow> (mig_db, unit) act" where
  "create_table t d =
     (if has_table (tb_name t) d \<or> \<not> list_all (\<lambda>n. has_table n d) (referred t)
      then (Inl (Foreign ''OperationalError''), d)
      else (Inr (), d\<lparr>md_tables := md_tables d @ [t]\<rparr>))"

definition set_type :: "string \<Rightarrow> column_type \<Rightarrow> column \<Rightarrow> column" where
  "set_type n t c = (if co_name c = n then c\<lparr>co_type := t\<rparr> else c)"

definition with_plugin_enum :: "string list \<Rightarrow> table \<Rightarrow> table" where
  "with_plugin_enum vs t =
     t\<lparr>tb_columns := map (set_type ''exposure_plugin'' (SEnum ''local_service_exposure_plugin'' vs)) (tb_columns t)\<rparr>"

text \<open>
  \<^verbatim>\<open>op.alter_column\<close> of the enumeration: a row whose value the new type does not have makes the statement
  fail, and then nothing changes.
\<close>

definition alter_plugin_enum :: "string list \<Rightarrow> (mig_db, unit) act" where
  "alter_plugin_enum vs d =
     (if \<not> has_table ''local_services'' d then (Inl (Foreign ''OperationalError''), d)
      else if list_all (\<lambda>r. snd r \<in> set vs) (md_plugins d)
      then (Inr (), d\<lparr>md_tables := map (\<lambda>t. if tb_name t = ''local_services'' then with_plugin_enum vs t else t) (md_tables d)\<rparr>)
      else (Inl (Foreign ''DataError''), d))"

text \<open>\<^verbatim>\<open>UPDATE local_services SET exposure_plugin = new WHERE exposure_plugin = old\<close>.\<close>

definition update_plugins :: "string \<Rightarrow> string \<Rightarrow> (mig_db, unit) act" where
  "update_plugins old new d =
     (if \<not> has_table ''local_services'' d then (Inl (Foreign ''OperationalError''), d)
      else (Inr (), d\<lparr>md_plugins := map (\<lambda>r. if snd r = old then (fst r, new) else r) (md_plugins d)\<rparr>))"

definition id_column :: column where "id_column = (col ''id'' (SString 36) False)\<lparr>co_primary := True\<rparr>"

definition project_column :: column where "project_column = (col ''project_id'' (SString 255) True)\<lparr>co_index := True\<rparr>"

definition standard_attr_column :: column where
  "standard_attr_column = (fk ''standard_attr_id'' SBigInteger ''standardattributes.id'')\<lparr>co_unique := True\<rparr>"

text \<open>The three tables of 0001.\<close>

definition created_services :: table where
  "created_services =
     \<lparr>tb_name = ''local_services'',
      tb_columns =
        [id_column, project_column, standard_attr_column,
         col ''name'' (SString 64) False, col ''description'' (SString 255) True,
         col ''local_ipv4'' (SString 64) True, col ''local_ipv6'' (SString 64) True,
         col ''protocol'' (SEnum ''local_service_protocol'' PROTOCOLS) False, col ''port'' SInteger False,
         col ''attachment_policy'' (SEnum ''local_service_attachment_policy'' ATTACH_POLICIES) False,
         col ''distribution_policy'' (SEnum ''local_service_distribution_policy'' DISTRIBUTION_POLICIES) False,
         col ''exposure_plugin'' (SEnum ''local_service_exposure_plugin'' EXPOSURE_PLUGINS) False,
         col ''health_check_type'' (SEnum ''local_service_hc_type'' HC_TYPES) False,
         col ''health_check_config'' SText True, enabled_column],
      tb_constraints =
        [Unique ''uniq_local_services_project_name'' [''project_id'', ''name''], Check ''ck_local_services_port_range'' PORT_RANGE]\<rparr>"

definition created_backends :: table where
  "created_backends =
     \<lparr>tb_name = ''local_service_backends'',
      tb_columns =
        [id_column, standard_attr_column, (fk ''service_id'' (SString 36) ''local_services.id'')\<lparr>co_index := True\<rparr>,
         col ''name'' (SString 64) False, col ''availability_zone'' (SString 255) True, col ''weight'' SInteger True,
         col ''address'' (SString 64) False, col ''port'' SInteger False,
         col ''health_check_address'' (SString 64) True, col ''health_check_port'' SInteger True, enabled_column],
      tb_constraints =
        [Unique ''uniq_local_service_backends_svc_name'' [''service_id'', ''name''], Check ''ck_local_service_backends_port_range'' PORT_RANGE]\<rparr>"

definition created_bindings :: table where
  "created_bindings =
     \<lparr>tb_name = ''local_service_bindings'',
      tb_columns =
        [id_column, project_column, standard_attr_column, (fk ''service_id'' (SString 36) ''local_services.id'')\<lparr>co_index := True\<rparr>,
         (fk ''network_id'' (SString 36) ''networks.id'')\<lparr>co_index := True\<rparr>, enabled_column],
      tb_constraints = [Unique ''uniq_local_service_bindings_svc_net'' [''service_id'', ''network_id'']]\<rparr>"

definition upgrade_0001 :: "(mig_db, unit) act" where
  "upgrade_0001 =
     andthen (create_table created_services) (andthen (create_table created_backends) (create_table created_bindings))"

definition upgrade_0002 :: "(mig_db, unit) act" where
  "upgrade_0002 = alter_plugin_enum [''lvs'', ''envoy'']"

definition upgrade_0003 :: "(mig_db, unit) act" where
  "upgrade_0003 =
     andthen (alter_plugin_enum [''lvs'', ''envoy'', ''nat'', ''proxy''])
     (andthen (update_plugins ''lvs'' ''nat'')
     (andthen (update_plugins ''envoy'' ''proxy'')
       (alter_plugin_enum [''nat'', ''proxy''])))"

definition upgrade_head :: "(mig_db, unit) act" where
  "upgrade_head = andthen upgrade_0001 (andthen upgrade_0002 upgrade_0003)"

section \<open>Properties\<close>

text \<open>What neutron_lib documents of the columns its mixins add.\<close>

definition mixins_documented :: "mixins \<Rightarrow> bool" where
  "mixins_documented mx \<longleftrightarrow>
     mx_id mx = (col ''id'' (SString 36) False)\<lparr>co_primary := True\<rparr>
   \<and> mx_project mx = (col ''project_id'' (SString 255) True)\<lparr>co_index := True\<rparr>
   \<and> mx_standard_attr mx = (fk ''standard_attr_id'' SBigInteger ''standardattributes.id'')\<lparr>co_unique := True\<rparr>"

text \<open>A database of Neutron on which the migrations of this program have not run.\<close>

definition not_migrated :: "mig_db \<Rightarrow> bool" where
  "not_migrated d \<longleftrightarrow> has_table ''standardattributes'' d \<and> has_table ''networks'' d \<and> md_plugins d = []
     \<and> \<not> has_table ''local_services'' d \<and> \<not> has_table ''local_service_backends'' d \<and> \<not> has_table ''local_service_bindings'' d"

text \<open>A table without the defaults of its columns on the server.\<close>

definition without_server_defaults :: "table \<Rightarrow> table" where
  "without_server_defaults t = t\<lparr>tb_columns := map (\<lambda>c. c\<lparr>co_server_default := None\<rparr>) (tb_columns t)\<rparr>"

lemmas schema_defs = model_tables_def LocalService_table_def LocalServiceBackend_table_def LocalServiceBinding_table_def col_def fk_def
  id_column_def project_column_def standard_attr_column_def enabled_column_def EXPOSURE_PLUGINS_def EXPOSURE_NAT_def EXPOSURE_PROXY_def

lemma has_table_simps [simp]:
  "has_table n (d\<lparr>md_tables := md_tables d @ ts\<rparr>) \<longleftrightarrow> has_table n d \<or> n \<in> tb_name ` set ts"
  "has_table n (d\<lparr>md_plugins := rows\<rparr>) \<longleftrightarrow> has_table n d"
  by (auto simp: has_table_def)

lemma with_plugin_enum_simps [simp]:
  "tb_name (with_plugin_enum vs t) = tb_name t"
  "with_plugin_enum vs (with_plugin_enum ws t) = with_plugin_enum vs t"
  by (auto simp: with_plugin_enum_def set_type_def)

lemma alter_keeps_names [simp]:
  "has_table n (d\<lparr>md_tables := map (\<lambda>t. if P t then with_plugin_enum vs t else t) (md_tables d)\<rparr>) \<longleftrightarrow> has_table n d"
proof -
  have "map tb_name (map (\<lambda>t. if P t then with_plugin_enum vs t else t) ts) = map tb_name ts" for ts by simp
  then have "set (map tb_name (map (\<lambda>t. if P t then with_plugin_enum vs t else t) (md_tables d))) = set (map tb_name (md_tables d))"
    by (rule arg_cong)
  then show ?thesis unfolding has_table_def by (cases d) (simp only: set_map mig_db.simps)
qed

lemma alter_plugin_enum_ok:
  "has_table ''local_services'' d \<Longrightarrow> list_all (\<lambda>r. snd r \<in> set vs) (md_plugins d)
    \<Longrightarrow> \<exists>d'. alter_plugin_enum vs d = (Inr (), d') \<and> md_plugins d' = md_plugins d \<and> has_table ''local_services'' d'"
  by (simp add: alter_plugin_enum_def)

definition renamed :: "string \<Rightarrow> string" where
  "renamed p = (if p = ''lvs'' then ''nat'' else if p = ''envoy'' then ''proxy'' else p)"

lemmas created_defs = created_services_def created_backends_def created_bindings_def

lemma upgrade_0001_run:
  assumes "not_migrated d"
  shows "upgrade_0001 d = (Inr (), d\<lparr>md_tables := md_tables d @ [created_services, created_backends, created_bindings]\<rparr>)"
proof -
  have names: "tb_name created_services = ''local_services''" "tb_name created_backends = ''local_service_backends''"
    "tb_name created_bindings = ''local_service_bindings''"
    by (simp_all add: created_defs)
  have refs: "set (referred created_services) = {''standardattributes''}"
    "set (referred created_backends) = {''standardattributes'', ''local_services''}"
    "set (referred created_bindings) = {''standardattributes'', ''local_services'', ''networks''}"
    by (auto simp: referred_def created_defs schema_defs map_filter_simps)
  have create: "create_table t d' = (Inr (), d'\<lparr>md_tables := md_tables d' @ [t]\<rparr>)"
    if "\<not> has_table (tb_name t) d'" "\<forall>n \<in> set (referred t). has_table n d'" for t d'
    using that by (simp add: create_table_def list_all_iff)
  show ?thesis
    using assms by (simp add: upgrade_0001_def andthen_def bnd_def create names refs not_migrated_def)
qed

text \<open>The enumeration of a database whose last tables are those of 0001.\<close>

lemma alter_built:
  assumes "\<not> has_table ''local_services'' d" "md_plugins d = []"
  shows "alter_plugin_enum vs (d\<lparr>md_tables := md_tables d @ [with_plugin_enum ws created_services, created_backends, created_bindings]\<rparr>)
    = (Inr (), d\<lparr>md_tables := md_tables d @ [with_plugin_enum vs created_services, created_backends, created_bindings]\<rparr>)"
proof -
  have "map (\<lambda>t. if tb_name t = ''local_services'' then with_plugin_enum vs t else t) (md_tables d) = md_tables d"
    using assms(1) unfolding has_table_def by (intro map_idI) (metis imageI)
  then show ?thesis
    using assms(2) by (simp add: alter_plugin_enum_def) (simp add: created_defs)
qed

lemma created_enum: "with_plugin_enum EXPOSURE_PLUGINS created_services = created_services"
  by (simp add: with_plugin_enum_def set_type_def created_defs schema_defs)

lemma upgrade_head_run:
  assumes "not_migrated d"
  shows "upgrade_head d = (Inr (), d\<lparr>md_tables := md_tables d @ [created_services, created_backends, created_bindings]\<rparr>)"
proof -
  let ?at = "\<lambda>vs. d\<lparr>md_tables := md_tables d @ [with_plugin_enum vs created_services, created_backends, created_bindings]\<rparr>"
  have d: "\<not> has_table ''local_services'' d" "md_plugins d = []" using assms by (simp_all add: not_migrated_def)
  have upd: "update_plugins old new (?at vs) = (Inr (), ?at vs)" for old new vs
    using d(2) by (simp add: update_plugins_def) (simp add: created_defs)
  have "upgrade_0001 d = (Inr (), ?at EXPOSURE_PLUGINS)" by (simp add: upgrade_0001_run[OF assms] created_enum)
  then have "upgrade_head d = (Inr (), ?at [''nat'', ''proxy''])"
    by (simp only: upgrade_head_def upgrade_0002_def upgrade_0003_def andthen_def bnd_def alter_built[OF d] upd prod.case sum.case)
  moreover have "[''nat'', ''proxy''] = EXPOSURE_PLUGINS" by (simp add: schema_defs)
  ultimately show ?thesis by (simp only: created_enum)
qed

text \<open>The same table up to the order of its columns, which for those of the mixins is not in the source.\<close>

definition same_table :: "table \<Rightarrow> table \<Rightarrow> bool" where
  "same_table t t' \<longleftrightarrow> tb_name t = tb_name t' \<and> mset (tb_columns t) = mset (tb_columns t') \<and> tb_constraints t = tb_constraints t'"

text \<open>
  C34. On any database of Neutron that has none of this program's tables, whatever others it has, the three
  migrations return, keep the other tables and build the tables the models declare: the same columns, those
  of the mixins included, with the same types, nullability, keys and indexes, and the same constraints. They
  differ in one thing only: the column \<open>enabled\<close> of each table has the default \<open>true\<close> on the server, where the
  models have none.
\<close>

theorem migrations_build_models:
  assumes "mixins_documented mx" "not_migrated d"
  shows "\<exists>d' built. upgrade_head d = (Inr (), d') \<and> md_tables d' = md_tables d @ built \<and> md_plugins d' = md_plugins d
    \<and> list_all2 same_table (map without_server_defaults built) (model_tables mx)
    \<and> list_all (\<lambda>t. list_all (\<lambda>c. co_server_default c = (if co_name c = ''enabled'' then Some ''true'' else None)) (tb_columns t)) built
    \<and> list_all (\<lambda>t. list_all (\<lambda>c. co_server_default c = None) (tb_columns t)) (model_tables mx)"
proof (intro exI conjI)
  show "upgrade_head d = (Inr (), d\<lparr>md_tables := md_tables d @ [created_services, created_backends, created_bindings]\<rparr>)"
    by (rule upgrade_head_run[OF assms(2)])
  show "list_all2 same_table (map without_server_defaults [created_services, created_backends, created_bindings]) (model_tables mx)"
    using assms(1) by (simp add: same_table_def without_server_defaults_def mixins_documented_def created_defs schema_defs)
qed (use assms(1) in \<open>simp_all add: mixins_documented_def created_defs schema_defs\<close>)

text \<open>The columns of neutron_lib, and a database with the two tables of Neutron and one of another program.\<close>

definition lib_mixins :: mixins where
  "lib_mixins = \<lparr>mx_id = id_column, mx_project = project_column, mx_standard_attr = standard_attr_column\<rparr>"

definition bare_table :: "string \<Rightarrow> table" where
  "bare_table n = \<lparr>tb_name = n, tb_columns = [id_column], tb_constraints = []\<rparr>"

definition neutron_db :: mig_db where
  "neutron_db = \<lparr>md_tables = map bare_table [''standardattributes'', ''networks'', ''ports''], md_plugins = []\<rparr>"

theorem migrations_build_models_witness:
  "mixins_documented lib_mixins \<and> not_migrated neutron_db
    \<and> (\<exists>d' built. upgrade_head neutron_db = (Inr (), d') \<and> md_tables d' = md_tables neutron_db @ built
      \<and> list_all2 same_table (map without_server_defaults built) (model_tables lib_mixins))"
proof -
  have "mixins_documented lib_mixins" "not_migrated neutron_db"
    by (simp_all add: mixins_documented_def lib_mixins_def id_column_def project_column_def standard_attr_column_def
        not_migrated_def neutron_db_def bare_table_def has_table_def)
  then show ?thesis using migrations_build_models[of lib_mixins neutron_db] by blast
qed

text \<open>The same database with the table of services, whose rows are those of a test.\<close>

definition services_db :: "(string \<times> string) list \<Rightarrow> mig_db" where
  "services_db rows = \<lparr>md_tables = [created_services], md_plugins = rows\<rparr>"

text \<open>
  The rename of the exposure plugins loses no row: on a database whose rows have the old values, 0003
  returns, keeps every row and renames its plugin to one the program knows. A database that 0001 built from
  the present constants and that has rows cannot be upgraded: 0002 fails on the first of them and changes nothing.
\<close>

theorem plugin_rename_total:
  assumes "has_table ''local_services'' d"
  shows "(list_all (\<lambda>r. snd r \<in> {''lvs'', ''envoy''}) rows \<longrightarrow>
      (\<exists>d'. upgrade_0003 (d\<lparr>md_plugins := rows\<rparr>) = (Inr (), d') \<and> md_plugins d' = map (\<lambda>(i, p). (i, renamed p)) rows
        \<and> list_all (\<lambda>r. snd r \<in> set EXPOSURE_PLUGINS) (md_plugins d')))
   \<and> (list_ex (\<lambda>r. snd r \<in> set EXPOSURE_PLUGINS) rows \<longrightarrow>
      upgrade_0002 (d\<lparr>md_plugins := rows\<rparr>) = (Inl (Foreign ''DataError''), d\<lparr>md_plugins := rows\<rparr>))"
proof (intro conjI impI)
  assume old: "list_all (\<lambda>r. snd r \<in> {''lvs'', ''envoy''}) rows"
  define mid where "mid = map (\<lambda>(i, p). (i, renamed p)) rows"
  have upd: "map (\<lambda>r. if snd r = ''envoy'' then (fst r, ''proxy'') else r) (map (\<lambda>r. if snd r = ''lvs'' then (fst r, ''nat'') else r) rows) = mid"
    using old by (auto simp: mid_def renamed_def list_all_iff)
  have new: "list_all (\<lambda>r. snd r \<in> {''nat'', ''proxy''}) mid"
    using old by (auto simp: mid_def renamed_def list_all_iff)
  let ?d = "d\<lparr>md_plugins := rows\<rparr>"
  obtain d1 where d1: "alter_plugin_enum [''lvs'', ''envoy'', ''nat'', ''proxy''] ?d = (Inr (), d1)" "md_plugins d1 = rows"
    "has_table ''local_services'' d1"
    using alter_plugin_enum_ok[of ?d "[''lvs'', ''envoy'', ''nat'', ''proxy'']"] old assms by (auto simp: list_all_iff)
  obtain d2 where d2: "alter_plugin_enum [''nat'', ''proxy''] (d1\<lparr>md_plugins := mid\<rparr>) = (Inr (), d2)" "md_plugins d2 = mid"
    using alter_plugin_enum_ok[of "d1\<lparr>md_plugins := mid\<rparr>" "[''nat'', ''proxy'']"] new d1(3) by auto
  have "upgrade_0003 ?d = (Inr (), d2)"
    using d1 d2 upd by (simp add: upgrade_0003_def andthen_def bnd_def update_plugins_def)
  then show "\<exists>d'. upgrade_0003 ?d = (Inr (), d') \<and> md_plugins d' = map (\<lambda>(i, p). (i, renamed p)) rows
      \<and> list_all (\<lambda>r. snd r \<in> set EXPOSURE_PLUGINS) (md_plugins d')"
    using d2(2) new by (simp add: mid_def[symmetric] EXPOSURE_PLUGINS_def EXPOSURE_NAT_def EXPOSURE_PROXY_def)
next
  assume "list_ex (\<lambda>r. snd r \<in> set EXPOSURE_PLUGINS) rows"
  then obtain r where "r \<in> set rows" "snd r \<in> {''nat'', ''proxy''}"
    by (auto simp: list_ex_iff EXPOSURE_PLUGINS_def EXPOSURE_NAT_def EXPOSURE_PROXY_def)
  moreover from this have "snd r \<notin> set [''lvs'', ''envoy'']" by auto
  ultimately have "\<not> list_all (\<lambda>r. snd r \<in> set [''lvs'', ''envoy'']) rows" unfolding list_all_iff by blast
  then show "upgrade_0002 (d\<lparr>md_plugins := rows\<rparr>) = (Inl (Foreign ''DataError''), d\<lparr>md_plugins := rows\<rparr>)"
    using assms by (simp add: upgrade_0002_def alter_plugin_enum_def del: list.set)
qed

theorem plugin_rename_total_witness:
  "\<exists>d'. upgrade_0003 (services_db [(''a'', ''lvs''), (''b'', ''envoy'')]) = (Inr (), d')
    \<and> md_plugins d' = [(''a'', ''nat''), (''b'', ''proxy'')]
    \<and> upgrade_0002 (services_db [(''a'', ''nat'')]) = (Inl (Foreign ''DataError''), services_db [(''a'', ''nat'')])"
proof -
  have s: "has_table ''local_services'' (services_db [])" "(services_db [])\<lparr>md_plugins := rows\<rparr> = services_db rows" for rows
    by (simp_all add: has_table_def services_db_def created_services_def)
  show ?thesis
    using plugin_rename_total[OF s(1), of "[(''a'', ''lvs''), (''b'', ''envoy'')]"] plugin_rename_total[OF s(1), of "[(''a'', ''nat'')]"]
    by (auto simp: s(2) renamed_def EXPOSURE_PLUGINS_def EXPOSURE_NAT_def EXPOSURE_PROXY_def)
qed

end
