(* ===== verification/ApiDef.thy ===== *)
theory ApiDef
  imports CatalogInv Schema Json
begin

text \<open>
  The API of the catalog: the attribute maps of \<^verbatim>\<open>api/local_services.py\<close>, the resources that
  \<^verbatim>\<open>extensions/local_services.py\<close> registers and the policy rules of \<^verbatim>\<open>policies.py\<close>. Neutron, which checks requests
  against the maps, is a parameter: \<open>validators_documented\<close> says what its validators accept and \<open>neutron_post\<close>
  what it hands to the plugin after a POST. Sizes from \<^verbatim>\<open>neutron_lib.db.constants\<close> are parameters too.
\<close>

section \<open>Attribute maps\<close>

datatype validator = VRange int int | VString nat | VStringOrNone nat | VUuid | VIp | VIpOrNone | VValues "string list"

datatype attr_default = Required | Default json | NotSpecified

datatype conversion = Verbatim | ConvInt | ConvIntOrNone | ConvBool

record attr =
  at_post :: bool
  at_put :: bool
  at_default :: attr_default
  at_validate :: "validator option"
  at_convert :: conversion
  at_filter :: bool
  at_sort_key :: bool
  at_visible :: bool
  at_by_policy :: bool
  at_primary :: bool

record db_sizes =
  NAME_FIELD_SIZE :: nat
  LONG_DESCRIPTION_FIELD_SIZE :: nat
  PROJECT_ID_FIELD_SIZE :: nat

definition attr0 :: attr where
  "attr0 = \<lparr>at_post = False, at_put = False, at_default = Required, at_validate = None, at_convert = Verbatim,
     at_filter = False, at_sort_key = False, at_visible = False, at_by_policy = False, at_primary = False\<rparr>"

definition attr_PORT :: attr where
  "attr_PORT = attr0\<lparr>at_post := True, at_put := True, at_convert := ConvInt, at_validate := Some (VRange 1 65535),
     at_filter := True, at_sort_key := True, at_visible := True\<rparr>"

definition attr_NAME :: "db_sizes \<Rightarrow> attr" where
  "attr_NAME sz = attr0\<lparr>at_post := True, at_put := True, at_default := Default (JStr []), at_validate := Some (VString (NAME_FIELD_SIZE sz)),
     at_filter := True, at_sort_key := True, at_visible := True\<rparr>"

definition attr_DESCRIPTION :: "db_sizes \<Rightarrow> attr" where
  "attr_DESCRIPTION sz = attr0\<lparr>at_post := True, at_put := True, at_default := Default (JStr []),
     at_validate := Some (VString (LONG_DESCRIPTION_FIELD_SIZE sz)), at_visible := True\<rparr>"

definition attr_PROJECT_ID :: "db_sizes \<Rightarrow> attr" where
  "attr_PROJECT_ID sz = attr0\<lparr>at_post := True, at_validate := Some (VString (PROJECT_ID_FIELD_SIZE sz)), at_by_policy := True,
     at_filter := True, at_sort_key := True, at_visible := True\<rparr>"

definition attr_ID :: attr where
  "attr_ID = attr0\<lparr>at_validate := Some VUuid, at_filter := True, at_sort_key := True, at_visible := True, at_primary := True\<rparr>"

definition attr_ENABLED :: attr where
  "attr_ENABLED = attr0\<lparr>at_post := True, at_put := True, at_default := Default (JBool True), at_convert := ConvBool,
     at_filter := True, at_visible := True\<rparr>"

text \<open>An attribute both POST and PUT accept, with a default and a validator.\<close>

definition attr_rw :: "json \<Rightarrow> validator \<Rightarrow> attr" where
  "attr_rw d v = attr0\<lparr>at_post := True, at_put := True, at_default := Default d, at_validate := Some v, at_visible := True\<rparr>"

definition LOCAL_SERVICES_attrs :: "db_sizes \<Rightarrow> (string \<times> attr) list" where
  "LOCAL_SERVICES_attrs sz =
     [(''id'', attr_ID), (''project_id'', attr_PROJECT_ID sz), (''name'', attr_NAME sz), (''description'', attr_DESCRIPTION sz),
      (''local_ipv4'', (attr_rw JNull VIpOrNone)\<lparr>at_filter := True\<rparr>),
      (''local_ipv6'', (attr_rw JNull VIpOrNone)\<lparr>at_filter := True\<rparr>),
      (''protocol'', attr0\<lparr>at_post := True, at_validate := Some (VValues PROTOCOLS), at_filter := True, at_visible := True\<rparr>),
      (''port'', attr_PORT\<lparr>at_put := False\<rparr>),
      (''attachment_policy'', (attr_rw (JStr ATTACH_OPT_IN) (VValues ATTACH_POLICIES))\<lparr>at_filter := True\<rparr>),
      (''distribution_policy'', attr_rw (JStr DIST_ROUND_ROBIN) (VValues DISTRIBUTION_POLICIES)),
      (''exposure_plugin'', (attr_rw (JStr EXPOSURE_NAT) (VValues EXPOSURE_PLUGINS))\<lparr>at_put := False, at_filter := True\<rparr>),
      (''health_check_type'', attr_rw (JStr HC_NONE) (VValues HC_TYPES)),
      (''health_check_config'', attr_rw JNull (VStringOrNone (LONG_DESCRIPTION_FIELD_SIZE sz * 4))),
      (''enabled'', attr_ENABLED)]"

definition LOCAL_SERVICE_BACKENDS_attrs :: "db_sizes \<Rightarrow> (string \<times> attr) list" where
  "LOCAL_SERVICE_BACKENDS_attrs sz =
     [(''id'', attr_ID),
      (''service_id'', attr0\<lparr>at_post := True, at_validate := Some VUuid, at_filter := True, at_visible := True\<rparr>),
      (''name'', attr_NAME sz),
      (''availability_zone'', (attr_rw JNull (VStringOrNone (NAME_FIELD_SIZE sz)))\<lparr>at_filter := True\<rparr>),
      (''weight'', attr0\<lparr>at_post := True, at_put := True, at_default := NotSpecified, at_convert := ConvIntOrNone, at_visible := True\<rparr>),
      (''address'', attr0\<lparr>at_post := True, at_put := True, at_validate := Some VIp, at_filter := True, at_visible := True\<rparr>),
      (''port'', attr_PORT),
      (''health_check_address'', attr_rw JNull VIpOrNone),
      (''health_check_port'', attr0\<lparr>at_post := True, at_put := True, at_default := Default JNull, at_convert := ConvIntOrNone, at_visible := True\<rparr>),
      (''enabled'', attr_ENABLED)]"

definition LOCAL_SERVICE_BINDINGS_attrs :: "db_sizes \<Rightarrow> (string \<times> attr) list" where
  "LOCAL_SERVICE_BINDINGS_attrs sz =
     [(''id'', attr_ID), (''project_id'', attr_PROJECT_ID sz),
      (''service_id'', attr0\<lparr>at_post := True, at_validate := Some VUuid, at_filter := True, at_visible := True\<rparr>),
      (''network_id'', attr0\<lparr>at_post := True, at_validate := Some VUuid, at_filter := True, at_visible := True\<rparr>),
      (''enabled'', attr_ENABLED)]"

definition COLLECTION_LOCAL_SERVICE :: string where "COLLECTION_LOCAL_SERVICE = ''local_services''"
definition COLLECTION_LOCAL_SERVICE_BACKEND :: string where "COLLECTION_LOCAL_SERVICE_BACKEND = ''local_service_backends''"
definition COLLECTION_LOCAL_SERVICE_BINDING :: string where "COLLECTION_LOCAL_SERVICE_BINDING = ''local_service_bindings''"
definition RESOURCE_LOCAL_SERVICE :: string where "RESOURCE_LOCAL_SERVICE = ''local_service''"
definition RESOURCE_LOCAL_SERVICE_BACKEND :: string where "RESOURCE_LOCAL_SERVICE_BACKEND = ''local_service_backend''"
definition RESOURCE_LOCAL_SERVICE_BINDING :: string where "RESOURCE_LOCAL_SERVICE_BINDING = ''local_service_binding''"

definition RESOURCE_ATTRIBUTE_MAP :: "db_sizes \<Rightarrow> string \<rightharpoonup> (string \<times> attr) list" where
  "RESOURCE_ATTRIBUTE_MAP sz =
     [COLLECTION_LOCAL_SERVICE \<mapsto> LOCAL_SERVICES_attrs sz, COLLECTION_LOCAL_SERVICE_BACKEND \<mapsto> LOCAL_SERVICE_BACKENDS_attrs sz,
      COLLECTION_LOCAL_SERVICE_BINDING \<mapsto> LOCAL_SERVICE_BINDINGS_attrs sz]"

section \<open>Resources and policies\<close>

definition dashed :: "string \<Rightarrow> string" where
  "dashed s = map (\<lambda>c. if c = CHR ''_'' then CHR ''-'' else c) s"

text \<open>What a registered resource is: the collection in the URL, the name of the resource, the attributes.\<close>

definition get_resources :: "db_sizes \<Rightarrow> (string \<times> string \<times> (string \<times> attr) list) list" where
  "get_resources sz =
     map (\<lambda>(collection_name, resource_name).
            (dashed collection_name, resource_name, case RESOURCE_ATTRIBUTE_MAP sz collection_name of None \<Rightarrow> [] | Some m \<Rightarrow> m))
       [(COLLECTION_LOCAL_SERVICE, RESOURCE_LOCAL_SERVICE), (COLLECTION_LOCAL_SERVICE_BACKEND, RESOURCE_LOCAL_SERVICE_BACKEND),
        (COLLECTION_LOCAL_SERVICE_BINDING, RESOURCE_LOCAL_SERVICE_BINDING)]"

record policy_rule =
  pr_name :: string
  pr_check :: string
  pr_operations :: "(string \<times> string) list"

definition rules_for :: "string \<Rightarrow> policy_rule list" where
  "rules_for resource =
     (let coll = CHR ''/'' # dashed resource @ ''s'';
          one = coll @ ''/{id}'';
          admin = ''rule:admin_only''
      in [\<lparr>pr_name = ''create_'' @ resource, pr_check = admin, pr_operations = [(''POST'', coll)]\<rparr>,
          \<lparr>pr_name = ''update_'' @ resource, pr_check = admin, pr_operations = [(''PUT'', one)]\<rparr>,
          \<lparr>pr_name = ''delete_'' @ resource, pr_check = admin, pr_operations = [(''DELETE'', one)]\<rparr>,
          \<lparr>pr_name = ''get_'' @ resource, pr_check = admin, pr_operations = [(''GET'', coll), (''GET'', one)]\<rparr>])"

definition list_rules :: "policy_rule list" where
  "list_rules = concat (map rules_for [RESOURCE_LOCAL_SERVICE, RESOURCE_LOCAL_SERVICE_BACKEND, RESOURCE_LOCAL_SERVICE_BINDING])"

section \<open>Requests\<close>

definition validators_documented :: "(validator \<Rightarrow> json \<Rightarrow> bool) \<Rightarrow> bool" where
  "validators_documented valid \<longleftrightarrow>
     (\<forall>a b v. valid (VRange a b) v \<longleftrightarrow> (\<exists>n. v = JInt n \<and> a \<le> n \<and> n \<le> b))
     \<and> (\<forall>m v. valid (VString m) v \<longleftrightarrow> (\<exists>s. v = JStr s \<and> length s \<le> m))
     \<and> (\<forall>m v. valid (VStringOrNone m) v \<longleftrightarrow> v = JNull \<or> (\<exists>s. v = JStr s \<and> length s \<le> m))
     \<and> (\<forall>vs v. valid (VValues vs) v \<longleftrightarrow> (\<exists>s \<in> set vs. v = JStr s))
     \<and> (\<forall>v. valid VIpOrNone v \<longrightarrow> v = JNull \<or> (\<exists>s. v = JStr s)) \<and> valid VIpOrNone JNull"

text \<open>
  The body of a POST as the plugin gets it: only attributes that a POST may set, every one of them present
  (given, or filled in from its default), each accepted by its validator.
\<close>

definition neutron_post :: "(validator \<Rightarrow> json \<Rightarrow> bool) \<Rightarrow> (string \<times> attr) list \<Rightarrow> (string \<rightharpoonup> json) \<Rightarrow> bool" where
  "neutron_post valid attrs body \<longleftrightarrow>
     (\<forall>k \<in> dom body. \<exists>a. map_of attrs k = Some a \<and> at_post a)
     \<and> (\<forall>(k, a) \<in> set attrs. at_post a \<longrightarrow>
          (case body k of
             None \<Rightarrow> at_default a = NotSpecified
           | Some v \<Rightarrow> (case at_validate a of None \<Rightarrow> True | Some vd \<Rightarrow> valid vd v)))"

definition j_str :: "json option \<Rightarrow> string option" where
  "j_str v = (case v of Some (JStr s) \<Rightarrow> Some s | _ \<Rightarrow> None)"

definition j_int :: "json option \<Rightarrow> int option" where
  "j_int v = (case v of Some (JInt n) \<Rightarrow> Some n | _ \<Rightarrow> None)"

definition j_bool :: "json option \<Rightarrow> bool option" where
  "j_bool v = (case v of Some (JBool b) \<Rightarrow> Some b | _ \<Rightarrow> None)"

definition service_body_of :: "(string \<rightharpoonup> json) \<Rightarrow> service_body" where
  "service_body_of d =
     \<lparr>sb_project_id = j_str (d ''project_id''), sb_name = j_str (d ''name''), sb_description = j_str (d ''description''),
      sb_local_ipv4 = j_str (d ''local_ipv4''), sb_local_ipv6 = j_str (d ''local_ipv6''), sb_protocol = j_str (d ''protocol''),
      sb_port = j_int (d ''port''), sb_attachment_policy = j_str (d ''attachment_policy''),
      sb_distribution_policy = j_str (d ''distribution_policy''), sb_exposure_plugin = j_str (d ''exposure_plugin''),
      sb_health_check_type = j_str (d ''health_check_type''), sb_health_check_config = j_str (d ''health_check_config''),
      sb_enabled = j_bool (d ''enabled'')\<rparr>"

section \<open>Lemmas\<close>

lemma post_value:
  assumes "neutron_post valid attrs body" "(k, a) \<in> set attrs" "at_post a" "at_default a \<noteq> NotSpecified"
  obtains v where "body k = Some v" "\<And>vd. at_validate a = Some vd \<Longrightarrow> valid vd v"
proof -
  have "case body k of None \<Rightarrow> at_default a = NotSpecified
    | Some v \<Rightarrow> (case at_validate a of None \<Rightarrow> True | Some vd \<Rightarrow> valid vd v)"
    using assms(1-3) unfolding neutron_post_def by blast
  with assms(4) show ?thesis by (cases "body k") (auto intro: that split: option.splits)
qed

lemmas attr_defs = attr0_def attr_PORT_def attr_NAME_def attr_DESCRIPTION_def attr_PROJECT_ID_def attr_ID_def attr_ENABLED_def attr_rw_def

text \<open>A posted attribute with an enumeration, a range or a length limit is of its type.\<close>

lemma post_choice:
  assumes "validators_documented valid" "neutron_post valid attrs body" "(k, a) \<in> set attrs" "at_post a" "at_default a \<noteq> NotSpecified"
    "at_validate a = Some (VValues vs)"
  obtains s where "j_str (body k) = Some s" "s \<in> set vs"
proof -
  obtain v where "body k = Some v" "valid (VValues vs) v" by (rule post_value[OF assms(2-5)]) (use assms(6) in blast)
  then show ?thesis using assms(1) by (auto simp: validators_documented_def j_str_def intro: that)
qed

lemma post_port:
  assumes "validators_documented valid" "neutron_post valid attrs body" "(k, a) \<in> set attrs" "at_post a" "at_default a \<noteq> NotSpecified"
    "at_validate a = Some (VRange l h)"
  obtains n where "j_int (body k) = Some n" "l \<le> n" "n \<le> h"
proof -
  obtain v where "body k = Some v" "valid (VRange l h) v" by (rule post_value[OF assms(2-5)]) (use assms(6) in blast)
  then show ?thesis using assms(1) by (auto simp: validators_documented_def j_int_def intro: that)
qed

lemma post_string:
  assumes "validators_documented valid" "neutron_post valid attrs body" "(k, a) \<in> set attrs" "at_post a" "at_default a \<noteq> NotSpecified"
    "at_validate a = Some (VString m)"
  obtains s where "j_str (body k) = Some s" "length s \<le> m"
proof -
  obtain v where "body k = Some v" "valid (VString m) v" by (rule post_value[OF assms(2-5)]) (use assms(6) in blast)
  then show ?thesis using assms(1) by (auto simp: validators_documented_def j_str_def intro: that)
qed

lemma service_attr:
  "(''name'', attr_NAME sz) \<in> set (LOCAL_SERVICES_attrs sz)"
  "(''protocol'', attr0\<lparr>at_post := True, at_validate := Some (VValues PROTOCOLS), at_filter := True, at_visible := True\<rparr>) \<in> set (LOCAL_SERVICES_attrs sz)"
  "(''port'', attr_PORT\<lparr>at_put := False\<rparr>) \<in> set (LOCAL_SERVICES_attrs sz)"
  "(''attachment_policy'', (attr_rw (JStr ATTACH_OPT_IN) (VValues ATTACH_POLICIES))\<lparr>at_filter := True\<rparr>) \<in> set (LOCAL_SERVICES_attrs sz)"
  "(''distribution_policy'', attr_rw (JStr DIST_ROUND_ROBIN) (VValues DISTRIBUTION_POLICIES)) \<in> set (LOCAL_SERVICES_attrs sz)"
  "(''exposure_plugin'', (attr_rw (JStr EXPOSURE_NAT) (VValues EXPOSURE_PLUGINS))\<lparr>at_put := False, at_filter := True\<rparr>) \<in> set (LOCAL_SERVICES_attrs sz)"
  "(''health_check_type'', attr_rw (JStr HC_NONE) (VValues HC_TYPES)) \<in> set (LOCAL_SERVICES_attrs sz)"
  unfolding LOCAL_SERVICES_attrs_def list.set by (rule insertI1 | rule insertI2)+

text \<open>A validator in memory, and a request with a given name.\<close>

fun mem_valid :: "validator \<Rightarrow> json \<Rightarrow> bool" where
  "mem_valid (VRange a b) v = (case v of JInt n \<Rightarrow> a \<le> n \<and> n \<le> b | _ \<Rightarrow> False)"
| "mem_valid (VString m) v = (case v of JStr s \<Rightarrow> length s \<le> m | _ \<Rightarrow> False)"
| "mem_valid (VStringOrNone m) v = (case v of JNull \<Rightarrow> True | JStr s \<Rightarrow> length s \<le> m | _ \<Rightarrow> False)"
| "mem_valid (VValues vs) v = (case v of JStr s \<Rightarrow> s \<in> set vs | _ \<Rightarrow> False)"
| "mem_valid VUuid v = (case v of JStr s \<Rightarrow> length s = 36 | _ \<Rightarrow> False)"
| "mem_valid VIp v = (case v of JStr s \<Rightarrow> s \<noteq> [] | _ \<Rightarrow> False)"
| "mem_valid VIpOrNone v = (case v of JNull \<Rightarrow> True | JStr s \<Rightarrow> s \<noteq> [] | _ \<Rightarrow> False)"

lemma mem_valid_documented: "validators_documented mem_valid"
  unfolding validators_documented_def by (auto split: json.splits)

definition named_post :: "string \<Rightarrow> json \<Rightarrow> string \<rightharpoonup> json" where
  "named_post name vip =
     map_of [(''project_id'', JStr []), (''name'', JStr name), (''description'', JStr []), (''local_ipv4'', vip), (''local_ipv6'', JNull),
       (''protocol'', JStr PROTO_UDP), (''port'', JInt 53), (''attachment_policy'', JStr ATTACH_OPT_IN),
       (''distribution_policy'', JStr DIST_ROUND_ROBIN), (''exposure_plugin'', JStr EXPOSURE_NAT), (''health_check_type'', JStr HC_NONE),
       (''health_check_config'', JNull), (''enabled'', JBool True)]"

lemma named_post_ok:
  assumes "validators_documented valid" "length name \<le> NAME_FIELD_SIZE sz" "valid VIpOrNone vip"
  shows "neutron_post valid (LOCAL_SERVICES_attrs sz) (named_post name vip)"
proof -
  have v: "valid (VString m) (JStr t) \<longleftrightarrow> length t \<le> m" "valid (VStringOrNone m) JNull" "valid VIpOrNone JNull"
      "valid (VRange 1 65535) (JInt 53)" "valid (VValues vs) (JStr t) \<longleftrightarrow> t \<in> set vs" for m t vs
    using assms(1) by (auto simp: validators_documented_def)
  have enums: "PROTO_UDP \<in> set PROTOCOLS" "ATTACH_OPT_IN \<in> set ATTACH_POLICIES" "DIST_ROUND_ROBIN \<in> set DISTRIBUTION_POLICIES"
      "EXPOSURE_NAT \<in> set EXPOSURE_PLUGINS" "HC_NONE \<in> set HC_TYPES"
    by (simp_all add: PROTOCOLS_def ATTACH_POLICIES_def DISTRIBUTION_POLICIES_def EXPOSURE_PLUGINS_def HC_TYPES_def)
  have "\<exists>a. map_of (LOCAL_SERVICES_attrs sz) k = Some a \<and> at_post a" if "k \<in> dom (named_post name vip)" for k
    using that unfolding named_post_def dom_map_of_conv_image_fst LOCAL_SERVICES_attrs_def
    by (simp only: list.set image_insert image_empty fst_conv insert_iff empty_iff) (elim disjE; simp add: attr_defs)
  moreover have "case named_post name vip k of None \<Rightarrow> at_default a = NotSpecified
      | Some v \<Rightarrow> (case at_validate a of None \<Rightarrow> True | Some vd \<Rightarrow> valid vd v)"
    if "(k, a) \<in> set (LOCAL_SERVICES_attrs sz)" "at_post a" for k a
    using that unfolding LOCAL_SERVICES_attrs_def
    by (simp only: list.set insert_iff empty_iff prod.inject) (elim disjE conjE; simp add: attr_defs named_post_def v enums assms(2,3))
  ultimately show ?thesis unfolding neutron_post_def by blast
qed

section \<open>Properties\<close>

text \<open>The strings of a POST that go into columns with a width.\<close>

definition posted_columns :: "(string \<rightharpoonup> json) \<Rightarrow> (string \<times> nat \<times> string option) list" where
  "posted_columns body =
     [(''name'', 64, j_str (body ''name'')), (''description'', 255, j_str (body ''description'')),
      (''local_ipv4'', 64, j_str (body ''local_ipv4'')), (''local_ipv6'', 64, j_str (body ''local_ipv6''))]"

text \<open>
  C33. What happens to a POST that Neutron admits, with an id that is free and VIPs that pass the plugin's
  own check: when its strings fit their columns, creating the service either returns the row, with the name, protocol
  and port that were asked for, or fails on the uniqueness of the name in the project, and on no other constraint of the
  table. When one does not fit, which the attribute map does not exclude (\<open>overlong_name_admitted\<close>), the insert fails with
  the error of that column and nothing is stored.
\<close>

theorem posted_service_storable:
  assumes doc: "validators_documented valid" and post: "neutron_post valid (LOCAL_SERVICES_attrs sz) body"
    and vips: "validate_service_payload na conf (j_str (body ''local_ipv4'')) (j_str (body ''local_ipv6'')) = Inr ()"
    and new: "new_id \<notin> svc_id ` set (db_services d)"
  shows "case too_long (posted_columns body) of
      None \<Rightarrow> (\<exists>dict d'. create_local_service na conf new_id (service_body_of body) d = (Inr dict, d')
          \<and> sd_name dict = j_str (body ''name'') \<and> sd_protocol dict = j_str (body ''protocol'') \<and> sd_port dict = j_int (body ''port''))
        \<or> create_local_service na conf new_id (service_body_of body) d = (Inl (ConstraintViolation ''uniq_local_services_project_name''), d)
    | Some column \<Rightarrow> create_local_service na conf new_id (service_body_of body) d = (Inl (DBDataError column), d)"
proof -
  obtain name where name: "j_str (body ''name'') = Some name" by (rule post_string[OF doc post service_attr(1)]) (simp_all add: attr_defs)
  obtain proto where proto: "j_str (body ''protocol'') = Some proto" "proto \<in> set PROTOCOLS"
    by (rule post_choice[OF doc post service_attr(2)]) (simp_all add: attr_defs)
  obtain port where port: "j_int (body ''port'') = Some port" "1 \<le> port" "port \<le> 65535"
    by (rule post_port[OF doc post service_attr(3)]) (simp_all add: attr_defs)
  obtain ap where ap: "j_str (body ''attachment_policy'') = Some ap" "ap \<in> set ATTACH_POLICIES"
    by (rule post_choice[OF doc post service_attr(4)]) (simp_all add: attr_defs)
  obtain dp where dp: "j_str (body ''distribution_policy'') = Some dp" "dp \<in> set DISTRIBUTION_POLICIES"
    by (rule post_choice[OF doc post service_attr(5)]) (simp_all add: attr_defs)
  obtain ep where ep: "j_str (body ''exposure_plugin'') = Some ep" "ep \<in> set EXPOSURE_PLUGINS"
    by (rule post_choice[OF doc post service_attr(6)]) (simp_all add: attr_defs)
  obtain hc where hc: "j_str (body ''health_check_type'') = Some hc" "hc \<in> set HC_TYPES"
    by (rule post_choice[OF doc post service_attr(7)]) (simp_all add: attr_defs)
  have body: "sb_name (service_body_of body) = Some name" "sb_protocol (service_body_of body) = Some proto" "sb_port (service_body_of body) = Some port"
      "validate_service_payload na conf (sb_local_ipv4 (service_body_of body)) (sb_local_ipv6 (service_body_of body)) = Inr ()"
    using name proto port vips by (simp_all add: service_body_of_def)
  let ?svc = "new_service new_id (service_body_of body) name proto port"
  have row: "svc_port ?svc = port" "svc_protocol ?svc = proto" "svc_attachment_policy ?svc = ap" "svc_distribution_policy ?svc = dp"
      "svc_exposure_plugin ?svc = ep" "svc_health_check_type ?svc = hc"
    by (simp_all add: new_service_def service_body_of_def get_default_def ap dp ep hc)
  have cols: "service_columns ?svc = posted_columns body"
    by (simp add: service_columns_def posted_columns_def new_service_def service_body_of_def name)
  show ?thesis
  proof (cases "too_long (posted_columns body)")
    case None
    then have "service_flush d ?svc = Inr () \<or> service_flush d ?svc = Inl (ConstraintViolation ''uniq_local_services_project_name'')"
      using proto port ap dp ep hc unfolding service_flush_def row cols by (simp add: port_range_def)
    then show ?thesis
      using None new name proto(1) port(1) by (auto simp: create_local_service_def body item_def Let_def make_service_dict_def new_service_def)
  next
    case (Some column)
    then have "service_flush d ?svc = Inl (DBDataError column)" by (simp add: service_flush_def cols)
    then show ?thesis using Some new by (simp add: create_local_service_def body item_def Let_def)
  qed
qed

theorem posted_service_storable_witness:
  "\<exists>dict d'. create_local_service netaddr_v4 default_vip_conf ''id-1'' (service_body_of (named_post ''dns'' (JStr ''169.254.1.53''))) empty_db = (Inr dict, d')
    \<and> sd_name dict = Some ''dns'' \<and> sd_port dict = Some 53"
proof -
  let ?body = "named_post ''dns'' (JStr ''169.254.1.53'')" and ?sz = "\<lparr>NAME_FIELD_SIZE = 255, LONG_DESCRIPTION_FIELD_SIZE = 1024, PROJECT_ID_FIELD_SIZE = 255\<rparr>"
  have post: "neutron_post mem_valid (LOCAL_SERVICES_attrs ?sz) ?body"
    by (rule named_post_ok[OF mem_valid_documented]) simp_all
  have fields: "j_str (?body ''local_ipv4'') = Some ''169.254.1.53''" "j_str (?body ''local_ipv6'') = None" "j_str (?body ''name'') = Some ''dns''"
      "j_int (?body ''port'') = Some 53"
    by (simp_all add: named_post_def j_str_def j_int_def)
  have vips: "validate_service_payload netaddr_v4 default_vip_conf (j_str (?body ''local_ipv4'')) (j_str (?body ''local_ipv6'')) = Inr ()"
    unfolding fields by (simp add: validate_service_payload_def dns_vip_valid validate_vip_def[of _ _ None])
  have "service_flush empty_db svc \<noteq> Inl (ConstraintViolation ''uniq_local_services_project_name'')" for svc
    by (auto simp: service_flush_def empty_db_def)
  then have "create_local_service netaddr_v4 default_vip_conf ''id-1'' (service_body_of ?body) empty_db
      \<noteq> (Inl (ConstraintViolation ''uniq_local_services_project_name''), empty_db)"
    unfolding create_local_service_def item_def using vips
    by (auto simp: service_body_of_def Let_def split: option.splits sum.splits if_splits)
  moreover have "too_long (posted_columns ?body) = None"
    by (simp add: too_long_def posted_columns_def named_post_def j_str_def)
  ultimately show ?thesis
    using posted_service_storable[OF mem_valid_documented post vips, of "''id-1''" empty_db] unfolding fields by (auto simp: empty_db_def)
qed

text \<open>
  The API admits names and descriptions the table has no room for: with the sizes of neutron_lib, a POST
  whose name is longer than the column is accepted.
\<close>

theorem overlong_name_admitted:
  assumes "validators_documented valid" "64 < NAME_FIELD_SIZE sz"
  shows "\<exists>body name m c. neutron_post valid (LOCAL_SERVICES_attrs sz) body \<and> body ''name'' = Some (JStr name)
    \<and> c \<in> set (tb_columns (LocalService_table mx)) \<and> co_name c = ''name'' \<and> co_type c = SString m \<and> m < length name"
proof -
  let ?name = "replicate 65 (CHR ''x'')"
  have "neutron_post valid (LOCAL_SERVICES_attrs sz) (named_post ?name JNull)"
    by (rule named_post_ok[OF assms(1)]) (use assms in \<open>simp_all add: validators_documented_def\<close>)
  moreover have "named_post ?name JNull ''name'' = Some (JStr ?name)" by (simp add: named_post_def)
  moreover have "col ''name'' (SString 64) False \<in> set (tb_columns (LocalService_table mx))" by (simp add: LocalService_table_def)
  ultimately show ?thesis
    by (intro exI[of _ "named_post ?name JNull"] exI[of _ ?name] exI[of _ 64] exI[of _ "col ''name'' (SString 64) False"]) (simp add: col_def)
qed

theorem overlong_name_admitted_witness:
  "\<exists>body name m c. neutron_post mem_valid (LOCAL_SERVICES_attrs \<lparr>NAME_FIELD_SIZE = 255, LONG_DESCRIPTION_FIELD_SIZE = 1024, PROJECT_ID_FIELD_SIZE = 255\<rparr>) body
    \<and> body ''name'' = Some (JStr name)
    \<and> c \<in> set (tb_columns (LocalService_table lib_mixins)) \<and> co_name c = ''name'' \<and> co_type c = SString m \<and> m < length name"
  by (rule overlong_name_admitted[OF mem_valid_documented]) simp

text \<open>
  Every operation on the three resources is for administrators: for each collection that is registered and
  each method on it or on one of its members there is a rule, and every rule is the administrator's.
\<close>

theorem operations_admin_only:
  "list_all (\<lambda>(coll, resource, attrs).
       list_all (\<lambda>op. list_ex (\<lambda>r. op \<in> set (pr_operations r)) list_rules)
         [(''POST'', CHR ''/'' # coll), (''GET'', CHR ''/'' # coll), (''GET'', CHR ''/'' # coll @ ''/{id}''),
          (''PUT'', CHR ''/'' # coll @ ''/{id}''), (''DELETE'', CHR ''/'' # coll @ ''/{id}'')]) (get_resources sz)
    \<and> list_all (\<lambda>r. pr_check r = ''rule:admin_only'') list_rules"
proof
  have "list_all (\<lambda>coll. list_all (\<lambda>op. list_ex (\<lambda>r. op \<in> set (pr_operations r)) list_rules)
         [(''POST'', CHR ''/'' # coll), (''GET'', CHR ''/'' # coll), (''GET'', CHR ''/'' # coll @ ''/{id}''),
          (''PUT'', CHR ''/'' # coll @ ''/{id}''), (''DELETE'', CHR ''/'' # coll @ ''/{id}'')])
      (map dashed [COLLECTION_LOCAL_SERVICE, COLLECTION_LOCAL_SERVICE_BACKEND, COLLECTION_LOCAL_SERVICE_BINDING])"
    by code_simp
  then show "list_all (\<lambda>(coll, resource, attrs). list_all (\<lambda>op. list_ex (\<lambda>r. op \<in> set (pr_operations r)) list_rules)
         [(''POST'', CHR ''/'' # coll), (''GET'', CHR ''/'' # coll), (''GET'', CHR ''/'' # coll @ ''/{id}''),
          (''PUT'', CHR ''/'' # coll @ ''/{id}''), (''DELETE'', CHR ''/'' # coll @ ''/{id}'')]) (get_resources sz)"
    unfolding get_resources_def by (simp only: list.map list.pred_inject case_prod_conv)
  show "list_all (\<lambda>r. pr_check r = ''rule:admin_only'') list_rules" by code_simp
qed

end
