(* ===== verification/Urlencode.thy ===== *)
theory Urlencode
  imports Json Ipaddress
begin

text \<open>
  What the client uses of \<^verbatim>\<open>urllib.parse\<close>: \<^verbatim>\<open>quote_plus\<close> and \<^verbatim>\<open>urlencode\<close>, with a reader of the query as reference.
  A character of the model is a code point below 256.
\<close>

section \<open>Quoting\<close>

text \<open>\<^verbatim>\<open>urllib.parse.quote_plus\<close>: the bytes of the UTF-8 encoding, all but the safe ones as \<^verbatim>\<open>%XX\<close>.\<close>

definition utf8_char :: "char \<Rightarrow> nat list" where
  "utf8_char c = (let n = of_char c in if n < 128 then [n] else [192 + n div 64, 128 + n mod 64])"

definition is_safe :: "nat \<Rightarrow> bool" where
  "is_safe n = (48 \<le> n \<and> n \<le> 57 \<or> 65 \<le> n \<and> n \<le> 90 \<or> 97 \<le> n \<and> n \<le> 122 \<or> n \<in> {45, 46, 95, 126})"

definition HEX_UPPER :: string where "HEX_UPPER = ''0123456789ABCDEF''"

definition quote_byte :: "nat \<Rightarrow> string" where
  "quote_byte n =
     (if is_safe n then [char_of n]
      else if n = 32 then ''+''
      else [CHR ''%'', HEX_UPPER ! (n div 16), HEX_UPPER ! (n mod 16)])"

definition quote_plus :: "string \<Rightarrow> string" where
  "quote_plus s = concat (map quote_byte (concat (map utf8_char s)))"

fun join_amp :: "string list \<Rightarrow> string" where
  "join_amp [] = []"
| "join_amp [x] = x"
| "join_amp (x # y # ys) = x @ CHR ''&'' # join_amp (y # ys)"

definition encode_pair :: "string \<times> string \<Rightarrow> string" where
  "encode_pair kv = quote_plus (fst kv) @ CHR ''='' # quote_plus (snd kv)"

definition encode_pairs :: "(string \<times> string) list \<Rightarrow> string" where
  "encode_pairs qs = join_amp (map encode_pair qs)"

section \<open>Reading a query back\<close>

text \<open>The reference for the encoding: \<^verbatim>\<open>+\<close> and \<^verbatim>\<open>%XX\<close> to bytes, bytes from UTF-8 to characters, pairs at \<^verbatim>\<open>&\<close> and \<^verbatim>\<open>=\<close>.\<close>

fun unquote_bytes :: "string \<Rightarrow> nat list option" where
  "unquote_bytes [] = Some []"
| "unquote_bytes (c # s) =
     (if c = CHR ''+'' then map_option ((#) 32) (unquote_bytes s)
      else if c = CHR ''%'' then
        (case s of
           a # b # r \<Rightarrow>
             (case (hex_val a, hex_val b) of
                (Some x, Some y) \<Rightarrow> map_option ((#) (16 * x + y)) (unquote_bytes r)
              | _ \<Rightarrow> None)
         | _ \<Rightarrow> None)
      else map_option ((#) (of_char c)) (unquote_bytes s))"

fun utf8_decode :: "nat list \<Rightarrow> string option" where
  "utf8_decode [] = Some []"
| "utf8_decode (n # ns) =
     (if n < 128 then map_option ((#) (char_of n)) (utf8_decode ns)
      else
        (case ns of
           [] \<Rightarrow> None
         | m # ms \<Rightarrow> if 192 \<le> n \<and> n < 196 \<and> 128 \<le> m \<and> m < 192 then map_option ((#) (char_of ((n - 192) * 64 + (m - 128)))) (utf8_decode ms) else None))"

definition unquote_plus :: "string \<Rightarrow> string option" where
  "unquote_plus s = Option.bind (unquote_bytes s) utf8_decode"

definition parse_pair :: "string \<Rightarrow> (string \<times> string) option" where
  "parse_pair s =
     Option.bind (find_sub ''='' s) (\<lambda>(k, v). Option.bind (unquote_plus k) (\<lambda>k'. map_option (Pair k') (unquote_plus v)))"

definition parse_query :: "string \<Rightarrow> (string \<times> string) list option" where
  "parse_query s = those (map parse_pair (split_on (CHR ''&'') s))"

section \<open>Lemmas\<close>

lemma hex_upper:
  assumes "k < 16"
  shows "hex_val (HEX_UPPER ! k) = Some k" "HEX_UPPER ! k \<noteq> CHR ''&''" "HEX_UPPER ! k \<noteq> CHR ''=''"
proof -
  have "list_all (\<lambda>k. hex_val (HEX_UPPER ! k) = Some k \<and> HEX_UPPER ! k \<noteq> CHR ''&'' \<and> HEX_UPPER ! k \<noteq> CHR ''='') [0..<16]" by code_simp
  with assms show "hex_val (HEX_UPPER ! k) = Some k" "HEX_UPPER ! k \<noteq> CHR ''&''" "HEX_UPPER ! k \<noteq> CHR ''=''"
    by (simp_all add: list_all_iff)
qed

lemma byte_nibbles: "(n::nat) < 256 \<Longrightarrow> n div 16 < 16" "n mod 16 < 16"
  by (rule less_mult_imp_div_less) simp_all

lemma safe_chars:
  assumes "n < 256" "is_safe n"
  shows "(char_of n :: char) \<notin> {CHR ''+'', CHR ''%'', CHR ''&'', CHR ''=''}"
proof -
  have "of_char (char_of n :: char) = n" using assms(1) by simp
  moreover have "\<not> is_safe (of_char c)" if "c \<in> {CHR ''+'', CHR ''%'', CHR ''&'', CHR ''=''}" for c :: char
    using that by (auto simp: is_safe_def)
  ultimately show ?thesis using assms(2) by metis
qed

lemma unquote_quote_byte:
  assumes "n < 256"
  shows "unquote_bytes (quote_byte n @ r) = map_option ((#) n) (unquote_bytes r)"
proof (cases "is_safe n")
  case True
  then show ?thesis using safe_chars[OF assms True] assms by (simp add: quote_byte_def)
next
  case False
  then show ?thesis using byte_nibbles(1)[OF assms] byte_nibbles(2)[of n] by (simp add: quote_byte_def hex_upper)
qed

lemma unquote_quoted_bytes: "list_all (\<lambda>n. n < 256) ns \<Longrightarrow> unquote_bytes (concat (map quote_byte ns)) = Some ns"
  by (induction ns) (simp_all add: unquote_quote_byte)

lemma utf8_char_bytes: "list_all (\<lambda>n. n < 256) (utf8_char c)"
proof -
  have "(of_char c :: nat) div 64 < 4" by (rule less_mult_imp_div_less) simp
  moreover have "(of_char c :: nat) mod 64 < 64" by simp
  ultimately have "192 + (of_char c :: nat) div 64 < 256" "128 + (of_char c :: nat) mod 64 < 256" by linarith+
  then show ?thesis by (simp add: utf8_char_def Let_def del: add_less_cancel_left)
qed

lemma utf8_decode_char: "utf8_decode (utf8_char c @ ns) = map_option ((#) c) (utf8_decode ns)"
proof (cases "(of_char c :: nat) < 128")
  case False
  let ?n = "of_char c :: nat"
  have "?n div 64 < 4" by (rule less_mult_imp_div_less) simp
  moreover have "?n div 64 * 64 + ?n mod 64 = ?n" by simp
  moreover have "?n mod 64 < 64" by simp
  ultimately show ?thesis using False by (simp add: utf8_char_def Let_def)
qed (simp add: utf8_char_def Let_def)

interpretation utf8: codec "\<lambda>_. True" "\<lambda>s. concat (map utf8_char s)" utf8_decode
proof
  show "utf8_decode (concat (map utf8_char s)) = Some s" for s
    by (induction s) (simp_all add: utf8_decode_char)
qed

interpretation percent: codec "list_all (\<lambda>n. n < 256)" "\<lambda>ns. concat (map quote_byte ns)" unquote_bytes
  by unfold_locales (rule unquote_quoted_bytes)

interpretation quoting: codec_stack "\<lambda>_. True" "\<lambda>s. concat (map utf8_char s)" utf8_decode "list_all (\<lambda>n. n < 256)" "\<lambda>ns. concat (map quote_byte ns)" unquote_bytes
proof
  show "list_all (\<lambda>n. n < 256) (concat (map utf8_char s))" for s
    using utf8_char_bytes by (induction s) auto
qed

lemma unquote_quote: "unquote_plus (quote_plus s) = Some s"
  using quoting.both.dec_enc[of s] by (simp add: unquote_plus_def quote_plus_def)

lemma quote_byte_chars:
  assumes "n < 256" "c \<in> set (quote_byte n)"
  shows "c \<noteq> CHR ''&''" "c \<noteq> CHR ''=''"
  using assms safe_chars[OF assms(1)] hex_upper(2,3)[OF byte_nibbles(1)[OF assms(1)]] hex_upper(2,3)[OF byte_nibbles(2)[of n]]
  by (auto simp: quote_byte_def split: if_splits)

lemma quote_plus_chars: "CHR ''&'' \<notin> set (quote_plus s)" "CHR ''='' \<notin> set (quote_plus s)"
proof -
  have "n < 256" if "n \<in> set (utf8_char c)" for n c using utf8_char_bytes[of c] that by (simp add: list_all_iff)
  then show "CHR ''&'' \<notin> set (quote_plus s)" "CHR ''='' \<notin> set (quote_plus s)"
    unfolding quote_plus_def using quote_byte_chars by fastforce+
qed

lemma encode_pair_no_amp: "CHR ''&'' \<notin> set (encode_pair kv)"
  by (simp add: encode_pair_def quote_plus_chars)

interpretation pair_codec: codec "\<lambda>_. True" encode_pair parse_pair
  by unfold_locales (simp add: parse_pair_def encode_pair_def find_sub_char quote_plus_chars unquote_quote)

lemma split_join_amp: "xs \<noteq> [] \<Longrightarrow> (\<And>x. x \<in> set xs \<Longrightarrow> CHR ''&'' \<notin> set x) \<Longrightarrow> split_on (CHR ''&'') (join_amp xs) = xs"
  by (induction xs rule: join_amp.induct) (simp_all add: split_on_clean split_on_append)

interpretation query_codec: codec "\<lambda>qs. qs \<noteq> []" encode_pairs parse_query
proof
  fix qs :: "(string \<times> string) list" assume "qs \<noteq> []"
  moreover have "CHR ''&'' \<notin> set x" if "x \<in> set (map encode_pair qs)" for x using that encode_pair_no_amp by auto
  ultimately have "split_on (CHR ''&'') (encode_pairs qs) = map encode_pair qs"
    unfolding encode_pairs_def by (intro split_join_amp) simp_all
  then show "parse_query (encode_pairs qs) = Some qs"
    using pair_codec.dec_all[of qs] by (simp add: parse_query_def list_all_iff)
qed

end
