(* ===== verification/Cli.thy ===== *)
theory Cli
  imports ApiDef Urlencode
begin

text \<open>
  The command line client: the REST helper (\<^verbatim>\<open>cli/_client.py\<close>), the rows it prints (\<^verbatim>\<open>cli/_format.py\<close>) and the
  actions of the commands (\<^verbatim>\<open>cli/osc\<close>). Argument parsing is argparse's: a command gets the values of its
  options, \<open>ANone\<close> for one that was not given. The session is a parameter; the id of a resource it answers with
  is a string and a listing is an array. \<open>ksa_session\<close> is what keystoneauth documents of the sessions \<^verbatim>\<open>make_client\<close> passes on: a request
  that is answered with a status of 400 or more raises an exception of keystoneauth's.
\<close>

section \<open>Arguments and URLs\<close>

text \<open>The value of an option, \<^verbatim>\<open>str\<close> of it, and the JSON it is sent as.\<close>

datatype arg = ANone | AStr string | AInt int | ABool bool

fun arg_str :: "arg \<Rightarrow> string" where
  "arg_str ANone = ''None''"
| "arg_str (AStr s) = s"
| "arg_str (AInt n) = str_int n"
| "arg_str (ABool b) = (if b then ''True'' else ''False'')"

fun arg_json :: "arg \<Rightarrow> json" where
  "arg_json ANone = JNull"
| "arg_json (AStr s) = JStr s"
| "arg_json (AInt n) = JInt n"
| "arg_json (ABool b) = JBool b"

definition json_body :: "(string \<times> arg) list \<Rightarrow> json" where
  "json_body body = JObj (map (\<lambda>(k, v). (k, arg_json v)) body)"

definition urlencode :: "(string \<times> arg) list \<Rightarrow> string" where
  "urlencode qs = encode_pairs (map (\<lambda>(k, v). (k, arg_str v)) qs)"

definition rstrip_slash :: "string \<Rightarrow> string" where
  "rstrip_slash s = rev (dropWhile (\<lambda>c. c = CHR ''/'') (rev s))"

definition API_PREFIX :: string where "API_PREFIX = ''/v2.0''"

definition kept_filters :: "(string \<times> arg) list \<Rightarrow> (string \<times> arg) list" where
  "kept_filters filters = filter (\<lambda>(k, v). v \<noteq> ANone \<and> v \<noteq> AStr []) filters"

definition cli_url :: "string \<Rightarrow> string \<Rightarrow> string option \<Rightarrow> (string \<times> arg) list \<Rightarrow> string" where
  "cli_url endpoint collection i filters =
     (let path = endpoint @ API_PREFIX @ ''/'' @ collection;
          path = (case i of None \<Rightarrow> path | Some x \<Rightarrow> path @ ''/'' @ x);
          qs = kept_filters filters
      in if qs \<noteq> [] then path @ ''?'' @ urlencode qs else path)"

section \<open>The REST client\<close>

datatype http_method = GET | POST | PUT | DELETE

text \<open>A session: the method, the URL and the JSON sent give a status and the JSON received, if it is JSON.\<close>

type_synonym 'w session = "http_method \<Rightarrow> string \<Rightarrow> json \<Rightarrow> ('w, int \<times> json option) act"

record 'w client =
  cl_session :: "'w session"
  cl_endpoint :: string

definition make_client :: "'w session \<Rightarrow> string \<Rightarrow> 'w client" where
  "make_client session endpoint = \<lparr>cl_session = session, cl_endpoint = rstrip_slash endpoint\<rparr>"

abbreviation NotFound :: exc where "NotFound \<equiv> Foreign ''NotFound''"
abbreviation ClientError :: exc where "ClientError \<equiv> Foreign ''LocalServicesClientError''"
abbreviation HTTPError :: exc where "HTTPError \<equiv> Foreign ''HTTPError''"
abbreviation SystemExit :: exc where "SystemExit \<equiv> Foreign ''SystemExit''"

definition raise_for_status :: "int \<Rightarrow> ('w, unit) act" where
  "raise_for_status st = (if 400 \<le> st \<and> st < 600 then raise HTTPError else ret ())"

definition resp_json :: "json option \<Rightarrow> ('w, json) act" where
  "resp_json j = (case j of None \<Rightarrow> raise ValueError | Some v \<Rightarrow> ret v)"

definition resp_item :: "json option \<Rightarrow> string \<Rightarrow> ('w, json) act" where
  "resp_item j k =
     bnd (resp_json j) (\<lambda>v.
       case v of
         JObj kvs \<Rightarrow> (case obj_get kvs k of None \<Rightarrow> raise (KeyError k) | Some x \<Rightarrow> ret x)
       | _ \<Rightarrow> raise (Foreign ''TypeError''))"

definition resp_list :: "json option \<Rightarrow> string \<Rightarrow> ('w, json list) act" where
  "resp_list j k =
     bnd (resp_json j) (\<lambda>v.
       case v of
         JObj kvs \<Rightarrow>
           (case obj_get kvs k of
              None \<Rightarrow> ret []
            | Some (JArr xs) \<Rightarrow> ret xs
            | Some _ \<Rightarrow> raise (Foreign ''TypeError''))
       | _ \<Rightarrow> raise AttributeError)"

definition client_list :: "'w client \<Rightarrow> string \<Rightarrow> (string \<times> arg) list \<Rightarrow> ('w, json list) act" where
  "client_list c collection filters =
     bnd (cl_session c GET (cli_url (cl_endpoint c) collection None filters) JNull) (\<lambda>(st, j).
       andthen (raise_for_status st) (resp_list j collection))"

definition client_show :: "'w client \<Rightarrow> string \<Rightarrow> string \<Rightarrow> string \<Rightarrow> ('w, json) act" where
  "client_show c collection resource i =
     bnd (cl_session c GET (cli_url (cl_endpoint c) collection (Some i) []) JNull) (\<lambda>(st, j).
       if st = 404 then raise NotFound
       else andthen (raise_for_status st) (resp_item j resource))"

definition client_create :: "'w client \<Rightarrow> string \<Rightarrow> string \<Rightarrow> (string \<times> arg) list \<Rightarrow> ('w, json) act" where
  "client_create c collection resource body =
     bnd (cl_session c POST (cli_url (cl_endpoint c) collection None []) (JObj [(resource, json_body body)])) (\<lambda>(st, j).
       andthen (raise_for_status st) (resp_item j resource))"

definition client_update :: "'w client \<Rightarrow> string \<Rightarrow> string \<Rightarrow> string \<Rightarrow> (string \<times> arg) list \<Rightarrow> ('w, json) act" where
  "client_update c collection resource i body =
     bnd (cl_session c PUT (cli_url (cl_endpoint c) collection (Some i) []) (JObj [(resource, json_body body)])) (\<lambda>(st, j).
       if st = 404 then raise NotFound
       else andthen (raise_for_status st) (resp_item j resource))"

definition client_delete :: "'w client \<Rightarrow> string \<Rightarrow> string \<Rightarrow> string \<Rightarrow> ('w, unit) act" where
  "client_delete c collection resource i =
     bnd (cl_session c DELETE (cli_url (cl_endpoint c) collection (Some i) []) JNull) (\<lambda>(st, j).
       if st = 404 then raise NotFound else raise_for_status st)"

definition find_by_name_or_id :: "'w client \<Rightarrow> string \<Rightarrow> string \<Rightarrow> string \<Rightarrow> ('w, json) act" where
  "find_by_name_or_id c collection resource ref =
     bnd (attempt (bnd (client_show c collection resource ref) (\<lambda>x. ret (Some x)))
            (\<lambda>e. if e = NotFound then ret None else raise e)) (\<lambda>shown.
       case shown of
         Some x \<Rightarrow> ret x
       | None \<Rightarrow>
           bnd (client_list c collection [(''name'', AStr ref)]) (\<lambda>matches.
             if matches = [] then raise NotFound
             else if length matches > 1 then raise ClientError
             else ret (hd matches)))"

section \<open>Rows\<close>

definition LOCAL_SERVICE_COLUMNS :: "string list" where
  "LOCAL_SERVICE_COLUMNS =
     [''id'', ''name'', ''description'', ''project_id'', ''local_ipv4'', ''local_ipv6'', ''protocol'', ''port'',
      ''attachment_policy'', ''distribution_policy'', ''exposure_plugin'', ''health_check_type'', ''health_check_config'', ''enabled'']"

definition LOCAL_SERVICE_BACKEND_COLUMNS :: "string list" where
  "LOCAL_SERVICE_BACKEND_COLUMNS =
     [''id'', ''service_id'', ''name'', ''availability_zone'', ''weight'', ''address'', ''port'',
      ''health_check_address'', ''health_check_port'', ''enabled'']"

definition LOCAL_SERVICE_BINDING_COLUMNS :: "string list" where
  "LOCAL_SERVICE_BINDING_COLUMNS = [''id'', ''project_id'', ''service_id'', ''network_id'', ''enabled'']"

text \<open>\<^verbatim>\<open>json.dumps\<close> with \<^verbatim>\<open>sort_keys=True\<close> and its own separators.\<close>

fun join_comma :: "string list \<Rightarrow> string" where
  "join_comma [] = []"
| "join_comma [x] = x"
| "join_comma (x # y # ys) = x @ '', '' @ join_comma (y # ys)"

fun dumps_sorted :: "json \<Rightarrow> string" where
  "dumps_sorted JNull = ''null''"
| "dumps_sorted (JBool b) = (if b then ''true'' else ''false'')"
| "dumps_sorted (JInt n) = str_int n"
| "dumps_sorted (JStr s) = quoted s"
| "dumps_sorted (JArr xs) = CHR ''['' # join_comma (map dumps_sorted xs) @ '']''"
| "dumps_sorted (JObj kvs) =
     CHR ''{'' # join_comma (map (\<lambda>(k, t). quoted k @ '': '' @ t) (sort_key fst (map (\<lambda>kv. (fst kv, dumps_sorted (snd kv))) kvs))) @ ''}''"

definition fmt :: "json \<Rightarrow> json" where
  "fmt v = (case v of JObj kvs \<Rightarrow> JStr (dumps_sorted v) | JArr xs \<Rightarrow> JStr (dumps_sorted v) | _ \<Rightarrow> v)"

definition row :: "string list \<Rightarrow> json \<Rightarrow> ('w, json list) act" where
  "row columns obj =
     (case obj of
        JObj kvs \<Rightarrow> ret (map (\<lambda>c. fmt (case obj_get kvs c of None \<Rightarrow> JNull | Some v \<Rightarrow> v)) columns)
      | _ \<Rightarrow> raise AttributeError)"

fun rows :: "string list \<Rightarrow> json list \<Rightarrow> ('w, json list list) act" where
  "rows columns [] = ret []"
| "rows columns (obj # objs) = bnd (row columns obj) (\<lambda>r. bnd (rows columns objs) (\<lambda>rs. ret (r # rs)))"

definition show_table :: "string list \<Rightarrow> json \<Rightarrow> ('w, string list \<times> json list) act" where
  "show_table columns obj = bnd (row columns obj) (\<lambda>r. ret (columns, r))"

definition list_table :: "string list \<Rightarrow> json list \<Rightarrow> ('w, string list \<times> json list list) act" where
  "list_table columns objs = bnd (rows columns objs) (\<lambda>rs. ret (columns, rs))"

definition service_show :: "json \<Rightarrow> ('w, string list \<times> json list) act" where
  "service_show obj = show_table LOCAL_SERVICE_COLUMNS obj"

definition service_list :: "json list \<Rightarrow> ('w, string list \<times> json list list) act" where
  "service_list objs = list_table LOCAL_SERVICE_COLUMNS objs"

definition backend_show :: "json \<Rightarrow> ('w, string list \<times> json list) act" where
  "backend_show obj = show_table LOCAL_SERVICE_BACKEND_COLUMNS obj"

definition backend_list :: "json list \<Rightarrow> ('w, string list \<times> json list list) act" where
  "backend_list objs = list_table LOCAL_SERVICE_BACKEND_COLUMNS objs"

definition binding_show :: "json \<Rightarrow> ('w, string list \<times> json list) act" where
  "binding_show obj = show_table LOCAL_SERVICE_BINDING_COLUMNS obj"

definition binding_list :: "json list \<Rightarrow> ('w, string list \<times> json list list) act" where
  "binding_list objs = list_table LOCAL_SERVICE_BINDING_COLUMNS objs"

section \<open>Commands\<close>

text \<open>The filters of the three list commands.\<close>

definition SERVICE_FILTERS :: "string list" where "SERVICE_FILTERS = [''protocol'', ''exposure_plugin'', ''enabled'']"
definition BACKEND_FILTERS :: "string list" where "BACKEND_FILTERS = [''service_id'', ''enabled'']"
definition BINDING_FIELDS :: "string list" where "BINDING_FIELDS = [''service_id'', ''network_id'', ''enabled'']"

type_synonym args = "string \<Rightarrow> arg"

definition body_of :: "args \<Rightarrow> string list \<Rightarrow> (string \<times> arg) list" where
  "body_of args names = filter (\<lambda>(f, v). v \<noteq> ANone) (map (\<lambda>f. (f, args f)) names)"

definition CREATE_BODY_FIELDS :: "string list" where
  "CREATE_BODY_FIELDS =
     [''name'', ''description'', ''local_ipv4'', ''local_ipv6'', ''protocol'', ''port'', ''attachment_policy'', ''distribution_policy'',
      ''exposure_plugin'', ''health_check_type'', ''health_check_config'', ''enabled'']"

definition SET_BODY_FIELDS :: "string list" where
  "SET_BODY_FIELDS =
     [''name'', ''description'', ''local_ipv4'', ''local_ipv6'', ''attachment_policy'', ''distribution_policy'',
      ''health_check_type'', ''health_check_config'', ''enabled'']"

definition BACKEND_CREATE_FIELDS :: "string list" where
  "BACKEND_CREATE_FIELDS =
     [''service_id'', ''name'', ''availability_zone'', ''weight'', ''address'', ''port'', ''health_check_address'', ''health_check_port'', ''enabled'']"

definition BACKEND_SET_FIELDS :: "string list" where
  "BACKEND_SET_FIELDS =
     [''name'', ''availability_zone'', ''weight'', ''address'', ''port'', ''health_check_address'', ''health_check_port'', ''enabled'']"

definition truthy_arg :: "arg \<Rightarrow> bool" where
  "truthy_arg v = (v \<noteq> ANone \<and> v \<noteq> AStr [])"

definition create_service_cmd :: "'w client \<Rightarrow> args \<Rightarrow> ('w, string list \<times> json list) act" where
  "create_service_cmd c args =
     (if \<not> (truthy_arg (args ''local_ipv4'') \<or> truthy_arg (args ''local_ipv6'')) then raise SystemExit
      else bnd (client_create c COLLECTION_LOCAL_SERVICE RESOURCE_LOCAL_SERVICE (body_of args CREATE_BODY_FIELDS)) service_show)"

definition list_service_cmd :: "'w client \<Rightarrow> args \<Rightarrow> ('w, string list \<times> json list list) act" where
  "list_service_cmd c args =
     bnd (client_list c COLLECTION_LOCAL_SERVICE (body_of args SERVICE_FILTERS)) service_list"

definition show_service_cmd :: "'w client \<Rightarrow> args \<Rightarrow> ('w, string list \<times> json list) act" where
  "show_service_cmd c args =
     bnd (find_by_name_or_id c COLLECTION_LOCAL_SERVICE RESOURCE_LOCAL_SERVICE (arg_str (args ''service''))) service_show"

definition item_id :: "json \<Rightarrow> ('w, string) act" where
  "item_id v =
     (case v of
        JObj kvs \<Rightarrow> (case obj_get kvs ''id'' of
           None \<Rightarrow> raise (KeyError ''id'')
         | Some (JStr i) \<Rightarrow> ret i
         | Some _ \<Rightarrow> raise (Foreign ''TypeError''))
      | _ \<Rightarrow> raise (Foreign ''TypeError''))"

definition set_service_cmd :: "'w client \<Rightarrow> args \<Rightarrow> ('w, unit) act" where
  "set_service_cmd c args =
     bnd (find_by_name_or_id c COLLECTION_LOCAL_SERVICE RESOURCE_LOCAL_SERVICE (arg_str (args ''service''))) (\<lambda>existing.
       let body = body_of args SET_BODY_FIELDS
       in if body = [] then ret ()
          else bnd (item_id existing) (\<lambda>i.
            bnd (client_update c COLLECTION_LOCAL_SERVICE RESOURCE_LOCAL_SERVICE i body) (\<lambda>_. ret ())))"

text \<open>
  The delete commands: every reference is tried, the failures are collected, and if there are any the command
  exits with them. The result is the list of the references that failed.
\<close>

fun collect_failures :: "(string \<Rightarrow> ('w, unit) act) \<Rightarrow> string list \<Rightarrow> ('w, string list) act" where
  "collect_failures del [] = ret []"
| "collect_failures del (r # rs) =
     bnd (attempt (andthen (del r) (ret [])) (\<lambda>e. ret [r])) (\<lambda>failed.
     bnd (collect_failures del rs) (\<lambda>more. ret (failed @ more)))"

definition delete_all :: "(string \<Rightarrow> ('w, unit) act) \<Rightarrow> string list \<Rightarrow> ('w, unit) act" where
  "delete_all del refs = bnd (collect_failures del refs) (\<lambda>errors. if errors \<noteq> [] then raise SystemExit else ret ())"

definition delete_service_ref :: "'w client \<Rightarrow> string \<Rightarrow> ('w, unit) act" where
  "delete_service_ref c ref =
     bnd (find_by_name_or_id c COLLECTION_LOCAL_SERVICE RESOURCE_LOCAL_SERVICE ref) (\<lambda>obj.
     bnd (item_id obj) (client_delete c COLLECTION_LOCAL_SERVICE RESOURCE_LOCAL_SERVICE))"

definition delete_service_cmd :: "'w client \<Rightarrow> string list \<Rightarrow> ('w, unit) act" where
  "delete_service_cmd c refs = delete_all (delete_service_ref c) refs"

definition create_backend_cmd :: "'w client \<Rightarrow> args \<Rightarrow> ('w, string list \<times> json list) act" where
  "create_backend_cmd c args =
     bnd (client_create c COLLECTION_LOCAL_SERVICE_BACKEND RESOURCE_LOCAL_SERVICE_BACKEND (body_of args BACKEND_CREATE_FIELDS)) backend_show"

definition list_backend_cmd :: "'w client \<Rightarrow> args \<Rightarrow> ('w, string list \<times> json list list) act" where
  "list_backend_cmd c args =
     bnd (client_list c COLLECTION_LOCAL_SERVICE_BACKEND (body_of args BACKEND_FILTERS)) backend_list"

definition show_backend_cmd :: "'w client \<Rightarrow> args \<Rightarrow> ('w, string list \<times> json list) act" where
  "show_backend_cmd c args =
     bnd (client_show c COLLECTION_LOCAL_SERVICE_BACKEND RESOURCE_LOCAL_SERVICE_BACKEND (arg_str (args ''backend''))) backend_show"

definition set_backend_cmd :: "'w client \<Rightarrow> args \<Rightarrow> ('w, unit) act" where
  "set_backend_cmd c args =
     (let body = body_of args BACKEND_SET_FIELDS
      in if body = [] then ret ()
         else bnd (client_update c COLLECTION_LOCAL_SERVICE_BACKEND RESOURCE_LOCAL_SERVICE_BACKEND (arg_str (args ''backend'')) body) (\<lambda>_. ret ()))"

definition delete_backend_cmd :: "'w client \<Rightarrow> string list \<Rightarrow> ('w, unit) act" where
  "delete_backend_cmd c refs = delete_all (client_delete c COLLECTION_LOCAL_SERVICE_BACKEND RESOURCE_LOCAL_SERVICE_BACKEND) refs"

definition create_binding_cmd :: "'w client \<Rightarrow> args \<Rightarrow> ('w, string list \<times> json list) act" where
  "create_binding_cmd c args =
     bnd (client_create c COLLECTION_LOCAL_SERVICE_BINDING RESOURCE_LOCAL_SERVICE_BINDING (body_of args BINDING_FIELDS)) binding_show"

definition list_binding_cmd :: "'w client \<Rightarrow> args \<Rightarrow> ('w, string list \<times> json list list) act" where
  "list_binding_cmd c args =
     bnd (client_list c COLLECTION_LOCAL_SERVICE_BINDING (body_of args BINDING_FIELDS)) binding_list"

definition show_binding_cmd :: "'w client \<Rightarrow> args \<Rightarrow> ('w, string list \<times> json list) act" where
  "show_binding_cmd c args =
     bnd (client_show c COLLECTION_LOCAL_SERVICE_BINDING RESOURCE_LOCAL_SERVICE_BINDING (arg_str (args ''binding''))) binding_show"

definition set_binding_cmd :: "'w client \<Rightarrow> args \<Rightarrow> ('w, unit) act" where
  "set_binding_cmd c args =
     (let body = body_of args [''enabled'']
      in if body = [] then ret ()
         else bnd (client_update c COLLECTION_LOCAL_SERVICE_BINDING RESOURCE_LOCAL_SERVICE_BINDING (arg_str (args ''binding'')) body) (\<lambda>_. ret ()))"

definition delete_binding_cmd :: "'w client \<Rightarrow> string list \<Rightarrow> ('w, unit) act" where
  "delete_binding_cmd c refs = delete_all (client_delete c COLLECTION_LOCAL_SERVICE_BINDING RESOURCE_LOCAL_SERVICE_BINDING) refs"

section \<open>Sessions\<close>

abbreviation ks_NotFound :: exc where "ks_NotFound \<equiv> Foreign ''keystoneauth1.NotFound''"

definition ksa_session :: "'w session \<Rightarrow> bool" where
  "ksa_session s \<longleftrightarrow>
     (\<forall>m url j w.
        (case fst (s m url j w) of
           Inl e \<Rightarrow> e \<noteq> NotFound
         | Inr (st, r) \<Rightarrow> st < 400))"

text \<open>A session in memory: the answers by URL; what has none is not found.\<close>

definition mem_session :: "(string \<rightharpoonup> json) \<Rightarrow> nat session" where
  "mem_session answers m url j n =
     (case answers url of None \<Rightarrow> (Inl ks_NotFound, Suc n) | Some r \<Rightarrow> (Inr (200, Some r), Suc n))"

definition dns_answers :: "string \<rightharpoonup> json" where
  "dns_answers =
     [''http://api/v2.0/local_services/id-1'' \<mapsto> JObj [(''local_service'', JObj [(''id'', JStr ''id-1''), (''name'', JStr ''dns'')])],
      ''http://api/v2.0/local_services?name=dns'' \<mapsto> JObj [(''local_services'', JArr [JObj [(''id'', JStr ''id-1''), (''name'', JStr ''dns'')]])]]"

lemma mem_session_ksa: "ksa_session (mem_session answers)"
  by (simp add: ksa_session_def mem_session_def split: option.split)

lemma ksa_session_cases:
  assumes "ksa_session s" "s m url j w = (r, w')"
  shows "r = Inl e \<Longrightarrow> e \<noteq> NotFound" and "r = Inr (st, x) \<Longrightarrow> st < 400"
proof -
  have "case fst (s m url j w) of Inl e \<Rightarrow> e \<noteq> NotFound | Inr (st, r) \<Rightarrow> st < 400"
    using assms(1) unfolding ksa_session_def by blast
  then show "r = Inl e \<Longrightarrow> e \<noteq> NotFound" and "r = Inr (st, x) \<Longrightarrow> st < 400"
    using assms(2) by simp_all
qed

lemma resp_item_not_NotFound: "resp_item j k w = (Inl e, w') \<Longrightarrow> e \<noteq> NotFound"
  by (auto simp: resp_item_def resp_json_def bnd_def split: option.splits json.splits)

lemma ksa_show_not_NotFound:
  assumes "ksa_session (cl_session c)" "client_show c collection resource i w = (Inl e, w')"
  shows "e \<noteq> NotFound"
proof -
  obtain r w1 where r: "cl_session c GET (cli_url (cl_endpoint c) collection (Some i) []) JNull w = (r, w1)" by fastforce
  show ?thesis
  proof (cases r)
    case (Inl f)
    then show ?thesis using assms r ksa_session_cases(1)[OF assms(1) r] by (simp add: client_show_def)
  next
    case (Inr x)
    obtain st j where x: "x = (st, j)" by fastforce
    have "st < 400" using ksa_session_cases(2)[OF assms(1) r] Inr x by simp
    then have "client_show c collection resource i w = resp_item j resource w1"
      using r Inr x by (simp add: client_show_def raise_for_status_def)
    then show ?thesis using assms(2) resp_item_not_NotFound[of j resource w1 e w'] by simp
  qed
qed

lemma ksa_find_is_show:
  assumes "ksa_session (cl_session c)"
  shows "find_by_name_or_id c collection resource ref = client_show c collection resource ref"
proof
  fix w
  obtain r w1 where r: "client_show c collection resource ref w = (r, w1)" by fastforce
  then show "find_by_name_or_id c collection resource ref w = client_show c collection resource ref w"
    using ksa_show_not_NotFound[OF assms] by (cases r) (auto simp: find_by_name_or_id_def bnd_def attempt_def)
qed

lemma collect_failures_fold:
  "\<exists>failed w'. collect_failures del refs w = (Inr failed, w')
     \<and> fold (\<lambda>r (fine, w). case del r w of (x, w') \<Rightarrow> (fine \<and> \<not> isl x, w')) refs (fine, w) = (fine \<and> failed = [], w')"
proof (induction refs arbitrary: fine w)
  case (Cons r refs)
  obtain x w1 where x: "del r w = (x, w1)" by fastforce
  obtain failed w' where "collect_failures del refs w1 = (Inr failed, w')"
      "fold (\<lambda>r (fine, w). case del r w of (x, w') \<Rightarrow> (fine \<and> \<not> isl x, w')) refs (fine \<and> \<not> isl x, w1) = ((fine \<and> \<not> isl x) \<and> failed = [], w')"
    using Cons.IH by blast
  then show ?case using x by (cases x) (auto simp: bnd_def attempt_def andthen_def)
qed simp

section \<open>Properties\<close>

text \<open>
  The query of a list request says exactly what was asked: read back, it gives the filters that have a
  value, with their names and the text of their values, in order, whatever characters they contain. A filter
  on a flag that is off is kept; without filters there is no query.
\<close>

theorem list_query_roundtrip:
  "cli_url endpoint collection i filters =
     endpoint @ API_PREFIX @ ''/'' @ collection @ (case i of None \<Rightarrow> [] | Some x \<Rightarrow> CHR ''/'' # x)
     @ (if kept_filters filters = [] then [] else CHR ''?'' # urlencode (kept_filters filters))
   \<and> (kept_filters filters = [] \<or> parse_query (urlencode (kept_filters filters)) = Some (map (\<lambda>(k, v). (k, arg_str v)) (kept_filters filters)))
   \<and> kept_filters [(''enabled'', ABool False)] = [(''enabled'', ABool False)]"
proof (intro conjI)
  show "kept_filters filters = [] \<or> parse_query (urlencode (kept_filters filters)) = Some (map (\<lambda>(k, v). (k, arg_str v)) (kept_filters filters))"
    unfolding urlencode_def by (cases "kept_filters filters = []") (simp_all add: query_codec.dec_enc)
qed (simp_all add: cli_url_def Let_def kept_filters_def split: option.split)

text \<open>
  C35. With the sessions the client is given in production, references by name are never resolved: such a
  session raises its own exception on a 404, so the fallback to the name filter does not run, and looking up a
  reference is looking up an id. When the server answers that there is no such id, showing, updating and
  deleting the service end with that exception after this one request.
\<close>

theorem names_never_resolved:
  assumes "ksa_session (cl_session c)"
    and "args ''service'' = AStr name"
    and "cl_session c GET (cli_url (cl_endpoint c) COLLECTION_LOCAL_SERVICE (Some name) []) JNull w = (Inl e, w1)"
  shows "find_by_name_or_id c collection resource ref = client_show c collection resource ref
    \<and> show_service_cmd c args w = (Inl e, w1) \<and> set_service_cmd c args w = (Inl e, w1)
    \<and> delete_service_cmd c [name] w = (Inl SystemExit, w1)"
proof -
  have "client_show c COLLECTION_LOCAL_SERVICE RESOURCE_LOCAL_SERVICE name w = (Inl e, w1)"
    using assms(3) by (simp add: client_show_def)
  then show ?thesis
    using assms(2) by (simp add: ksa_find_is_show[OF assms(1)] show_service_cmd_def set_service_cmd_def
      delete_service_cmd_def delete_all_def delete_service_ref_def bnd_def attempt_def andthen_def)
qed

theorem names_never_resolved_witness:
  "(let c = make_client (mem_session dns_answers) ''http://api/''; args = (\<lambda>opt. if opt = ''service'' then AStr ''dns'' else ANone)
    in fst (show_service_cmd c args 0) = Inl ks_NotFound \<and> fst (delete_service_cmd c [''dns''] 0) = Inl SystemExit
      \<and> fst (client_list c COLLECTION_LOCAL_SERVICE [(''name'', AStr ''dns'')] 0) = Inr [JObj [(''id'', JStr ''id-1''), (''name'', JStr ''dns'')]])"
proof -
  let ?c = "make_client (mem_session dns_answers) ''http://api/''" and ?args = "\<lambda>opt. if opt = ''service'' then AStr ''dns'' else ANone"
  have url: "cli_url (cl_endpoint ?c) COLLECTION_LOCAL_SERVICE (Some ''dns'') [] = ''http://api/v2.0/local_services/dns''"
      "cli_url (cl_endpoint ?c) COLLECTION_LOCAL_SERVICE None [(''name'', AStr ''dns'')] = ''http://api/v2.0/local_services?name=dns''"
    by code_simp+
  have ses: "cl_session ?c = mem_session dns_answers" by (simp add: make_client_def)
  have none: "cl_session ?c GET (cli_url (cl_endpoint ?c) COLLECTION_LOCAL_SERVICE (Some ''dns'') []) JNull 0 = (Inl ks_NotFound, 1)"
    unfolding url ses by (simp add: mem_session_def dns_answers_def)
  have "fst (client_list ?c COLLECTION_LOCAL_SERVICE [(''name'', AStr ''dns'')] 0) = Inr [JObj [(''id'', JStr ''id-1''), (''name'', JStr ''dns'')]]"
    unfolding client_list_def url ses
    by (simp add: mem_session_def dns_answers_def bnd_def andthen_def raise_for_status_def resp_list_def resp_json_def obj_get_def COLLECTION_LOCAL_SERVICE_def)
  moreover have "ksa_session (cl_session ?c)" unfolding ses by (rule mem_session_ksa)
  ultimately show ?thesis
    using names_never_resolved[of ?c ?args "''dns''", OF _ _ none] by (simp add: Let_def)
qed

text \<open>
  A delete command tries every reference in order, whatever happens to the others, and exits with an error
  exactly when one of them failed.
\<close>

theorem delete_tries_all:
  "delete_all del refs w =
     (case fold (\<lambda>r (fine, w). case del r w of (x, w') \<Rightarrow> (fine \<and> \<not> isl x, w')) refs (True, w) of
        (fine, w') \<Rightarrow> (if fine then Inr () else Inl SystemExit, w'))"
  using collect_failures_fold[of del refs w True]
  by (auto simp: delete_all_def bnd_def split: prod.splits)

text \<open>
  The commands and the API agree on the attributes: set offers exactly what a PUT may change, create what a
  POST may set apart from the project, the tables show exactly what is visible, and every filter of a list
  command is one the API filters by.
\<close>

theorem cli_matches_api:
  "(let attrs_with = (\<lambda>P attrs. fst ` set (filter (P \<circ> snd) attrs));
        svc = LOCAL_SERVICES_attrs sz; be = LOCAL_SERVICE_BACKENDS_attrs sz; bi = LOCAL_SERVICE_BINDINGS_attrs sz
    in set SET_BODY_FIELDS = attrs_with at_put svc \<and> set BACKEND_SET_FIELDS = attrs_with at_put be \<and> {''enabled''} = attrs_with at_put bi
      \<and> set CREATE_BODY_FIELDS = attrs_with at_post svc - {''project_id''} \<and> set BACKEND_CREATE_FIELDS = attrs_with at_post be
      \<and> set BINDING_FIELDS = attrs_with at_post bi - {''project_id''}
      \<and> set LOCAL_SERVICE_COLUMNS = attrs_with at_visible svc \<and> set LOCAL_SERVICE_BACKEND_COLUMNS = attrs_with at_visible be
      \<and> set LOCAL_SERVICE_BINDING_COLUMNS = attrs_with at_visible bi
      \<and> set (''name'' # SERVICE_FILTERS) \<subseteq> attrs_with at_filter svc \<and> set BACKEND_FILTERS \<subseteq> attrs_with at_filter be
      \<and> set BINDING_FIELDS \<subseteq> attrs_with at_filter bi)"
  unfolding Let_def
  by (intro conjI; simp add: attr_defs SET_BODY_FIELDS_def BACKEND_SET_FIELDS_def CREATE_BODY_FIELDS_def BACKEND_CREATE_FIELDS_def BINDING_FIELDS_def
     LOCAL_SERVICE_COLUMNS_def LOCAL_SERVICE_BACKEND_COLUMNS_def LOCAL_SERVICE_BINDING_COLUMNS_def SERVICE_FILTERS_def BACKEND_FILTERS_def
     LOCAL_SERVICES_attrs_def LOCAL_SERVICE_BACKENDS_attrs_def LOCAL_SERVICE_BINDINGS_attrs_def insert_commute insert_Diff_if)

end
