(* ===== verification/CliParser.thy ===== *)
theory CliParser
  imports Cli
begin

text \<open>
  The option parsers of the commands (\<^verbatim>\<open>cli/osc\<close>) as tables, and a static check of a table against the attribute
  map of the API: what it accepts has the types and the values the API asks for. argparse is not part of the
  repository: \<open>parsed\<close> is what it documents of the values it hands to a command. Options without a role in a
  request (the reference of show, set and delete) are left out.
\<close>

section \<open>Options\<close>

text \<open>The value of an option: text, \<^verbatim>\<open>type=int\<close>, \<^verbatim>\<open>choices\<close>, \<^verbatim>\<open>store_true\<close> and \<^verbatim>\<open>store_false\<close>.\<close>

datatype opt_value = OptStr | OptInt | OptChoice "string list" | OptTrue | OptFalse

record opt =
  op_flag :: string
  op_dest :: string
  op_required :: bool
  op_value :: opt_value

definition optional :: "string \<Rightarrow> string \<Rightarrow> opt_value \<Rightarrow> opt" where
  "optional flag dest v = \<lparr>op_flag = flag, op_dest = dest, op_required = False, op_value = v\<rparr>"

definition required :: "string \<Rightarrow> string \<Rightarrow> opt_value \<Rightarrow> opt" where
  "required flag dest v = \<lparr>op_flag = flag, op_dest = dest, op_required = True, op_value = v\<rparr>"

definition add_enable_flags :: "opt list" where
  "add_enable_flags = [optional ''--enable'' ''enabled'' OptTrue, optional ''--disable'' ''enabled'' OptFalse]"

definition list_enabled_flags :: "opt list" where
  "list_enabled_flags = [optional ''--enabled'' ''enabled'' OptTrue, optional ''--disabled'' ''enabled'' OptFalse]"

definition add_create_args :: "opt list" where
  "add_create_args =
     [required ''name'' ''name'' OptStr, optional ''--description'' ''description'' OptStr,
      optional ''--local-ipv4'' ''local_ipv4'' OptStr, optional ''--local-ipv6'' ''local_ipv6'' OptStr,
      required ''--protocol'' ''protocol'' (OptChoice PROTOCOLS), required ''--port'' ''port'' OptInt,
      optional ''--attachment-policy'' ''attachment_policy'' (OptChoice ATTACH_POLICIES),
      optional ''--distribution-policy'' ''distribution_policy'' (OptChoice DISTRIBUTION_POLICIES),
      optional ''--exposure-plugin'' ''exposure_plugin'' (OptChoice EXPOSURE_PLUGINS),
      optional ''--health-check-type'' ''health_check_type'' (OptChoice HC_TYPES),
      optional ''--health-check-config'' ''health_check_config'' OptStr] @ add_enable_flags"

definition add_set_args :: "opt list" where
  "add_set_args =
     [optional ''--name'' ''name'' OptStr, optional ''--description'' ''description'' OptStr,
      optional ''--local-ipv4'' ''local_ipv4'' OptStr, optional ''--local-ipv6'' ''local_ipv6'' OptStr,
      optional ''--attachment-policy'' ''attachment_policy'' (OptChoice ATTACH_POLICIES),
      optional ''--distribution-policy'' ''distribution_policy'' (OptChoice DISTRIBUTION_POLICIES),
      optional ''--health-check-type'' ''health_check_type'' (OptChoice HC_TYPES),
      optional ''--health-check-config'' ''health_check_config'' OptStr] @ add_enable_flags"

definition list_service_opts :: "opt list" where
  "list_service_opts =
     [optional ''--protocol'' ''protocol'' (OptChoice PROTOCOLS), optional ''--exposure-plugin'' ''exposure_plugin'' (OptChoice EXPOSURE_PLUGINS)]
     @ list_enabled_flags"

definition create_backend_opts :: "opt list" where
  "create_backend_opts =
     [required ''--service'' ''service_id'' OptStr, required ''--address'' ''address'' OptStr, required ''--port'' ''port'' OptInt,
      optional ''--name'' ''name'' OptStr, optional ''--availability-zone'' ''availability_zone'' OptStr, optional ''--weight'' ''weight'' OptInt,
      optional ''--health-check-address'' ''health_check_address'' OptStr, optional ''--health-check-port'' ''health_check_port'' OptInt]
     @ add_enable_flags"

definition list_backend_opts :: "opt list" where
  "list_backend_opts = optional ''--service'' ''service_id'' OptStr # list_enabled_flags"

definition set_backend_opts :: "opt list" where
  "set_backend_opts =
     [optional ''--name'' ''name'' OptStr, optional ''--availability-zone'' ''availability_zone'' OptStr, optional ''--weight'' ''weight'' OptInt,
      optional ''--address'' ''address'' OptStr, optional ''--port'' ''port'' OptInt,
      optional ''--health-check-address'' ''health_check_address'' OptStr, optional ''--health-check-port'' ''health_check_port'' OptInt]
     @ add_enable_flags"

definition create_binding_opts :: "opt list" where
  "create_binding_opts = [required ''--service'' ''service_id'' OptStr, required ''--network'' ''network_id'' OptStr] @ add_enable_flags"

definition list_binding_opts :: "opt list" where
  "list_binding_opts = [optional ''--service'' ''service_id'' OptStr, optional ''--network'' ''network_id'' OptStr] @ list_enabled_flags"

definition set_binding_opts :: "opt list" where
  "set_binding_opts = add_enable_flags"

section \<open>What a parser accepts\<close>

fun opt_admits :: "opt_value \<Rightarrow> arg \<Rightarrow> bool" where
  "opt_admits OptStr (AStr s) = True"
| "opt_admits OptInt (AInt n) = True"
| "opt_admits (OptChoice cs) (AStr s) = (s \<in> set cs)"
| "opt_admits OptTrue (ABool b) = b"
| "opt_admits OptFalse (ABool b) = (\<not> b)"
| "opt_admits ov v = False"

text \<open>The values a command gets: for each destination that of one of its options, or none when no option for it is required.\<close>

definition parsed :: "opt list \<Rightarrow> args \<Rightarrow> bool" where
  "parsed opts args =
     list_all (\<lambda>d.
       if args d = ANone then \<not> list_ex (\<lambda>x. op_dest x = d \<and> op_required x) opts
       else list_ex (\<lambda>x. op_dest x = d \<and> opt_admits (op_value x) (args d)) opts) (map op_dest opts)"

section \<open>What the API asks for\<close>

text \<open>The type of a value, and its membership in an enumeration; ranges, lengths and the syntax of addresses are left to the server.\<close>

definition value_fits :: "attr \<Rightarrow> arg \<Rightarrow> bool" where
  "value_fits a v =
     (case at_validate a of
        Some (VValues vs) \<Rightarrow> (case v of AStr s \<Rightarrow> s \<in> set vs | _ \<Rightarrow> False)
      | Some (VRange l h) \<Rightarrow> (case v of AInt n \<Rightarrow> True | _ \<Rightarrow> False)
      | Some _ \<Rightarrow> (case v of AStr s \<Rightarrow> True | _ \<Rightarrow> False)
      | None \<Rightarrow>
          (case at_convert a of
             ConvBool \<Rightarrow> (case v of ABool b \<Rightarrow> True | _ \<Rightarrow> False)
           | Verbatim \<Rightarrow> True
           | _ \<Rightarrow> (case v of AInt n \<Rightarrow> True | _ \<Rightarrow> False)))"

definition body_fits :: "(attr \<Rightarrow> bool) \<Rightarrow> (string \<times> attr) list \<Rightarrow> (string \<times> arg) list \<Rightarrow> bool" where
  "body_fits allowed attrs body =
     list_all (\<lambda>(k, v). case map_of attrs k of None \<Rightarrow> False | Some a \<Rightarrow> allowed a \<and> value_fits a v) body"

text \<open>The attributes a POST must give; the project comes with the request.\<close>

definition required_of :: "(string \<times> attr) list \<Rightarrow> string list" where
  "required_of attrs = map fst (filter (\<lambda>(k, a). at_post a \<and> at_default a = Required \<and> \<not> at_by_policy a) attrs)"

section \<open>The static check\<close>

fun opt_fits :: "attr \<Rightarrow> opt_value \<Rightarrow> bool" where
  "opt_fits a OptStr \<longleftrightarrow> (case at_validate a of Some (VValues vs) \<Rightarrow> False | _ \<Rightarrow> value_fits a (AStr []))"
| "opt_fits a OptInt \<longleftrightarrow> value_fits a (AInt 0)"
| "opt_fits a (OptChoice cs) \<longleftrightarrow> list_all (\<lambda>s. value_fits a (AStr s)) cs"
| "opt_fits a OptTrue \<longleftrightarrow> value_fits a (ABool True)"
| "opt_fits a OptFalse \<longleftrightarrow> value_fits a (ABool False)"

definition command_typed :: "(attr \<Rightarrow> bool) \<Rightarrow> (string \<times> attr) list \<Rightarrow> opt list \<Rightarrow> string list \<Rightarrow> string list \<Rightarrow> bool" where
  "command_typed allowed attrs opts names needed \<longleftrightarrow>
     list_all (\<lambda>k. list_ex (\<lambda>x. op_dest x = k) opts
       \<and> (case map_of attrs k of
            None \<Rightarrow> False
          | Some a \<Rightarrow> allowed a \<and> list_all (\<lambda>x. op_dest x \<noteq> k \<or> opt_fits a (op_value x)) opts)) names
     \<and> list_all (\<lambda>k. k \<in> set names \<and> list_ex (\<lambda>x. op_dest x = k \<and> op_required x) opts) needed"

lemma opt_fits_sound: "opt_fits a ov \<Longrightarrow> opt_admits ov v \<Longrightarrow> value_fits a v"
  by (cases ov; cases v)
     (auto simp: value_fits_def list_all_iff split: option.splits validator.splits conversion.splits)

lemma parsedD:
  assumes "parsed opts args" "list_ex (\<lambda>x. op_dest x = d) opts"
  shows "args d = ANone \<Longrightarrow> \<not> list_ex (\<lambda>x. op_dest x = d \<and> op_required x) opts"
    and "args d \<noteq> ANone \<Longrightarrow> \<exists>x \<in> set opts. op_dest x = d \<and> opt_admits (op_value x) (args d)"
  using assms by (auto simp: parsed_def list_all_iff list_ex_iff)

lemma command_typed_sound:
  assumes typed: "command_typed allowed attrs opts names needed" and args: "parsed opts args"
  shows "body_fits allowed attrs (body_of args names)" and "set needed \<subseteq> fst ` set (body_of args names)"
proof -
  show "body_fits allowed attrs (body_of args names)"
    unfolding body_fits_def list_all_iff
  proof (clarify)
    fix k v assume "(k, v) \<in> set (body_of args names)"
    then have k: "k \<in> set names" "v = args k" "v \<noteq> ANone" by (auto simp: body_of_def)
    have ex: "list_ex (\<lambda>x. op_dest x = k) opts" using typed k(1) by (simp add: command_typed_def list_all_iff)
    obtain a where a: "map_of attrs k = Some a" "allowed a" and fit: "\<And>x. x \<in> set opts \<Longrightarrow> op_dest x = k \<Longrightarrow> opt_fits a (op_value x)"
      using typed k(1) by (auto simp: command_typed_def list_all_iff split: option.splits)
    obtain x where "x \<in> set opts" "op_dest x = k" "opt_admits (op_value x) v"
      using parsedD(2)[OF args ex] k(2,3) by blast
    then show "case map_of attrs k of None \<Rightarrow> False | Some a \<Rightarrow> allowed a \<and> value_fits a v"
      using a fit opt_fits_sound by auto
  qed
  show "set needed \<subseteq> fst ` set (body_of args names)"
  proof
    fix k assume "k \<in> set needed"
    then have k: "k \<in> set names" "list_ex (\<lambda>x. op_dest x = k \<and> op_required x) opts"
      using typed by (auto simp: command_typed_def list_all_iff)
    then have "args k \<noteq> ANone" using parsedD(1)[OF args, of k] by (auto simp: list_ex_iff)
    with k(1) have "(k, args k) \<in> set (body_of args names)" by (auto simp: body_of_def)
    then show "k \<in> fst ` set (body_of args names)" by force
  qed
qed

section \<open>The commands\<close>

text \<open>Create, set and list of the three resources: what the API allows there, the options, the fields that are sent, the fields that must be.\<close>

definition commands :: "db_sizes \<Rightarrow> ((attr \<Rightarrow> bool) \<times> (string \<times> attr) list \<times> opt list \<times> string list \<times> string list) list" where
  "commands sz =
     (let svc = LOCAL_SERVICES_attrs sz; be = LOCAL_SERVICE_BACKENDS_attrs sz; bi = LOCAL_SERVICE_BINDINGS_attrs sz
      in [(at_post, svc, add_create_args, CREATE_BODY_FIELDS, required_of svc), (at_put, svc, add_set_args, SET_BODY_FIELDS, []),
          (at_filter, svc, list_service_opts, SERVICE_FILTERS, []),
          (at_post, be, create_backend_opts, BACKEND_CREATE_FIELDS, required_of be), (at_put, be, set_backend_opts, BACKEND_SET_FIELDS, []),
          (at_filter, be, list_backend_opts, BACKEND_FILTERS, []),
          (at_post, bi, create_binding_opts, BINDING_FIELDS, required_of bi), (at_put, bi, set_binding_opts, [''enabled''], []),
          (at_filter, bi, list_binding_opts, BINDING_FIELDS, [])])"

lemmas opts_defs = optional_def required_def add_enable_flags_def list_enabled_flags_def add_create_args_def add_set_args_def list_service_opts_def
  create_backend_opts_def list_backend_opts_def set_backend_opts_def create_binding_opts_def list_binding_opts_def set_binding_opts_def

lemmas names_defs = CREATE_BODY_FIELDS_def SET_BODY_FIELDS_def BACKEND_CREATE_FIELDS_def BACKEND_SET_FIELDS_def BINDING_FIELDS_def SERVICE_FILTERS_def BACKEND_FILTERS_def

lemmas maps_defs = LOCAL_SERVICES_attrs_def LOCAL_SERVICE_BACKENDS_attrs_def LOCAL_SERVICE_BINDINGS_attrs_def attr_defs

lemma service_commands_typed:
  "command_typed at_post (LOCAL_SERVICES_attrs sz) add_create_args CREATE_BODY_FIELDS (required_of (LOCAL_SERVICES_attrs sz))"
  "command_typed at_put (LOCAL_SERVICES_attrs sz) add_set_args SET_BODY_FIELDS []"
  "command_typed at_filter (LOCAL_SERVICES_attrs sz) list_service_opts SERVICE_FILTERS []"
  by (simp_all add: command_typed_def opts_defs names_defs maps_defs required_of_def value_fits_def list_all_iff)

lemma backend_commands_typed:
  "command_typed at_post (LOCAL_SERVICE_BACKENDS_attrs sz) create_backend_opts BACKEND_CREATE_FIELDS (required_of (LOCAL_SERVICE_BACKENDS_attrs sz))"
  "command_typed at_put (LOCAL_SERVICE_BACKENDS_attrs sz) set_backend_opts BACKEND_SET_FIELDS []"
  "command_typed at_filter (LOCAL_SERVICE_BACKENDS_attrs sz) list_backend_opts BACKEND_FILTERS []"
  by (simp_all add: command_typed_def opts_defs names_defs maps_defs required_of_def value_fits_def list_all_iff)

lemma binding_commands_typed:
  "command_typed at_post (LOCAL_SERVICE_BINDINGS_attrs sz) create_binding_opts BINDING_FIELDS (required_of (LOCAL_SERVICE_BINDINGS_attrs sz))"
  "command_typed at_put (LOCAL_SERVICE_BINDINGS_attrs sz) set_binding_opts [''enabled''] []"
  "command_typed at_filter (LOCAL_SERVICE_BINDINGS_attrs sz) list_binding_opts BINDING_FIELDS []"
  by (simp_all add: command_typed_def opts_defs names_defs maps_defs required_of_def value_fits_def list_all_iff)

section \<open>Properties\<close>

text \<open>
  C36. A command line that is accepted makes a request of the API's types: whatever options are given to create,
  set or list, the request names only attributes that the API allows there, with values of their types and from
  their enumerations, and a create sends every attribute a POST must have.
\<close>

theorem accepted_commands_typed:
  assumes "(allowed, attrs, opts, names, needed) \<in> set (commands sz)" and "parsed opts args"
  shows "body_fits allowed attrs (body_of args names) \<and> set needed \<subseteq> fst ` set (body_of args names)"
proof -
  have "command_typed allowed attrs opts names needed"
    using assms(1) service_commands_typed[of sz] backend_commands_typed[of sz] binding_commands_typed[of sz]
    by (auto simp: commands_def Let_def)
  with assms(2) show ?thesis using command_typed_sound by blast
qed

theorem accepted_commands_typed_witness:
  "(let sz = \<lparr>NAME_FIELD_SIZE = 255, LONG_DESCRIPTION_FIELD_SIZE = 1024, PROJECT_ID_FIELD_SIZE = 255\<rparr>;
        args = (\<lambda>_. ANone)(''service_id'' := AStr ''s'', ''address'' := AStr ''192.0.2.1'', ''port'' := AInt 53, ''enabled'' := ABool False)
    in parsed create_backend_opts args
      \<and> body_fits at_post (LOCAL_SERVICE_BACKENDS_attrs sz) (body_of args BACKEND_CREATE_FIELDS)
      \<and> set [''service_id'', ''address'', ''port''] \<subseteq> fst ` set (body_of args BACKEND_CREATE_FIELDS))"
proof -
  let ?sz = "\<lparr>NAME_FIELD_SIZE = 255, LONG_DESCRIPTION_FIELD_SIZE = 1024, PROJECT_ID_FIELD_SIZE = 255\<rparr>"
  let ?args = "(\<lambda>_. ANone)(''service_id'' := AStr ''s'', ''address'' := AStr ''192.0.2.1'', ''port'' := AInt 53, ''enabled'' := ABool False)"
  have "parsed create_backend_opts ?args" by (simp add: parsed_def opts_defs)
  moreover have "(at_post, LOCAL_SERVICE_BACKENDS_attrs ?sz, create_backend_opts, BACKEND_CREATE_FIELDS, [''service_id'', ''address'', ''port'']) \<in> set (commands ?sz)"
    by (simp add: commands_def Let_def required_of_def LOCAL_SERVICE_BACKENDS_attrs_def attr_defs)
  ultimately show ?thesis unfolding Let_def using accepted_commands_typed by blast
qed

end
