(* ===== verification/Spec2Isabelle.thy ===== *)
theory Spec2Isabelle
  imports EndToEnd VipFamily PluginStart Allocator RegistryClient Netns Egress Locks Extension NatPlugin ProxyWorker ProxyRace ProxyControl CliParser
begin

text \<open>
  \<^bold>\<open>Verification of neutron-local-services.\<close> The program publishes operator-defined services (DNS, NTP,
  ...) inside tenant networks of OpenStack Neutron. A service has a virtual address (VIP) and
  backends; a binding attaches a service to a network or keeps it off one. On the server a
  service plugin keeps the catalog, a localport per network and the host routes of the subnets;
  on every chassis an agent extension provisions a namespace per network, puts the VIPs on its
  veth, hands the services to exposure plugins and programs the packet filter.

  \<^bold>\<open>Theories and sources\<close> (paths under \<^verbatim>\<open>src/neutron_local_services\<close>):
  \<^item> Prelude: exceptions as values, actions (state passing with exceptions: \<open>bnd\<close>, \<open>attempt\<close>, \<open>swallow\<close>,
    \<open>each\<close>), \<open>keeps\<close>/\<open>stable\<close>/\<open>returns\<close> with their rule collections, Python strings. Constants:
    \<^verbatim>\<open>constants.py\<close>.
  \<^item> Names: the names derived from a network id (\<^verbatim>\<open>ovn/localport.py\<close>, \<^verbatim>\<open>agent/netns.py\<close>,
    \<^verbatim>\<open>agent/underlay.py\<close>, \<^verbatim>\<open>agent/extension.py\<close>): round trip, length, collisions.
  \<^item> Ipaddress, Allocator: the /30 allocator of \<^verbatim>\<open>agent/underlay.py\<close> and the part of \<^verbatim>\<open>ipaddress\<close> it
    uses; a locale of slot allocators, interpreted on it; state file and restart.
  \<^item> Netaddr: the interface of the netaddr package. CatalogDB, CatalogInv: \<^verbatim>\<open>db/models.py\<close> and
    \<^verbatim>\<open>db/local_services_db.py\<close>, the tables as lists of rows, all readers and writers, and the
    invariant of the catalog over any sequence of operations. A row is checked against the widths of its columns,
    the constraints of its table and the tables it refers to.
  \<^item> Core, Localport: the core plugin as an interface, \<^verbatim>\<open>ovn/localport.py\<close>. HostRoutes:
    \<^verbatim>\<open>host_routes.py\<close>. ServicePlugin: \<^verbatim>\<open>plugin/plugin.py\<close>, reconciliation and lifecycle; Neutron may
    refuse the update of a subnet (\<open>update_refused\<close>, which the plugin swallows) and the database the commit of a
    transaction (\<open>ev_commit\<close>, also of the one that rolls a binding back), and the theorems say what is left then.
    PluginStart: its construction, subscriptions and cached references.
  \<^item> RegistryClient: \<^verbatim>\<open>agent/registry_client.py\<close> over a transport; its view agrees with the
    server's; which failures become \<open>RegistryFetchError\<close>.
  \<^item> Kernel: what the agent asks of the machine. Netns: \<^verbatim>\<open>agent/netns.py\<close>; two owners of one
    device's addresses as a locale with two interpretations.
  \<^item> Firewall: the documented effect of the iptables invocations on rule sets, and what a rule set
    does to a packet. Underlay: the rest of \<^verbatim>\<open>agent/underlay.py\<close>. Egress: the invariant of the
    filter table over every reachable state, operations that raise included (it follows which chains a failed reconcile
    has left open), the whitelist and the isolation of tenants. Locks: the
    per-network locks of the underlay and of the two plugins under any interleaving, with bodies that may raise; what the operations need of a lock table
    is a locale with three interpretations.
  \<^item> Keepalived, Osys, NatPlugin: \<^verbatim>\<open>agent/plugins/nat.py\<close>, the renderer with a reader of keepalived's
    blocks and statements (nested, closed by braces, with comment lines) that gives back what the services ask for, and the keepalived lifecycle over the operating system's calls; the
    polling loop takes as many turns as the timeout allows (\<open>wait_ends\<close>: enough for a clock that sleeping advances).
  \<^item> Json: the text \<^verbatim>\<open>json.dumps\<close> writes and \<^verbatim>\<open>json.loads\<close> reads, with their round trip (the fuel of the parser
    is twice the length of the text, \<open>loads_dumps\<close>). ProxyPlugin, ProxyControl: \<^verbatim>\<open>agent/plugins/proxy.py\<close>, the signed
    catalog and the registration of namespaces; frames of the control socket and the health scrape.
    ProxyWorker: the reader of the catalog, \<^verbatim>\<open>proxy/worker/src/catalog.rs\<close>: what it accepts and what makes it keep
    its last catalog. ProxyRace: passes of different networks as interleaved steps on shared state, read by that worker.
  \<^item> Schema: the tables of \<^verbatim>\<open>db/models.py\<close> over the columns of neutron_lib's mixins and the upgrades of the Alembic
    migrations, which build the same tables up to one server default.
    ApiDef: the attribute maps of \<^verbatim>\<open>api/local_services.py\<close>, the resources of \<^verbatim>\<open>extensions/local_services.py\<close> and the
    rules of \<^verbatim>\<open>policies.py\<close>; what a request that passes them can do to the catalog.
  \<^item> Urlencode, Cli: the command line client, \<^verbatim>\<open>cli/_client.py\<close>, \<^verbatim>\<open>cli/_format.py\<close> and the commands of \<^verbatim>\<open>cli/osc\<close>; its
    queries read back as what was asked (codecs composed of codecs), its lookup by name, its deletions, and that
    its fields are the attributes of the API. CliParser: the options of the commands, with a static check against
    the attribute maps and its soundness.
  \<^item> Plugins: \<^verbatim>\<open>agent/plugins/base.py\<close>. Extension: \<^verbatim>\<open>agent/extension.py\<close>, the composition of
    the agent's components: cache of the last good state, events, periodic pass, start.
  \<^item> EndToEnd: server and agent over one catalog. It states what a pass of the service plugin publishes and what a pass
    of the agent puts on the veth and into the filter in terms of the rows of the catalog (\<open>attached_vips\<close>,
    \<open>catalog_endpoints\<close>); the properties of the whole system, at the end of this theory, rest on it. VipFamily: what an
    IPv6 address in \<^verbatim>\<open>local_ipv4\<close>, which the catalog accepts, does to the routes of a network.

  \<^bold>\<open>How code is modelled.\<close> A method with effects is an action on a record of the state it can reach; an
  exception is a value and the effects before it stay. A \<^verbatim>\<open>for\<close> loop over a list is recursion on it;
  a Python set that is iterated is a list in an order given by a parameter \<open>set_order\<close>, of which only
  \<open>set_order_ok\<close> is known. Code outside the repository (Neutron, OVN, Keystone, ip_lib, iptables,
  netaddr, the file system) is a parameter; what the code relies on is a named predicate
  (\<open>core_ok\<close>, \<open>px_ok\<close> with \<open>full_writes\<close>: \<^verbatim>\<open>os.write\<close> takes the whole text, \<open>worker_agrees\<close>, \<open>mixins_documented\<close>, \<open>serves\<close>, \<open>validators_documented\<close>, \<open>neutron_post\<close>, \<open>ksa_session\<close>, \<open>addr_ok\<close>, \<open>addr_frame\<close>, \<open>iptables_ok\<close>, \<open>fw_frame\<close>, \<open>refuses_foreign\<close>, ...;
  \<open>host_ok\<close>, \<open>server_ok\<close>, \<open>connected\<close>, \<open>veth_works\<close> and \<open>pass_frame\<close> bundle them for the system), and each has an instance in
  memory on which the theorems are applied. Fuel occurs three times: in the JSON parser, the depth of jumps in \<open>walk\<close>, where the chains of
  the agent are two deep and the theorems hold for every fuel that covers one jump, and the turns of
  the wait for keepalived. The extension is proved for any plugins that satisfy \<open>plugins_frame\<close>, which
  \<open>nat_plugin_frame\<close> gives for the NAT plugin. Log
  messages are dropped.

  \<^bold>\<open>Not modelled.\<close> The registration of options (\<^verbatim>\<open>conf.py\<close> apart from the VIP defaults) and \<^verbatim>\<open>env.py\<close> of Alembic, which
  only declare things to oslo.config and Alembic; how argparse reads a command line (\<open>parsed\<close> is its result);
  the timers themselves; and the data path and privileged helper of the Rust proxy.
\<close>

section \<open>The system\<close>

text \<open>
  C1. What the catalog says is what the chassis has: a pass of the agent on a network, against an API that
  answers from the catalog and with a veth whose calls do not fail, returns and leaves on the veth, beside the
  addresses that are not VIPs, exactly the IPv4 VIPs of the services the catalog attaches to the network; no other
  device of the chassis changes. A second pass changes no address.
\<close>

theorem catalog_reaches_chassis:
  assumes "host_ok h addrs" "veth_works (h_kn h) n" "n \<noteq> []" "connected h d a" "catalog_ok d"
  shows "\<exists>a'. Extension.reconcile_network h n a = (Inr (), a')
    \<and> addrs (ch_kernel (ag_chassis a')) = (addrs (ch_kernel (ag_chassis a)))(veth_of n :=
        {c \<in> addrs (ch_kernel (ag_chassis a)) (veth_of n). \<not> is_vip_cidr c} \<union> {c \<in> attached_vips d n. is_vip_cidr c})
    \<and> (\<exists>a''. Extension.reconcile_network h n a' = (Inr (), a'')
        \<and> addrs (ch_kernel (ag_chassis a'')) = addrs (ch_kernel (ag_chassis a')))"
proof -
  obtain a' where a': "Extension.reconcile_network h n a = (Inr (), a')" "connected h d a'"
      "addrs (ch_kernel (ag_chassis a')) = (addrs (ch_kernel (ag_chassis a)))(veth_of n :=
        {c \<in> addrs (ch_kernel (ag_chassis a)) (veth_of n). \<not> is_vip_cidr c} \<union> {c \<in> attached_vips d n. is_vip_cidr c})"
    by (rule agent_pass[OF assms])
  obtain a'' where a'': "Extension.reconcile_network h n a' = (Inr (), a'')"
      "addrs (ch_kernel (ag_chassis a'')) = (addrs (ch_kernel (ag_chassis a')))(veth_of n :=
        {c \<in> addrs (ch_kernel (ag_chassis a')) (veth_of n). \<not> is_vip_cidr c} \<union> {c \<in> attached_vips d n. is_vip_cidr c})"
    by (rule agent_pass[OF assms(1-3) a'(2) assms(5)])
  have "addrs (ch_kernel (ag_chassis a'')) = addrs (ch_kernel (ag_chassis a'))"
    unfolding a''(2) a'(3) by (auto simp: fun_eq_iff)
  with a' a''(1) show ?thesis by blast
qed

theorem catalog_reaches_chassis_witness:
  "\<exists>a'. Extension.reconcile_network (mem_host demo_transport) ''n1'' mem_agent = (Inr (), a')
     \<and> mem_addrs (ch_kernel (ag_chassis a')) demo_dev = {''10.0.0.2/24'', ''169.254.1.53/32''}"
proof -
  have n: "''n1'' \<noteq> []" by simp
  obtain a' where a': "Extension.reconcile_network (mem_host demo_transport) ''n1'' mem_agent = (Inr (), a')"
      "mem_addrs (ch_kernel (ag_chassis a')) = (mem_addrs (ch_kernel (ag_chassis mem_agent)))(veth_of ''n1'' :=
        {c \<in> mem_addrs (ch_kernel (ag_chassis mem_agent)) (veth_of ''n1''). \<not> is_vip_cidr c} \<union> {c \<in> attached_vips demo_db ''n1''. is_vip_cidr c})"
    using catalog_reaches_chassis[OF mem_host_fine n demo_connected] by blast
  have "mem_addrs (ch_kernel (ag_chassis mem_agent)) (veth_of ''n1'') = {''10.0.0.2/24'', ''169.254.1.9/32''}"
    by (simp add: mem_agent_def mem_addrs_def demo_k_def demo_dev_def)
  then have "mem_addrs (ch_kernel (ag_chassis a')) demo_dev = {''10.0.0.2/24'', ''169.254.1.53/32''}"
    unfolding a'(2) demo_attached_vips demo_dev_def using demo_kinds by auto
  with a'(1) show ?thesis by blast
qed

text \<open>
  C2. The routes of the tenants lead to addresses the chassis has: after a pass of the service plugin on a
  network, whatever an IPv4 subnet of the network routes to the address of our localport is, once the agent
  of a chassis has made its pass over the same catalog, an address on the network's veth there. The only exception is
  a subnet whose update Neutron refused in that pass: the plugin swallows the failure, and the subnet, with whatever
  it routed, is the one it was before the pass. The hypothesis that no IPv4 VIP of the catalog contains a colon is
  needed: \<open>foreign_vip_blocks_routes\<close> shows what happens without it.
\<close>

theorem published_routes_reach_chassis:
  assumes server: "server_ok ev ports subnets n v" "catalog_ok (sv_db v)" "ServicePlugin.reconcile_network ev n v = (Inr (), v')"
    and t: "t \<in> set (subnets (sv_core v'))" "sn_network_id t = Some n" "sn_ip_version t = Some 4" "routed_to_us ev ports v' t dest"
    and chassis: "host_ok h addrs" "veth_works (h_kn h) n" "n \<noteq> []" "connected h (sv_db v') a"
    and v4: "\<And>s x. s \<in> set (db_services (sv_db v)) \<Longrightarrow> svc_local_ipv4 s = Some x \<Longrightarrow> CHR '':'' \<notin> set x"
  shows "\<exists>a'. Extension.reconcile_network h n a = (Inr (), a')
    \<and> (dest \<in> addrs (ch_kernel (ag_chassis a')) (veth_of n)
        \<or> t \<in> set (subnets (sv_core v)) \<and> left_behind ev ports subnets n v' t)"
proof -
  have d: "sv_db v' = sv_db v" by (rule server_pass_keeps_catalog[OF server(3)])
  have dest: "dest \<in> attached_vips (sv_db v) n \<or> t \<in> set (subnets (sv_core v)) \<and> left_behind ev ports subnets n v' t"
    by (rule routed_is_attached[OF server t])
  have vip: "is_vip_cidr dest" if "dest \<in> attached_vips (sv_db v) n"
    using that v4 by (auto simp: attached_vips_def vip_cidr_iff)
  obtain a' where "Extension.reconcile_network h n a = (Inr (), a')"
      "addrs (ch_kernel (ag_chassis a')) = (addrs (ch_kernel (ag_chassis a)))(veth_of n :=
        {c \<in> addrs (ch_kernel (ag_chassis a)) (veth_of n). \<not> is_vip_cidr c} \<union> {c \<in> attached_vips (sv_db v) n. is_vip_cidr c})"
    by (rule agent_pass[OF chassis(1-3) chassis(4)[unfolded d] server(2)])
  with dest vip show ?thesis by auto
qed

theorem published_routes_reach_chassis_witness:
  "\<exists>a'. Extension.reconcile_network (mem_host demo_transport) ''n1'' mem_agent = (Inr (), a')
     \<and> ''169.254.1.53/32'' \<in> mem_addrs (ch_kernel (ag_chassis a')) (veth_of ''n1'')"
proof -
  let ?t = "demo_subnet\<lparr>sn_host_routes := Some (Some [service_route ''169.254.1.53'' ''10.0.0.2''])\<rparr>"
  have db: "sv_db demo_server = demo_db" "sv_db demo_server' = demo_db" by (simp_all add: demo_server_def demo_server'_def)
  have "subnet_nexthop demo_oc [demo_port] ?t = Some ''10.0.0.2''"
    using demo_routes(1) subnet_routes_cong(1)[of ?t demo_subnet demo_oc "[demo_port]"] by simp
  then have route: "routed_to_us demo_ev mem_ports demo_server' ?t ''169.254.1.53/32''"
    by (auto simp: routed_to_us_def demo_server'_def usable_pairs_def service_route_def routes_of_def)
  have t: "?t \<in> set (mem_subnets (sv_core demo_server'))" "sn_network_id ?t = Some ''n1''" "sn_ip_version ?t = Some 4"
    by (simp_all add: demo_server'_def demo_subnet_def)
  have v4: "CHR '':'' \<notin> set x" if "s \<in> set (db_services (sv_db demo_server))" "svc_local_ipv4 s = Some x" for s x
    using that by (auto simp: db(1) HostRoutes.demo_db_def HostRoutes.demo_service_def)
  have "\<exists>a'. Extension.reconcile_network (mem_host demo_transport) ''n1'' mem_agent = (Inr (), a')
     \<and> (''169.254.1.53/32'' \<in> mem_addrs (ch_kernel (ag_chassis a')) (veth_of ''n1'')
         \<or> ?t \<in> set (mem_subnets (sv_core demo_server)) \<and> left_behind demo_ev mem_ports mem_subnets ''n1'' demo_server' ?t)"
    by (rule published_routes_reach_chassis[OF demo_server_ok _ demo_reconciled t route mem_host_fine _ _ v4])
      (use demo_connected db in simp_all)
  moreover have "?t \<notin> set (mem_subnets (sv_core demo_server))"
    using demo_not_yet by (auto simp: demo_server_def demo_subnet_def)
  ultimately show ?thesis by blast
qed

text \<open>
  C3. Egress from the catalog to the packet. On a chassis in a state the underlay can reach, in which the network has
  just been provisioned, a pass of the agent against an API that answers from the catalog returns and leaves a
  filter on which a new flow of the network's namespace is accepted exactly when it leaves the chassis towards an
  enabled backend (or its health check) of a service the catalog attaches to the network; everything else is dropped.
\<close>

theorem tenant_reaches_backends:
  assumes fw: "iptables_ok (h_kn h) fw valid" "pass_frame h fw" "\<And>ep. ep \<in> catalog_endpoints d n \<Longrightarrow> valid (accept_rule ep)" "valid drop_rule"
    and start: "underlay_reach fw (h_io h) (h_kn h) pool Op s" "provision_for_network (h_io h) (h_kn h) n s = (Inr (Some ips), ag_chassis a)"
    and cat: "connected h d a" "catalog_ok d" "set_order_ok (h_set_order h)" "n \<noteq> []"
    and p: "pk_in p = fst (underlay_veth_names n)" "pk_ctstate p = ''NEW''"
  shows "\<exists>a' hrs. Extension.reconcile_network h n a = (Inr (), a')
    \<and> chain_rules (fw (ch_kernel (ag_chassis a')) None) ''filter'' UNDERLAY_HOST_CHAIN = Some hrs
    \<and> walk (Suc fuel) (fw (ch_kernel (ag_chassis a')) None) hrs p =
        (if \<not> startswith (pk_out p) UNDERLAY_VETH_PREFIX
            \<and> (\<exists>port. (pk_proto p, pk_dst p, port) \<in> catalog_endpoints d n \<and> pk_dport p = str_int port)
         then Accepted else Dropped)"
proof -
  have frame: "fw_frame (h_kn h) fw" using fw(2) by (simp add: pass_frame_def)
  have inv: "inv_k (after_provision (Inr (Some ips)) n Op) fw (ch_kernel (ag_chassis a))"
    by (rule reach_inv[OF fw(1) frame underlay_reach.step[OF start(1) underlay_step.provision[OF start(2)]]])
  obtain hrs where hrs: "rules_of fw (ch_kernel (ag_chassis a)) UNDERLAY_HOST_CHAIN = Some hrs" "jump_rule n \<in> set hrs"
    using provision_links(1)[OF fw(1) start(2)] by blast
  define svcs where "svcs = map (with_backends d) (enabled_services_for_network (h_set_order h) (\<lambda>_. True) d n)"
  obtain eps where eps: "backend_endpoints svcs = Inr eps" "set eps = catalog_endpoints d n"
    using cat(2) by (auto simp: catalog_ok_def svcs_def intro: fetched_endpoints[OF _ cat(3)])
  obtain a' k where a': "Extension.reconcile_network h n a = (Inr (), a')" "rules_of fw k = rules_of fw (ch_kernel (ag_chassis a))"
      "ch_kernel (ag_chassis a') = snd (reconcile_destination_acl (h_kn h) n svcs k)"
    unfolding svcs_def by (rule pass_acl[OF fw(2) cat])
  obtain k' where k': "reconcile_destination_acl (h_kn h) n svcs k = (Inr (), k')"
    by (rule acl_run[OF fw(1) eps(1) refl, of n k]) (use fw(3,4) eps(2) in simp)
  from acl_verdict[OF fw(1) _ _ hrs(2) k' eps(1) p, where fuel = fuel] inv hrs(1) a' k' eps(2) show ?thesis by auto
qed

theorem tenant_reaches_backends_witness:
  "\<exists>ips s1 a' hrs. provision_for_network fs_ok (fw_kn (\<lambda>_. True)) ''net-b'' chassis1 = (Inr (Some ips), s1)
     \<and> Extension.reconcile_network fw_host ''net-b'' (fw_agent s1) = (Inr (), a')
     \<and> chain_rules (ch_kernel (ag_chassis a') None) ''filter'' UNDERLAY_HOST_CHAIN = Some hrs
     \<and> walk 1 (ch_kernel (ag_chassis a') None) hrs (packet_to ''10.0.0.5'') = Accepted"
proof -
  obtain ips s1 where prov: "provision_for_network fs_ok (fw_kn (\<lambda>_. True)) ''net-b'' chassis1 = (Inr (Some ips), s1)"
    using provision_net_b by blast
  have h: "h_kn fw_host = fw_kn (\<lambda>_. True)" "h_io fw_host = fs_ok" "set_order_ok (h_set_order fw_host)" "ag_chassis (fw_agent s1) = s1"
    using remdups_order by (simp_all add: fw_host_def fw_agent_def)
  have "\<exists>a' hrs. Extension.reconcile_network fw_host ''net-b'' (fw_agent s1) = (Inr (), a')
      \<and> chain_rules (ch_kernel (ag_chassis a') None) ''filter'' UNDERLAY_HOST_CHAIN = Some hrs
      \<and> walk (Suc 0) (ch_kernel (ag_chassis a') None) hrs (packet_to ''10.0.0.5'') = Accepted"
    using tenant_reaches_backends[of fw_host "\<lambda>k. k" "\<lambda>_. True" demo_db2 "''net-b''" "''100.64.0.0/22''" "{}" chassis1 ips "fw_agent s1" "packet_to ''10.0.0.5''" 0]
      fw_kn_ok[of "\<lambda>_. True"] fw_pass_frame chassis1_reach prov fw_connected[of s1] demo2_ok
    by (simp add: h demo2_endpoints) (simp add: packet_to_def startswith_def const_defs)
  with prov show ?thesis by auto
qed

end
